(* ===== verification/Prelude.thy ===== *)
theory Prelude
  imports Main "HOL-Library.Word" "HOL-Library.Char_ord" "HOL-Library.List_Lexorder"
begin

text \<open>
  The shared vocabulary of the development: Go's \<open>int64\<close> as a 64-bit word read with
  \<open>sint\<close>, Go strings as byte lists with their bytewise order, the result type of a Go call
  (\<open>Ok\<close>, \<open>Err\<close> or \<open>Panic\<close>) together with the sequencing \<open>bind_ok\<close> that stands
  for \<open>if err != nil { return err }\<close>, the decimal rendering that \<open>fmt\<close> and
  \<open>strconv\<close> share, and the list lemmas the component theories use.
\<close>

section \<open>Machine types\<close>

type_synonym int64 = "64 word"
type_synonym uuid = "128 word"

text \<open>Instants, in microseconds since the epoch: the precision of \<open>TIMESTAMPTZ\<close>.\<close>

type_synonym time = int

named_theorems int64_arith \<open>signed reading of 64-bit sums and differences\<close>
named_theorems rows \<open>projections of updated and extended row lists\<close>

lemma sint_range: "- (2 ^ 63) \<le> sint (x :: int64)" "sint (x :: int64) < 2 ^ 63"
  using sint_greater_eq [of x] sint_less [of x] by simp_all

lemma sint_diff_int64 [int64_arith]:
  fixes a b :: int64
  assumes "0 \<le> sint b" and "sint b \<le> sint a"
  shows "sint (a - b) = sint a - sint b"
proof -
  have "- (2 ^ 63) \<le> sint a - sint b" and "sint a - sint b < 2 ^ 63"
    using assms sint_range [of a] by simp_all
  then show ?thesis
    by (simp add: sint_word_ariths(2) signed_take_bit_int_eq_self)
qed

lemma sint_add_int64 [int64_arith]:
  fixes a b :: int64
  assumes "- (2 ^ 63) \<le> sint a + sint b" and "sint a + sint b < 2 ^ 63"
  shows "sint (a + b) = sint a + sint b"
  using assms by (simp add: sint_word_ariths(1) signed_take_bit_int_eq_self)

text \<open>
  Two non-negative balances whose sum leaves the \<open>int64\<close> range wrap to a negative value,
  so a non-negativity check on the stored sum is an overflow check.
\<close>

lemma sint_add_wraps_negative:
  fixes a b :: int64
  assumes "0 \<le> sint a" and "0 \<le> sint b" and "2 ^ 63 \<le> sint a + sint b"
  shows "sint (a + b) < 0"
proof -
  have "sint a + sint b < 2 ^ 64"
    using sint_range [of a] sint_range [of b] by simp
  then have "signed_take_bit 63 (sint a + sint b) = sint a + sint b - 2 ^ 64"
    using assms by (simp add: signed_take_bit_eq_take_bit_shift take_bit_int_def mod_pos_pos_trivial)
       (subst mod_pos_geq; simp)
  then show ?thesis
    using \<open>sint a + sint b < 2 ^ 64\<close> by (simp add: sint_word_ariths(1))
qed

lemma sint_add_nonneg_iff:
  fixes a b :: int64
  assumes "0 \<le> sint a" and "0 \<le> sint b"
  shows "0 \<le> sint (a + b) \<longleftrightarrow> sint a + sint b < 2 ^ 63"
  using assms sint_add_wraps_negative [of a b] sint_add_int64 [of a b]
  by (cases "sint a + sint b < 2 ^ 63") auto

section \<open>Results of Go calls\<close>

text \<open>
  A call returns a value, returns an error, or panics. An operation on the modelled state takes
  the state and returns its result with the new state.
\<close>

datatype ('e, 'a) res = Ok 'a | Err 'e | Panic string

type_synonym ('w, 'e, 'a) op = "'w \<Rightarrow> ('e, 'a) res \<times> 'w"

definition return_ok :: "'a \<Rightarrow> ('w, 'e, 'a) op" where
  "return_ok x w = (Ok x, w)"

definition return_err :: "'e \<Rightarrow> ('w, 'e, 'a) op" where
  "return_err e w = (Err e, w)"

text \<open>
  \<open>bind_ok m k\<close> runs \<open>m\<close> and continues with \<open>k\<close> on success; an error is returned to
  the caller at once, and a panic unwinds.
\<close>

definition bind_ok :: "('w, 'e, 'a) op \<Rightarrow> ('a \<Rightarrow> ('w, 'e, 'b) op) \<Rightarrow> ('w, 'e, 'b) op" where
  "bind_ok m k w =
     (case m w of
        (Ok x, w') \<Rightarrow> k x w'
      | (Err e, w') \<Rightarrow> (Err e, w')
      | (Panic p, w') \<Rightarrow> (Panic p, w'))"

lemma return_ok_apply [simp]: "return_ok x w = (Ok x, w)"
  by (simp add: return_ok_def)

lemma return_err_apply [simp]: "return_err e w = (Err e, w)"
  by (simp add: return_err_def)

lemma bind_ok_Ok [simp]: "m w = (Ok x, w') \<Longrightarrow> bind_ok m k w = k x w'"
  by (simp add: bind_ok_def)

lemma bind_ok_Err [simp]: "m w = (Err e, w') \<Longrightarrow> bind_ok m k w = (Err e, w')"
  by (simp add: bind_ok_def)

lemma bind_okE:
  assumes "bind_ok m k w = (r, w')"
  obtains (ok) x v where "m w = (Ok x, v)" and "k x v = (r, w')"
  | (err) e where "m w = (Err e, w')" and "r = Err e"
  | (panic) p where "m w = (Panic p, w')" and "r = Panic p"
  using assms by (auto simp: bind_ok_def split: prod.splits res.splits)

lemma bind_ok_eq_Ok:
  "bind_ok m k w = (Ok y, w') \<longleftrightarrow> (\<exists>x v. m w = (Ok x, v) \<and> k x v = (Ok y, w'))"
  by (auto simp: bind_ok_def split: prod.splits res.splits)

text \<open>
  A relation between the states before and after a call that is reflexive and transitive passes
  through \<open>bind_ok\<close>, whatever the outcome.
\<close>

definition keeps :: "('w \<Rightarrow> 'w \<Rightarrow> bool) \<Rightarrow> ('w, 'e, 'a) op \<Rightarrow> bool" where
  "keeps R m \<longleftrightarrow> (\<forall>w. R w (snd (m w)))"

lemma keepsI: "(\<And>w r w'. m w = (r, w') \<Longrightarrow> R w w') \<Longrightarrow> keeps R m"
  unfolding keeps_def by (metis prod.collapse)

lemma keepsD: "keeps R m \<Longrightarrow> m w = (r, w') \<Longrightarrow> R w w'"
  by (metis keeps_def snd_conv)

lemma keeps_bind_ok:
  assumes "keeps R m" and "\<And>x. keeps R (k x)"
    and "\<And>a b c. R a b \<Longrightarrow> R b c \<Longrightarrow> R a c"
  shows "keeps R (bind_ok m k)"
proof (rule keepsI)
  fix w r w' assume "bind_ok m k w = (r, w')"
  then show "R w w'"
    by (cases rule: bind_okE) (use assms in \<open>blast dest: keepsD\<close>)+
qed

section \<open>Lists of rows\<close>

lemma map_update_where [rows]:
  "(\<And>x. f (g x) = f x) \<Longrightarrow> map f (map (\<lambda>x. if P x then g x else x) xs) = map f xs"
  by simp

lemma find_None_iff_notin: "List.find (\<lambda>x. f x = k) xs = None \<longleftrightarrow> k \<notin> f ` set xs"
  by (auto simp: find_None_iff)

lemma find_Some_unique:
  "distinct (map f xs) \<Longrightarrow> x \<in> set xs \<Longrightarrow> List.find (\<lambda>y. f y = f x) xs = Some x"
  by (induction xs) (auto simp: image_iff)

lemma find_SomeD: "List.find P xs = Some x \<Longrightarrow> x \<in> set xs \<and> P x"
  by (metis (no_types, lifting) find_Some_iff nth_mem)

lemma find_append:
  "List.find P (xs @ ys) = (case List.find P xs of Some x \<Rightarrow> Some x | None \<Rightarrow> List.find P ys)"
  by (induction xs) auto

text \<open>A sum over the rows of something that only the row with key \<open>i\<close> contributes.\<close>

lemma sum_list_indicator:
  fixes c :: int
  assumes "distinct (map k xs)" and "i \<in> k ` set xs"
  shows "sum_list (map (\<lambda>x. if k x = i then c else 0) xs) = c"
  using assms
proof (induction xs)
  case Nil
  then show ?case by simp
next
  case (Cons a xs)
  have "sum_list (map (\<lambda>x. if k x = i then c else 0) ys) = 0" if "i \<notin> k ` set ys" for ys
    using that by (induction ys) auto
  then show ?case using Cons by auto
qed

end
