(* ===== verification/Domain.thy ===== *)
theory Domain
  imports Prelude
begin

text \<open>
  Package \<open>internal/domain\<close> with the error values of every layer: the entities as records, the
  transfer state machine on the string-typed \<open>TransferState\<close>, the sentinel errors, and Go's
  error wrapping (\<open>fmt.Errorf\<close> with \<open>%w\<close>) with \<open>errors.Is\<close>.
\<close>

section \<open>Entities\<close>

record Wallet =
  wID :: string
  wBalance :: int64
  wCreatedAt :: time
  wUpdatedAt :: time

text \<open>\<open>TransferState\<close> and \<open>EntryType\<close> are string types with named constants.\<close>

type_synonym TransferState = string
type_synonym EntryType = string

definition StatePending :: TransferState where
  "StatePending = ''PENDING''"

definition StateProcessed :: TransferState where
  "StateProcessed = ''PROCESSED''"

definition StateFailed :: TransferState where
  "StateFailed = ''FAILED''"

definition EntryDebit :: EntryType where
  "EntryDebit = ''DEBIT''"

definition EntryCredit :: EntryType where
  "EntryCredit = ''CREDIT''"

lemmas state_defs = StatePending_def StateProcessed_def StateFailed_def
lemmas entry_defs = EntryDebit_def EntryCredit_def

definition Valid :: "TransferState \<Rightarrow> bool" where
  "Valid s \<longleftrightarrow> s = StatePending \<or> s = StateProcessed \<or> s = StateFailed"

definition CanTransitionTo :: "TransferState \<Rightarrow> TransferState \<Rightarrow> bool" where
  "CanTransitionTo s next \<longleftrightarrow> s = StatePending \<and> (next = StateProcessed \<or> next = StateFailed)"

record Transfer =
  tID :: uuid
  tFromWalletID :: string
  tToWalletID :: string
  tAmount :: int64
  tState :: TransferState
  tFailureReason :: string
  tCreatedAt :: time
  tUpdatedAt :: time

record LedgerEntry =
  eID :: int64
  eTransferID :: uuid
  eWalletID :: string
  eType :: EntryType
  eAmount :: int64
  eCreatedAt :: time

section \<open>Errors\<close>

text \<open>
  The sentinels of \<open>domain/errors.go\<close> and \<open>repository/repository.go\<close>, the sentinels of
  \<open>database/sql\<close>, the typed Postgres error with its SQLSTATE, driver failures, plain
  \<open>fmt.Errorf\<close> values, and wrapping: \<open>Wrapf pre e post\<close> is
  \<open>fmt.Errorf("<pre>%w<post>", e)\<close>.
\<close>

datatype error =
    ErrWalletNotFound
  | ErrInsufficientFunds
  | ErrSameWallet
  | ErrInvalidAmount
  | ErrInvalidIdempotencyKey
  | ErrIdempotencyConflict
  | ErrInvalidStateTransition
  | ErrNotFound
  | ErrIdempotencyExists
  | SqlErrNoRows
  | SqlErrTxDone
  | PgError string string
  | DriverErr string
  | Errorf string
  | Wrapf string error string

text \<open>\<open>errors.Is\<close>: the target is the error itself or somewhere in its chain of wrapped errors.\<close>

fun errors_Is :: "error \<Rightarrow> error \<Rightarrow> bool" where
  "errors_Is (Wrapf pre e post) target \<longleftrightarrow> Wrapf pre e post = target \<or> errors_Is e target"
| "errors_Is e target \<longleftrightarrow> e = target"

text \<open>\<open>errors.As\<close> into a \<open>*pgconn.PgError\<close>: the first Postgres error in the chain.\<close>

fun errors_As_Pg :: "error \<Rightarrow> string option" where
  "errors_As_Pg (PgError code msg) = Some code"
| "errors_As_Pg (Wrapf pre e post) = errors_As_Pg e"
| "errors_As_Pg _ = None"

text \<open>The message that \<open>Error()\<close> returns.\<close>

fun Error :: "error \<Rightarrow> string" where
  "Error ErrWalletNotFound = ''wallet not found''"
| "Error ErrInsufficientFunds = ''insufficient funds''"
| "Error ErrSameWallet = ''from and to wallet must differ''"
| "Error ErrInvalidAmount = ''amount must be positive''"
| "Error ErrInvalidIdempotencyKey = ''idempotency key is required''"
| "Error ErrIdempotencyConflict = ''idempotency key reused with different request body''"
| "Error ErrInvalidStateTransition = ''invalid transfer state transition''"
| "Error ErrNotFound = ''not found''"
| "Error ErrIdempotencyExists = ''idempotency key already exists''"
| "Error SqlErrNoRows = ''sql: no rows in result set''"
| "Error SqlErrTxDone = ''sql: transaction has already been committed or rolled back''"
| "Error (PgError code msg) = ''ERROR: '' @ msg @ '' (SQLSTATE '' @ code @ '')''"
| "Error (DriverErr m) = m"
| "Error (Errorf m) = m"
| "Error (Wrapf pre e post) = pre @ Error e @ post"

section \<open>State machine\<close>

lemma state_distinct [simp]:
  "StatePending \<noteq> StateProcessed" "StatePending \<noteq> StateFailed" "StateProcessed \<noteq> StateFailed"
  "StateProcessed \<noteq> StatePending" "StateFailed \<noteq> StatePending" "StateFailed \<noteq> StateProcessed"
  by (simp_all add: state_defs)

lemma state_nonempty [simp]: "StatePending \<noteq> []" "StateProcessed \<noteq> []" "StateFailed \<noteq> []"
  by (simp_all add: state_defs)

lemma entry_distinct [simp]: "EntryDebit \<noteq> EntryCredit" "EntryCredit \<noteq> EntryDebit"
  by (simp_all add: entry_defs)

lemma Valid_states [simp]: "Valid StatePending" "Valid StateProcessed" "Valid StateFailed"
  by (simp_all add: Valid_def)

lemma errors_Is_refl [simp]: "errors_Is e e"
  by (cases e) auto

lemma errors_Is_Wrapf_sentinel [simp]:
  "errors_Is (Wrapf a e b) ErrIdempotencyExists \<longleftrightarrow> errors_Is e ErrIdempotencyExists"
  "errors_Is (Wrapf a e b) ErrNotFound \<longleftrightarrow> errors_Is e ErrNotFound"
  "errors_Is (Wrapf a e b) SqlErrNoRows \<longleftrightarrow> errors_Is e SqlErrNoRows"
  by simp_all

text \<open>
  The transfer state machine. A run of allowed moves from PENDING visits only recognised
  states, ends after at most one move, and the two terminal states have no move out of them.
\<close>

fun state_path :: "TransferState \<Rightarrow> TransferState list \<Rightarrow> bool" where
  "state_path s [] \<longleftrightarrow> True"
| "state_path s (x # xs) \<longleftrightarrow> CanTransitionTo s x \<and> state_path x xs"

theorem state_machine_shape:
  "state_path StatePending xs \<longleftrightarrow> xs \<in> {[], [StateProcessed], [StateFailed]}"
proof (cases xs)
  case Nil
  then show ?thesis by simp
next
  case (Cons x ys)
  then show ?thesis
    by (cases ys) (auto simp: CanTransitionTo_def)
qed

end
