(* ===== verification/Schema.thy ===== *)
theory Schema
  imports Domain
begin

text \<open>
  The relational store that the migrations under \<open>internal/db/migrations\<close> create, and the SQL
  statements the repositories send to it. A table is the list of its rows in insertion order. An
  \<open>INSERT\<close> or \<open>UPDATE\<close> is checked against the constraints the schema declares, in the
  order Postgres evaluates them: CHECK constraints, then unique indexes, then foreign keys.
  A violated constraint is a \<open>PgError\<close> with its SQLSTATE and leaves every table as it was; a
  value drawn from the \<open>BIGSERIAL\<close> sequence stays drawn.
\<close>

section \<open>Tables\<close>

text \<open>\<open>failure_reason\<close> is the only nullable column.\<close>

record transfer_row =
  rID :: uuid
  rFromWalletID :: string
  rToWalletID :: string
  rAmount :: int64
  rState :: string
  rFailureReason :: "string option"
  rCreatedAt :: time
  rUpdatedAt :: time

record idem_row =
  irKey :: string
  irRequestHash :: string
  irTransferID :: uuid
  irCreatedAt :: time

record db =
  wallets :: "Wallet list"
  transfers :: "transfer_row list"
  ledger_entries :: "LedgerEntry list"
  idempotency_records :: "idem_row list"
  ledger_seq :: nat

definition empty_db :: db where
  "empty_db = \<lparr>wallets = [], transfers = [], ledger_entries = [], idempotency_records = [],
     ledger_seq = 0\<rparr>"

definition wallet_ids :: "db \<Rightarrow> string set" where
  "wallet_ids d = wID ` set (wallets d)"

definition transfer_ids :: "db \<Rightarrow> uuid set" where
  "transfer_ids d = rID ` set (transfers d)"

definition idem_keys :: "db \<Rightarrow> string set" where
  "idem_keys d = irKey ` set (idempotency_records d)"

definition find_wallet :: "string \<Rightarrow> db \<Rightarrow> Wallet option" where
  "find_wallet i d = List.find (\<lambda>w. wID w = i) (wallets d)"

definition find_transfer :: "uuid \<Rightarrow> db \<Rightarrow> transfer_row option" where
  "find_transfer i d = List.find (\<lambda>r. rID r = i) (transfers d)"

definition find_idem :: "string \<Rightarrow> db \<Rightarrow> idem_row option" where
  "find_idem k d = List.find (\<lambda>r. irKey r = k) (idempotency_records d)"

definition entries_of :: "uuid \<Rightarrow> db \<Rightarrow> LedgerEntry list" where
  "entries_of i d = filter (\<lambda>e. eTransferID e = i) (ledger_entries d)"

section \<open>Tables with a key\<close>

text \<open>
  What every table with a primary key offers its readers: a lookup is the first row with the key,
  an appended row is found under its own key and hides no older row, and rows once found stay found
  while the table only grows.
\<close>

locale keyed_table =
  fixes rows_of :: "'d \<Rightarrow> 'r list"
    and key :: "'r \<Rightarrow> 'k"
    and lookup :: "'k \<Rightarrow> 'd \<Rightarrow> 'r option"
  assumes lookup_find: "lookup k d = List.find (\<lambda>r. key r = k) (rows_of d)"
begin

lemma lookup_None: "lookup k d = None \<longleftrightarrow> k \<notin> key ` set (rows_of d)"
  by (simp add: lookup_find find_None_iff_notin)

lemma lookup_SomeD: "lookup k d = Some r \<Longrightarrow> r \<in> set (rows_of d) \<and> key r = k"
  by (auto simp: lookup_find dest: find_SomeD)

lemma lookup_unique: "distinct (map key (rows_of d)) \<Longrightarrow> r \<in> set (rows_of d) \<Longrightarrow> lookup (key r) d = Some r"
  by (simp add: lookup_find find_Some_unique)

lemma lookup_cong: "rows_of d' = rows_of d \<Longrightarrow> lookup k d' = lookup k d"
  by (simp add: lookup_find)

lemma lookup_append:
  "rows_of d' = rows_of d @ rs \<Longrightarrow> lookup k d = Some r \<Longrightarrow> lookup k d' = Some r"
  by (simp add: lookup_find find_append)

lemma lookup_snoc_fresh:
  "rows_of d' = rows_of d @ [r] \<Longrightarrow> key r \<notin> key ` set (rows_of d) \<Longrightarrow> lookup (key r) d' = Some r"
  by (simp add: lookup_find find_append find_None_iff_notin [THEN iffD2])

lemma lookup_snoc_other:
  "rows_of d' = rows_of d @ [r] \<Longrightarrow> key r \<noteq> k \<Longrightarrow> lookup k d' = lookup k d"
  by (simp add: lookup_find find_append split: option.splits)

end

interpretation wallet_tbl: keyed_table wallets wID find_wallet
  by unfold_locales (simp add: find_wallet_def)

interpretation transfer_tbl: keyed_table transfers rID find_transfer
  by unfold_locales (simp add: find_transfer_def)

interpretation idem_tbl: keyed_table idempotency_records irKey find_idem
  by unfold_locales (simp add: find_idem_def)

section \<open>SQLSTATE values\<close>

definition unique_violation :: string where
  "unique_violation = ''23505''"

definition foreign_key_violation :: string where
  "foreign_key_violation = ''23503''"

definition check_violation :: string where
  "check_violation = ''23514''"

definition sequence_limit_exceeded :: string where
  "sequence_limit_exceeded = ''2200H''"

lemmas sqlstate_defs = unique_violation_def foreign_key_violation_def check_violation_def
  sequence_limit_exceeded_def

section \<open>Text parameters\<close>

text \<open>
  Strings are lists of bytes. A \<open>TEXT\<close> parameter that is not valid UTF-8, or that holds a zero byte,
  is refused with SQLSTATE 22021 before the statement runs. The request hash, states, types and
  reasons are ASCII, so only wallet ids and idempotency keys are checked. (A value too long for its
  index is refused as well; how long that is depends on its compression, so such a refusal is a fault
  of the statement, see \<open>Executor\<close>.)
\<close>

definition cont_byte :: "char \<Rightarrow> bool" where
  "cont_byte c \<longleftrightarrow> 0x80 \<le> (of_char c :: nat) \<and> (of_char c :: nat) \<le> 0xBF"

text \<open>The byte after a lead byte: no overlong form, no surrogate, nothing above \<open>U+10FFFF\<close>.\<close>

definition second_byte :: "nat \<Rightarrow> char \<Rightarrow> bool" where
  "second_byte a c \<longleftrightarrow>
     (if a = 0xE0 then 0xA0 else if a = 0xF0 then 0x90 else 0x80) \<le> (of_char c :: nat) \<and>
     (of_char c :: nat) \<le> (if a = 0xED then 0x9F else if a = 0xF4 then 0x8F else 0xBF)"

fun text_ok :: "string \<Rightarrow> bool" where
  "text_ok [] \<longleftrightarrow> True"
| "text_ok (c # s) \<longleftrightarrow>
     (let a = (of_char c :: nat) in
      if a < 0x80 then a \<noteq> 0 \<and> text_ok s
      else if a < 0xC2 then False
      else if a < 0xE0 then (case s of x # t \<Rightarrow> cont_byte x \<and> text_ok t | _ \<Rightarrow> False)
      else if a < 0xF0 then
        (case s of x # y # t \<Rightarrow> second_byte a x \<and> cont_byte y \<and> text_ok t | _ \<Rightarrow> False)
      else if a < 0xF5 then
        (case s of x # y # z # t \<Rightarrow> second_byte a x \<and> cont_byte y \<and> cont_byte z \<and> text_ok t | _ \<Rightarrow> False)
      else False)"

declare text_ok.simps(2) [simp del]

lemma text_ok_ascii [simp]: "(of_char c :: nat) < 0x80 \<Longrightarrow> text_ok (c # s) \<longleftrightarrow> (of_char c :: nat) \<noteq> 0 \<and> text_ok s"
  by (simp add: text_ok.simps(2))

abbreviation invalid_text :: error where
  "invalid_text \<equiv> PgError ''22021'' ''invalid byte sequence for encoding UTF8''"

section \<open>Statements\<close>

text \<open>
  A statement sees the transaction timestamp and the current database. An \<open>UPDATE\<close> returns the
  number of rows it changed, an \<open>INSERT ... RETURNING\<close> the returned columns.
\<close>

type_synonym 'a stmt = "time \<Rightarrow> db \<Rightarrow> (error + 'a) \<times> db"

definition select_wallet :: "string \<Rightarrow> Wallet option stmt" where
  "select_wallet i now d =
     (if \<not> text_ok i then (Inl invalid_text, d) else (Inr (find_wallet i d), d))"

definition insert_wallet :: "string \<Rightarrow> int64 \<Rightarrow> (time \<times> time) stmt" where
  "insert_wallet i bal now d =
     (if \<not> text_ok i then (Inl invalid_text, d)
      else if sint bal < 0 then (Inl (PgError check_violation ''wallets_balance_check''), d)
      else if i \<in> wallet_ids d then (Inl (PgError unique_violation ''wallets_pkey''), d)
      else (Inr (now, now),
            d\<lparr>wallets := wallets d @
               [\<lparr>wID = i, wBalance = bal, wCreatedAt = now, wUpdatedAt = now\<rparr>]\<rparr>))"

definition update_wallet_balance :: "string \<Rightarrow> int64 \<Rightarrow> nat stmt" where
  "update_wallet_balance i bal now d =
     (if \<not> text_ok i then (Inl invalid_text, d)
      else if i \<notin> wallet_ids d then (Inr 0, d)
      else if sint bal < 0 then (Inl (PgError check_violation ''wallets_balance_check''), d)
      else (Inr 1,
            d\<lparr>wallets := map (\<lambda>w. if wID w = i then w\<lparr>wBalance := bal, wUpdatedAt := now\<rparr> else w)
                            (wallets d)\<rparr>))"

definition select_transfer :: "uuid \<Rightarrow> transfer_row option stmt" where
  "select_transfer i now d = (Inr (find_transfer i d), d)"

definition insert_transfer ::
  "uuid \<Rightarrow> string \<Rightarrow> string \<Rightarrow> int64 \<Rightarrow> string \<Rightarrow> (time \<times> time) stmt" where
  "insert_transfer i src dst amt st now d =
     (if \<not> text_ok src \<or> \<not> text_ok dst then (Inl invalid_text, d)
      else if sint amt \<le> 0 then (Inl (PgError check_violation ''transfers_amount_check''), d)
      else if st \<notin> {''PENDING'', ''PROCESSED'', ''FAILED''}
        then (Inl (PgError check_violation ''transfers_state_check''), d)
      else if src = dst then (Inl (PgError check_violation ''transfers_check''), d)
      else if i \<in> transfer_ids d then (Inl (PgError unique_violation ''transfers_pkey''), d)
      else if src \<notin> wallet_ids d
        then (Inl (PgError foreign_key_violation ''transfers_from_wallet_id_fkey''), d)
      else if dst \<notin> wallet_ids d
        then (Inl (PgError foreign_key_violation ''transfers_to_wallet_id_fkey''), d)
      else (Inr (now, now),
            d\<lparr>transfers := transfers d @
               [\<lparr>rID = i, rFromWalletID = src, rToWalletID = dst, rAmount = amt, rState = st,
                 rFailureReason = None, rCreatedAt = now, rUpdatedAt = now\<rparr>]\<rparr>))"

text \<open>\<open>NULLIF(s, '')\<close> and \<open>COALESCE(s, '')\<close>.\<close>

definition nullif_empty :: "string \<Rightarrow> string option" where
  "nullif_empty s = (if s = '''' then None else Some s)"

definition coalesce_empty :: "string option \<Rightarrow> string" where
  "coalesce_empty v = (case v of None \<Rightarrow> '''' | Some s \<Rightarrow> s)"

definition update_transfer_state :: "uuid \<Rightarrow> string \<Rightarrow> string \<Rightarrow> nat stmt" where
  "update_transfer_state i st reason now d =
     (if i \<notin> transfer_ids d then (Inr 0, d)
      else if st \<notin> {''PENDING'', ''PROCESSED'', ''FAILED''}
        then (Inl (PgError check_violation ''transfers_state_check''), d)
      else (Inr 1,
            d\<lparr>transfers := map (\<lambda>r. if rID r = i
                then r\<lparr>rState := st, rFailureReason := nullif_empty reason, rUpdatedAt := now\<rparr>
                else r) (transfers d)\<rparr>))"

text \<open>
  \<open>ORDER BY created_at DESC, id DESC\<close>: insertion into a list already in that order, and
  \<open>LIMIT n\<close>.
\<close>

definition newer_first :: "transfer_row \<Rightarrow> transfer_row \<Rightarrow> bool" where
  "newer_first a b \<longleftrightarrow> rCreatedAt b < rCreatedAt a \<or> (rCreatedAt a = rCreatedAt b \<and> rID b \<le> rID a)"

fun insert_newer :: "transfer_row \<Rightarrow> transfer_row list \<Rightarrow> transfer_row list" where
  "insert_newer r [] = [r]"
| "insert_newer r (x # xs) = (if newer_first r x then r # x # xs else x # insert_newer r xs)"

definition order_newer :: "transfer_row list \<Rightarrow> transfer_row list" where
  "order_newer rs = foldr insert_newer rs []"

definition history_match :: "string \<Rightarrow> time option \<Rightarrow> transfer_row \<Rightarrow> bool" where
  "history_match wid before r \<longleftrightarrow>
     (rFromWalletID r = wid \<or> rToWalletID r = wid) \<and>
     (case before of None \<Rightarrow> True | Some b \<Rightarrow> rCreatedAt r < b)"

text \<open>A negative \<open>LIMIT\<close> is SQLSTATE 2201W.\<close>

definition select_history :: "string \<Rightarrow> time option \<Rightarrow> int \<Rightarrow> transfer_row list stmt" where
  "select_history wid before lim now d =
     (if \<not> text_ok wid then (Inl invalid_text, d)
      else if lim < 0 then (Inl (PgError ''2201W'' ''LIMIT must not be negative''), d)
      else (Inr (take (nat lim) (order_newer (filter (history_match wid before) (transfers d)))), d))"

text \<open>
  \<open>nextval\<close> of the \<open>BIGSERIAL\<close> sequence comes before the constraint checks and is not
  undone when one of them fails.
\<close>

definition insert_ledger :: "uuid \<Rightarrow> string \<Rightarrow> string \<Rightarrow> int64 \<Rightarrow> (int64 \<times> time) stmt" where
  "insert_ledger tid wid ty amt now d0 =
     (if \<not> text_ok wid then (Inl invalid_text, d0)
      else if 2 ^ 63 - 1 \<le> ledger_seq d0
        then (Inl (PgError sequence_limit_exceeded ''ledger_entries_id_seq''), d0)
      else let d = d0\<lparr>ledger_seq := Suc (ledger_seq d0)\<rparr>; i = word_of_nat (ledger_seq d) in
      if ty \<notin> {''DEBIT'', ''CREDIT''}
        then (Inl (PgError check_violation ''ledger_entries_type_check''), d)
      else if sint amt \<le> 0 then (Inl (PgError check_violation ''ledger_entries_amount_check''), d)
      else if i \<in> eID ` set (ledger_entries d)
        then (Inl (PgError unique_violation ''ledger_entries_pkey''), d)
      else if (tid, ty) \<in> (\<lambda>e. (eTransferID e, eType e)) ` set (ledger_entries d)
        then (Inl (PgError unique_violation ''ledger_entries_transfer_id_type_key''), d)
      else if tid \<notin> transfer_ids d
        then (Inl (PgError foreign_key_violation ''ledger_entries_transfer_id_fkey''), d)
      else if wid \<notin> wallet_ids d
        then (Inl (PgError foreign_key_violation ''ledger_entries_wallet_id_fkey''), d)
      else (Inr (i, now),
            d\<lparr>ledger_entries := ledger_entries d @
               [\<lparr>eID = i, eTransferID = tid, eWalletID = wid, eType = ty, eAmount = amt,
                 eCreatedAt = now\<rparr>]\<rparr>))"

text \<open>
  \<open>SELECT ... WHERE transfer_id = $1 ORDER BY id\<close>; \<open>BIGINT\<close> keys are compared as signed
  numbers.
\<close>

definition select_ledger :: "uuid \<Rightarrow> LedgerEntry list stmt" where
  "select_ledger tid now d = (Inr (sort_key (\<lambda>e. sint (eID e)) (entries_of tid d)), d)"

definition select_idem :: "string \<Rightarrow> idem_row option stmt" where
  "select_idem k now d =
     (if \<not> text_ok k then (Inl invalid_text, d) else (Inr (find_idem k d), d))"

definition insert_idem :: "string \<Rightarrow> string \<Rightarrow> uuid \<Rightarrow> unit stmt" where
  "insert_idem k h tid now d =
     (if \<not> text_ok k then (Inl invalid_text, d)
      else if k \<in> idem_keys d then (Inl (PgError unique_violation ''idempotency_records_pkey''), d)
      else if tid \<notin> transfer_ids d
        then (Inl (PgError foreign_key_violation ''idempotency_records_transfer_id_fkey''), d)
      else (Inr (),
            d\<lparr>idempotency_records := idempotency_records d @
               [\<lparr>irKey = k, irRequestHash = h, irTransferID = tid, irCreatedAt = now\<rparr>]\<rparr>))"

lemmas stmt_defs = select_wallet_def insert_wallet_def update_wallet_balance_def
  select_transfer_def insert_transfer_def update_transfer_state_def select_history_def
  insert_ledger_def select_ledger_def select_idem_def insert_idem_def

end
