(* ===== verification/Executor.thy ===== *)
theory Executor
  imports Schema
begin

text \<open>
  What the repositories see of \<open>database/sql\<close>: an \<open>Executor\<close> is the \<open>*sql.DB\<close> handle,
  whose statements commit by themselves, or the open \<open>*sql.Tx\<close>. The state of a running call is
  the \<open>world\<close>:
  \<^item> \<open>disk\<close>, the committed database, and \<open>tx\<close>, the call's own open transaction: the
    database as it sees it, the row locks it holds in the order it took them, its timestamp, and
    whether a failed statement has aborted it;
  \<^item> \<open>faults\<close>, what the driver does with the next statements, \<open>BEGIN\<close>, \<open>COMMIT\<close> and
    \<open>ROLLBACK\<close>: nothing, fail before the server acts (which stands as well for a refusal that no constraint of
    the schema explains: a deadlock, a full disk, a value too long for its index), or fail after
    the server acted (a lost acknowledgement);
  \<^item> \<open>others\<close>, what other sessions commit, and how much time passes, before each statement
    that this call sends outside a transaction and before each \<open>BEGIN\<close>;
  \<^item> the Prometheus collectors of \<open>internal/metrics\<close> that the services write.
  Between \<open>BEGIN\<close> and \<open>COMMIT\<close> the transaction runs on its own: the row locks and the unique
  indexes keep other sessions away from every row it reads or writes.
\<close>

section \<open>State\<close>

datatype Executor = DB | Tx

datatype fault = NoFault | FailBefore string | FailAfter string

record transaction =
  view :: db
  locks :: "string list"
  tx_now :: time
  aborted :: bool

type_synonym env_step = "nat \<times> (db \<Rightarrow> db)"

record world =
  disk :: db
  tx :: "transaction option"
  clock :: time
  faults :: "fault list"
  others :: "env_step list"
  TransfersTotal :: "string \<Rightarrow> nat"
  TransferDuration :: "string \<Rightarrow> nat"

type_synonym 'a go = "(world, error, 'a) op"

section \<open>Interference and faults\<close>

definition interfere :: "world \<Rightarrow> world" where
  "interfere w =
     (case others w of
        [] \<Rightarrow> w
      | (dt, f) # es \<Rightarrow> w\<lparr>clock := clock w + int dt, disk := f (disk w), others := es\<rparr>)"

definition next_fault :: "world \<Rightarrow> fault" where
  "next_fault w = (case faults w of [] \<Rightarrow> NoFault | f # _ \<Rightarrow> f)"

definition drop_fault :: "world \<Rightarrow> world" where
  "drop_fault w = w\<lparr>faults := tl (faults w)\<rparr>"

section \<open>Statements\<close>

definition in_failed_transaction :: error where
  "in_failed_transaction =
     PgError ''25P02'' ''current transaction is aborted, commands ignored until end of transaction block''"

text \<open>A statement on the pool: it runs against the committed state and commits by itself.\<close>

definition stmt_DB :: "'a stmt \<Rightarrow> 'a go" where
  "stmt_DB s w0 =
     (let w = drop_fault (interfere w0) in
      case next_fault (interfere w0) of
        NoFault \<Rightarrow> (case s (clock w) (disk w) of
            (Inl e, d) \<Rightarrow> (Err e, w\<lparr>disk := d\<rparr>)
          | (Inr x, d) \<Rightarrow> (Ok x, w\<lparr>disk := d\<rparr>))
      | FailBefore m \<Rightarrow> (Err (DriverErr m), w)
      | FailAfter m \<Rightarrow> (Err (DriverErr m), w\<lparr>disk := snd (s (clock w) (disk w))\<rparr>))"

text \<open>
  A statement inside the transaction. A failed one aborts it: what it wrote is discarded (a drawn
  sequence value excepted) and later statements are refused.
\<close>

definition stmt_Tx :: "'a stmt \<Rightarrow> 'a go" where
  "stmt_Tx s w0 =
     (case tx w0 of
        None \<Rightarrow> (Err SqlErrTxDone, w0)
      | Some t \<Rightarrow>
          if aborted t then (Err in_failed_transaction, w0)
          else
            (let w = drop_fault w0 in
             case next_fault w0 of
               NoFault \<Rightarrow> (case s (tx_now t) (view t) of
                   (Inl e, d) \<Rightarrow> (Err e, w\<lparr>tx := Some (t\<lparr>view := d, aborted := True\<rparr>)\<rparr>)
                 | (Inr x, d) \<Rightarrow> (Ok x, w\<lparr>tx := Some (t\<lparr>view := d\<rparr>)\<rparr>))
             | FailBefore m \<Rightarrow> (Err (DriverErr m), w\<lparr>tx := Some (t\<lparr>aborted := True\<rparr>)\<rparr>)
             | FailAfter m \<Rightarrow>
                 (Err (DriverErr m),
                  w\<lparr>tx := Some (t\<lparr>view := snd (s (tx_now t) (view t)), aborted := True\<rparr>)\<rparr>)))"

fun exec_stmt :: "Executor \<Rightarrow> 'a stmt \<Rightarrow> 'a go" where
  "exec_stmt DB s w = stmt_DB s w"
| "exec_stmt Tx s w = stmt_Tx s w"

text \<open>
  The row lock of \<open>SELECT ... FOR UPDATE\<close> and of \<open>UPDATE\<close>, held to the end of the
  transaction. A statement on the pool releases its lock when it commits.
\<close>

definition add_lock :: "string \<Rightarrow> transaction \<Rightarrow> transaction" where
  "add_lock i t = (if i \<in> set (locks t) then t else t\<lparr>locks := locks t @ [i]\<rparr>)"

definition lock_row :: "Executor \<Rightarrow> string \<Rightarrow> world \<Rightarrow> world" where
  "lock_row ex i w = (if ex = Tx then w\<lparr>tx := map_option (add_lock i) (tx w)\<rparr> else w)"

lemma add_lock_sel [simp]:
  "view (add_lock i t) = view t" "tx_now (add_lock i t) = tx_now t"
  "aborted (add_lock i t) = aborted t"
  by (simp_all add: add_lock_def)

section \<open>Transaction control\<close>

definition BeginTx :: "unit go" where
  "BeginTx w0 =
     (let w = drop_fault (interfere w0) in
      case next_fault (interfere w0) of
        NoFault \<Rightarrow>
          (Ok (), w\<lparr>tx := Some \<lparr>view = disk w, locks = [], tx_now = clock w, aborted = False\<rparr>\<rparr>)
      | FailBefore m \<Rightarrow> (Err (DriverErr m), w)
      | FailAfter m \<Rightarrow> (Err (DriverErr m), w))"

text \<open>A rollback undoes every write; only the sequence keeps its position.\<close>

definition discard :: "transaction \<Rightarrow> world \<Rightarrow> world" where
  "discard t w = w\<lparr>tx := None, disk := (disk w)\<lparr>ledger_seq := ledger_seq (view t)\<rparr>\<rparr>"

definition Rollback :: "unit go" where
  "Rollback w0 =
     (case tx w0 of
        None \<Rightarrow> (Err SqlErrTxDone, w0)
      | Some t \<Rightarrow>
          (let w = discard t (drop_fault w0) in
           case next_fault w0 of
             NoFault \<Rightarrow> (Ok (), w)
           | FailBefore m \<Rightarrow> (Err (DriverErr m), w)
           | FailAfter m \<Rightarrow> (Err (DriverErr m), w)))"

text \<open>
  \<open>COMMIT\<close> of an aborted transaction rolls back and is reported as an error. A failure before
  the server acts loses the transaction; a failure after it hides a successful commit.
\<close>

definition Commit :: "unit go" where
  "Commit w0 =
     (case tx w0 of
        None \<Rightarrow> (Err SqlErrTxDone, w0)
      | Some t \<Rightarrow>
          (let w = drop_fault w0 in
           if aborted t
           then (Err (DriverErr ''commit unexpectedly resulted in rollback''), discard t w)
           else
             case next_fault w0 of
               NoFault \<Rightarrow> (Ok (), w\<lparr>tx := None, disk := view t\<rparr>)
             | FailBefore m \<Rightarrow> (Err (DriverErr m), discard t w)
             | FailAfter m \<Rightarrow> (Err (DriverErr m), w\<lparr>tx := None, disk := view t\<rparr>)))"

section \<open>What a transaction can change before it commits\<close>

text \<open>
  \<open>seq_only d d'\<close>: the same rows, with the ledger sequence advanced by some draws. This is all
  that an uncommitted transaction leaves behind.
\<close>

definition seq_step :: "nat \<Rightarrow> nat \<Rightarrow> bool" where
  "seq_step m n \<longleftrightarrow> m \<le> n \<and> (m < 2 ^ 63 \<longrightarrow> n < 2 ^ 63)"

definition seq_only :: "db \<Rightarrow> db \<Rightarrow> bool" where
  "seq_only d d' \<longleftrightarrow> (\<exists>n. d' = d\<lparr>ledger_seq := n\<rparr> \<and> seq_step (ledger_seq d) n)"

lemma seq_step_refl [simp]: "seq_step n n"
  by (simp add: seq_step_def)

lemma seq_step_trans: "seq_step a b \<Longrightarrow> seq_step b c \<Longrightarrow> seq_step a c"
  by (auto simp: seq_step_def)

lemma seq_only_refl [simp]: "seq_only d d"
  unfolding seq_only_def by (rule exI [of _ "ledger_seq d"]) simp

lemma seq_onlyD:
  assumes "seq_only d d'"
  shows "wallets d' = wallets d" "transfers d' = transfers d"
    "ledger_entries d' = ledger_entries d" "idempotency_records d' = idempotency_records d"
    "seq_step (ledger_seq d) (ledger_seq d')"
  using assms by (auto simp: seq_only_def)

text \<open>Every statement only moves the sequence forward, and within its range.\<close>

definition seq_forward :: "'a stmt \<Rightarrow> bool" where
  "seq_forward s \<longleftrightarrow> (\<forall>now d. seq_step (ledger_seq d) (ledger_seq (snd (s now d))))"

lemma seq_forward_stmts [simp]:
  "seq_forward (select_wallet i)" "seq_forward (insert_wallet i b)"
  "seq_forward (update_wallet_balance i b)" "seq_forward (select_transfer u)"
  "seq_forward (insert_transfer u x y a st)" "seq_forward (update_transfer_state u st rs)"
  "seq_forward (select_history i bf n)" "seq_forward (insert_ledger u i ty a)"
  "seq_forward (select_ledger u)" "seq_forward (select_idem k)" "seq_forward (insert_idem k h u)"
  by (simp_all add: seq_forward_def seq_step_def stmt_defs Let_def)

text \<open>
  \<open>tx_frame\<close> relates the worlds around any piece of code that runs inside a transaction: only
  the open transaction and the pending faults differ.
\<close>

definition tx_frame :: "world \<Rightarrow> world \<Rightarrow> bool" where
  "tx_frame w w' \<longleftrightarrow>
     disk w' = disk w \<and> clock w' = clock w \<and> others w' = others w \<and>
     TransfersTotal w' = TransfersTotal w \<and> TransferDuration w' = TransferDuration w \<and>
     (faults w = [] \<longrightarrow> faults w' = []) \<and>
     rel_option (\<lambda>a b. seq_step (ledger_seq (view a)) (ledger_seq (view b)) \<and> tx_now b = tx_now a)
       (tx w) (tx w')"

lemma tx_frame_refl [simp]: "tx_frame w w"
  by (simp add: tx_frame_def option.rel_refl)

lemma tx_frame_trans: "tx_frame a b \<Longrightarrow> tx_frame b c \<Longrightarrow> tx_frame a c"
  unfolding tx_frame_def
  by (auto simp: rel_option_iff split: option.splits intro: seq_step_trans)

lemma tx_frameD:
  assumes "tx_frame w w'"
  shows "disk w' = disk w" "clock w' = clock w" "others w' = others w"
    "TransfersTotal w' = TransfersTotal w" "TransferDuration w' = TransferDuration w"
    "tx w = None \<longleftrightarrow> tx w' = None" "faults w = [] \<Longrightarrow> faults w' = []"
  using assms by (auto simp: tx_frame_def rel_option_iff split: option.splits)

lemma tx_frame_SomeD:
  assumes "tx_frame w w'" and "tx w = Some t"
  obtains t' where "tx w' = Some t'" and "seq_step (ledger_seq (view t)) (ledger_seq (view t'))"
    and "tx_now t' = tx_now t"
  using assms by (auto simp: tx_frame_def rel_option_iff split: option.splits)

lemma stmt_Tx_frame: "seq_forward s \<Longrightarrow> keeps tx_frame (stmt_Tx s)"
proof (rule keepsI)
  fix w r w' assume s: "seq_forward s" and "stmt_Tx s w = (r, w')"
  moreover have "seq_step (ledger_seq d) (ledger_seq d')" if "s n d = (y, d')" for n d y d'
    using s that unfolding seq_forward_def by (metis snd_conv)
  ultimately show "tx_frame w w'"
    using s by (auto simp: stmt_Tx_def tx_frame_def drop_fault_def Let_def seq_forward_def
        split: option.splits if_splits fault.splits prod.splits sum.splits)
qed

lemma stmt_Tx_eq_Ok:
  "stmt_Tx s w = (Ok x, w') \<longleftrightarrow>
     (\<exists>t d. tx w = Some t \<and> \<not> aborted t \<and> next_fault w = NoFault \<and>
        s (tx_now t) (view t) = (Inr x, d) \<and> w' = (drop_fault w)\<lparr>tx := Some (t\<lparr>view := d\<rparr>)\<rparr>)"
  by (auto simp: stmt_Tx_def Let_def split: option.splits fault.splits prod.splits sum.splits)

lemma stmt_Tx_no_Panic [simp]: "stmt_Tx s w \<noteq> (Panic p, w')"
  by (auto simp: stmt_Tx_def Let_def split: option.splits fault.splits prod.splits sum.splits)

lemma stmt_DB_no_Panic [simp]: "stmt_DB s w \<noteq> (Panic p, w')"
  by (auto simp: stmt_DB_def Let_def split: fault.splits prod.splits sum.splits)

end
