(* ===== verification/Repository.thy ===== *)
theory Repository
  imports Executor
begin

text \<open>
  Package \<open>internal/repository/postgres\<close>: the four repositories and the \<open>TxManager\<close>. Each
  method takes the \<open>Executor\<close> first, sends one statement and translates its outcome: no row
  becomes \<open>ErrNotFound\<close>, SQLSTATE 23505 on the idempotency table becomes
  \<open>ErrIdempotencyExists\<close>, everything else is wrapped. A Go method that fills in fields of the
  struct it is given returns the filled-in record here.
\<close>

section \<open>Rows and errors\<close>

text \<open>\<open>QueryRowContext(...).Scan(...)\<close>: no row is \<open>sql.ErrNoRows\<close>.\<close>

definition query_row :: "Executor \<Rightarrow> 'a option stmt \<Rightarrow> 'a go" where
  "query_row ex s =
     bind_ok (exec_stmt ex s)
       (\<lambda>row. case row of None \<Rightarrow> return_err SqlErrNoRows | Some x \<Rightarrow> return_ok x)"

definition map_err :: "(error \<Rightarrow> error) \<Rightarrow> 'a go \<Rightarrow> 'a go" where
  "map_err f m w = (case m w of (Err e, w') \<Rightarrow> (Err (f e), w') | r \<Rightarrow> r)"

definition wrap :: "string \<Rightarrow> error \<Rightarrow> error" where
  "wrap pre e = Wrapf (pre @ '': '') e ''''"

definition scan_err :: "string \<Rightarrow> error \<Rightarrow> error" where
  "scan_err what e = (if errors_Is e SqlErrNoRows then ErrNotFound else wrap what e)"

text \<open>
  The end of a \<open>rows.Next()\<close> loop: the connection may fail while rows arrive, and
  \<open>rows.Err()\<close> then reports it unwrapped.
\<close>

definition rows_Err :: "'a \<Rightarrow> 'a go" where
  "rows_Err out w =
     (case next_fault w of
        NoFault \<Rightarrow> (Ok out, drop_fault w)
      | FailBefore m \<Rightarrow> (Err (DriverErr m), drop_fault w)
      | FailAfter m \<Rightarrow> (Err (DriverErr m), drop_fault w))"

section \<open>Wallets\<close>

definition scanWallet :: "Wallet go \<Rightarrow> Wallet go" where
  "scanWallet row = map_err (scan_err ''scan wallet'') row"

definition WalletRepo_Get :: "Executor \<Rightarrow> string \<Rightarrow> Wallet go" where
  "WalletRepo_Get ex i = scanWallet (query_row ex (select_wallet i))"

definition WalletRepo_LockForUpdate :: "Executor \<Rightarrow> string \<Rightarrow> Wallet go" where
  "WalletRepo_LockForUpdate ex i =
     bind_ok (scanWallet (query_row ex (select_wallet i))) (\<lambda>wal w. (Ok wal, lock_row ex i w))"

definition WalletRepo_UpdateBalance :: "Executor \<Rightarrow> string \<Rightarrow> int64 \<Rightarrow> unit go" where
  "WalletRepo_UpdateBalance ex i bal =
     bind_ok (map_err (wrap ''update wallet balance'') (exec_stmt ex (update_wallet_balance i bal)))
       (\<lambda>n w. if n = 0 then (Err ErrNotFound, w) else (Ok (), lock_row ex i w))"

definition WalletRepo_Insert :: "Executor \<Rightarrow> Wallet \<Rightarrow> Wallet go" where
  "WalletRepo_Insert ex wal =
     bind_ok (map_err (wrap ''insert wallet'') (exec_stmt ex (insert_wallet (wID wal) (wBalance wal))))
       (\<lambda>(c, u). return_ok (wal\<lparr>wCreatedAt := c, wUpdatedAt := u\<rparr>))"

section \<open>Transfers\<close>

definition scan_transfer :: "transfer_row \<Rightarrow> Transfer" where
  "scan_transfer r =
     \<lparr>tID = rID r, tFromWalletID = rFromWalletID r, tToWalletID = rToWalletID r,
      tAmount = rAmount r, tState = rState r, tFailureReason = coalesce_empty (rFailureReason r),
      tCreatedAt = rCreatedAt r, tUpdatedAt = rUpdatedAt r\<rparr>"

definition TransferRepo_Get :: "Executor \<Rightarrow> uuid \<Rightarrow> Transfer go" where
  "TransferRepo_Get ex i =
     map_err (scan_err ''scan transfer'')
       (bind_ok (query_row ex (select_transfer i)) (\<lambda>r. return_ok (scan_transfer r)))"

definition TransferRepo_Insert :: "Executor \<Rightarrow> Transfer \<Rightarrow> Transfer go" where
  "TransferRepo_Insert ex t =
     bind_ok (map_err (wrap ''insert transfer'')
               (exec_stmt ex (insert_transfer (tID t) (tFromWalletID t) (tToWalletID t) (tAmount t) (tState t))))
       (\<lambda>(c, u). return_ok (t\<lparr>tCreatedAt := c, tUpdatedAt := u\<rparr>))"

definition TransferRepo_UpdateState :: "Executor \<Rightarrow> uuid \<Rightarrow> TransferState \<Rightarrow> string \<Rightarrow> unit go" where
  "TransferRepo_UpdateState ex i st reason =
     bind_ok (map_err (wrap ''update transfer state'') (exec_stmt ex (update_transfer_state i st reason)))
       (\<lambda>n. if n = 0 then return_err ErrNotFound else return_ok ())"

definition TransferRepo_ListByWallet :: "Executor \<Rightarrow> string \<Rightarrow> int \<Rightarrow> time option \<Rightarrow> Transfer list go" where
  "TransferRepo_ListByWallet ex wid lim before =
     bind_ok (map_err (wrap ''list transfers by wallet'') (exec_stmt ex (select_history wid before lim)))
       (\<lambda>rs. rows_Err (map scan_transfer rs))"

section \<open>Ledger\<close>

definition LedgerRepo_Insert :: "Executor \<Rightarrow> LedgerEntry \<Rightarrow> LedgerEntry go" where
  "LedgerRepo_Insert ex e =
     bind_ok (map_err (wrap ''insert ledger entry'')
               (exec_stmt ex (insert_ledger (eTransferID e) (eWalletID e) (eType e) (eAmount e))))
       (\<lambda>(i, c). return_ok (e\<lparr>eID := i, eCreatedAt := c\<rparr>))"

definition LedgerRepo_ListByTransfer :: "Executor \<Rightarrow> uuid \<Rightarrow> LedgerEntry list go" where
  "LedgerRepo_ListByTransfer ex i =
     bind_ok (map_err (wrap ''list ledger'') (exec_stmt ex (select_ledger i))) rows_Err"

section \<open>Idempotency records\<close>

record IdempotencyRecord =
  ikKey :: string
  ikRequestHash :: string
  ikTransferID :: uuid

definition pgUniqueViolation :: string where
  "pgUniqueViolation = ''23505''"

definition scan_idem :: "idem_row \<Rightarrow> IdempotencyRecord" where
  "scan_idem r = \<lparr>ikKey = irKey r, ikRequestHash = irRequestHash r, ikTransferID = irTransferID r\<rparr>"

definition IdempotencyRepo_Get :: "Executor \<Rightarrow> string \<Rightarrow> IdempotencyRecord go" where
  "IdempotencyRepo_Get ex k =
     map_err (scan_err ''scan idempotency'')
       (bind_ok (query_row ex (select_idem k)) (\<lambda>r. return_ok (scan_idem r)))"

definition idem_insert_err :: "error \<Rightarrow> error" where
  "idem_insert_err e =
     (if errors_As_Pg e = Some pgUniqueViolation then ErrIdempotencyExists
      else wrap ''insert idempotency'' e)"

definition IdempotencyRepo_Insert :: "Executor \<Rightarrow> string \<Rightarrow> string \<Rightarrow> uuid \<Rightarrow> unit go" where
  "IdempotencyRepo_Insert ex k h tid = map_err idem_insert_err (exec_stmt ex (insert_idem k h tid))"

section \<open>Transactions\<close>

text \<open>
  \<open>TxManager.RunInTx\<close>: the deferred closure rolls back and re-panics, rolls back and keeps the
  callback's error, or commits.
\<close>

definition RunInTx :: "'a go \<Rightarrow> 'a go" where
  "RunInTx fn w0 =
     (case BeginTx w0 of
        (Err e, w1) \<Rightarrow> (Err (wrap ''begin tx'' e), w1)
      | (Panic p, w1) \<Rightarrow> (Panic p, w1)
      | (Ok _, w1) \<Rightarrow>
          (case fn w1 of
             (Panic p, w2) \<Rightarrow> (Panic p, snd (Rollback w2))
           | (Err e, w2) \<Rightarrow>
               (case Rollback w2 of
                  (Err rb, w3) \<Rightarrow>
                    (Err (if rb \<noteq> SqlErrTxDone then Wrapf '''' e (''; rollback: '' @ Error rb) else e), w3)
                | (_, w3) \<Rightarrow> (Err e, w3))
           | (Ok x, w2) \<Rightarrow>
               (case Commit w2 of
                  (Err cm, w3) \<Rightarrow> (Err (wrap ''commit'' cm), w3)
                | (_, w3) \<Rightarrow> (Ok x, w3))))"

lemmas repo_defs = WalletRepo_Get_def WalletRepo_LockForUpdate_def WalletRepo_UpdateBalance_def
  WalletRepo_Insert_def TransferRepo_Get_def TransferRepo_Insert_def TransferRepo_UpdateState_def
  TransferRepo_ListByWallet_def LedgerRepo_Insert_def LedgerRepo_ListByTransfer_def
  IdempotencyRepo_Get_def IdempotencyRepo_Insert_def

section \<open>Code inside a transaction\<close>

text \<open>
  \<open>in_tx w t fs\<close> is the world \<open>w\<close> with the open transaction \<open>t\<close> and the pending faults
  \<open>fs\<close>. The rules \<open>tx_ok\<close> say when a repository call inside the transaction succeeds and
  what it leaves; they turn a successful run of a sequence of calls into a conjunction.
\<close>

definition in_tx :: "world \<Rightarrow> transaction \<Rightarrow> fault list \<Rightarrow> world" where
  "in_tx w t fs = w\<lparr>tx := Some t, faults := fs\<rparr>"

definition ok_next :: "fault list \<Rightarrow> bool" where
  "ok_next fs \<longleftrightarrow> fs = [] \<or> hd fs = NoFault"

named_theorems tx_ok \<open>successful repository calls inside a transaction\<close>
named_theorems tx_op_intros \<open>code that stays inside its transaction and does not panic\<close>

lemma in_tx_sel [simp]:
  "tx (in_tx w t fs) = Some t" "faults (in_tx w t fs) = fs" "disk (in_tx w t fs) = disk w"
  "clock (in_tx w t fs) = clock w" "others (in_tx w t fs) = others w"
  "TransfersTotal (in_tx w t fs) = TransfersTotal w"
  "TransferDuration (in_tx w t fs) = TransferDuration w"
  by (simp_all add: in_tx_def)

lemma ok_next_Nil [simp]: "ok_next []"
  by (simp add: ok_next_def)

lemma in_txI: "tx w = Some t \<Longrightarrow> w = in_tx w t (faults w)"
  by (simp add: in_tx_def)

lemma stmt_Tx_in_tx:
  "stmt_Tx s (in_tx w t fs) = (Ok x, w') \<longleftrightarrow>
     \<not> aborted t \<and> ok_next fs \<and>
     (\<exists>d. s (tx_now t) (view t) = (Inr x, d) \<and> w' = in_tx w (t\<lparr>view := d\<rparr>) (tl fs))"
  by (cases fs) (auto simp: stmt_Tx_eq_Ok in_tx_def drop_fault_def next_fault_def ok_next_def)

lemma map_err_eq_Ok: "map_err f m w = (Ok x, w') \<longleftrightarrow> m w = (Ok x, w')"
  by (auto simp: map_err_def split: prod.splits res.splits)

lemma lock_row_in_tx:
  "lock_row Tx i (in_tx w t fs) = in_tx w (add_lock i t) fs"
  by (simp add: lock_row_def in_tx_def)

lemma query_row_in_tx:
  "query_row Tx s (in_tx w t fs) = (Ok x, w') \<longleftrightarrow>
     \<not> aborted t \<and> ok_next fs \<and>
     (\<exists>d. s (tx_now t) (view t) = (Inr (Some x), d) \<and> w' = in_tx w (t\<lparr>view := d\<rparr>) (tl fs))"
  by (auto simp: query_row_def bind_ok_eq_Ok stmt_Tx_in_tx split: option.splits)

lemma view_same [simp]: "t\<lparr>view := view t\<rparr> = t"
  by simp

lemma Get_wallet_tx_ok [tx_ok]:
  "WalletRepo_Get Tx i (in_tx w t fs) = (Ok x, w') \<longleftrightarrow>
     \<not> aborted t \<and> ok_next fs \<and> text_ok i \<and> find_wallet i (view t) = Some x \<and> w' = in_tx w t (tl fs)"
  by (auto simp: WalletRepo_Get_def scanWallet_def map_err_eq_Ok query_row_in_tx select_wallet_def)

lemma LockForUpdate_tx_ok [tx_ok]:
  "WalletRepo_LockForUpdate Tx i (in_tx w t fs) = (Ok x, w') \<longleftrightarrow>
     \<not> aborted t \<and> ok_next fs \<and> text_ok i \<and> find_wallet i (view t) = Some x \<and>
     w' = in_tx w (add_lock i t) (tl fs)"
  by (auto simp: WalletRepo_LockForUpdate_def scanWallet_def bind_ok_eq_Ok map_err_eq_Ok
      query_row_in_tx select_wallet_def lock_row_in_tx)

lemma UpdateBalance_tx_ok [tx_ok]:
  "WalletRepo_UpdateBalance Tx i b (in_tx w t fs) = (Ok x, w') \<longleftrightarrow>
     \<not> aborted t \<and> ok_next fs \<and>
     (\<exists>d. update_wallet_balance i b (tx_now t) (view t) = (Inr 1, d) \<and>
        w' = in_tx w (add_lock i (t\<lparr>view := d\<rparr>)) (tl fs))"
proof -
  have "n = 0 \<or> n = 1" if "update_wallet_balance i b now d0 = (Inr n, d)" for n d now d0
    using that by (auto simp: update_wallet_balance_def split: if_splits)
  then show ?thesis
    by (fastforce simp: WalletRepo_UpdateBalance_def bind_ok_eq_Ok map_err_eq_Ok stmt_Tx_in_tx
        lock_row_in_tx split: if_splits)
qed

lemma Insert_transfer_tx_ok [tx_ok]:
  "TransferRepo_Insert Tx tr (in_tx w t fs) = (Ok x, w') \<longleftrightarrow>
     \<not> aborted t \<and> ok_next fs \<and>
     (\<exists>c u d. insert_transfer (tID tr) (tFromWalletID tr) (tToWalletID tr) (tAmount tr) (tState tr)
              (tx_now t) (view t) = (Inr (c, u), d) \<and>
        x = tr\<lparr>tCreatedAt := c, tUpdatedAt := u\<rparr> \<and> w' = in_tx w (t\<lparr>view := d\<rparr>) (tl fs))"
  by (auto simp: TransferRepo_Insert_def bind_ok_eq_Ok map_err_eq_Ok stmt_Tx_in_tx)

lemma UpdateState_tx_ok [tx_ok]:
  "TransferRepo_UpdateState Tx i st rs (in_tx w t fs) = (Ok x, w') \<longleftrightarrow>
     \<not> aborted t \<and> ok_next fs \<and>
     (\<exists>d. update_transfer_state i st rs (tx_now t) (view t) = (Inr 1, d) \<and>
        w' = in_tx w (t\<lparr>view := d\<rparr>) (tl fs))"
proof -
  have "n = 0 \<or> n = 1" if "update_transfer_state i st rs now d0 = (Inr n, d)" for n d now d0
    using that by (auto simp: update_transfer_state_def split: if_splits)
  then show ?thesis
    by (fastforce simp: TransferRepo_UpdateState_def bind_ok_eq_Ok map_err_eq_Ok stmt_Tx_in_tx
        split: if_splits)
qed

lemma Insert_ledger_tx_ok [tx_ok]:
  "LedgerRepo_Insert Tx e (in_tx w t fs) = (Ok x, w') \<longleftrightarrow>
     \<not> aborted t \<and> ok_next fs \<and>
     (\<exists>i c d. insert_ledger (eTransferID e) (eWalletID e) (eType e) (eAmount e)
              (tx_now t) (view t) = (Inr (i, c), d) \<and>
        x = e\<lparr>eID := i, eCreatedAt := c\<rparr> \<and> w' = in_tx w (t\<lparr>view := d\<rparr>) (tl fs))"
  by (auto simp: LedgerRepo_Insert_def bind_ok_eq_Ok map_err_eq_Ok stmt_Tx_in_tx)

lemma Insert_idem_tx_ok [tx_ok]:
  "IdempotencyRepo_Insert Tx k h u (in_tx w t fs) = (Ok x, w') \<longleftrightarrow>
     \<not> aborted t \<and> ok_next fs \<and>
     (\<exists>d. insert_idem k h u (tx_now t) (view t) = (Inr (), d) \<and>
        w' = in_tx w (t\<lparr>view := d\<rparr>) (tl fs))"
  by (auto simp: IdempotencyRepo_Insert_def map_err_eq_Ok stmt_Tx_in_tx)

section \<open>Frames\<close>

definition tx_op :: "'a go \<Rightarrow> bool" where
  "tx_op m \<longleftrightarrow> keeps tx_frame m \<and> (\<forall>w p w'. m w \<noteq> (Panic p, w'))"

lemma tx_op_return [tx_op_intros]: "tx_op (return_ok x)" "tx_op (return_err e)"
  by (auto simp: tx_op_def keeps_def return_ok_def return_err_def)

lemma tx_op_bind [tx_op_intros]: "tx_op m \<Longrightarrow> (\<And>x. tx_op (k x)) \<Longrightarrow> tx_op (bind_ok m k)"
  unfolding tx_op_def
  by (auto intro!: keeps_bind_ok intro: tx_frame_trans elim: bind_okE)

lemma tx_op_map_err [tx_op_intros]: "tx_op m \<Longrightarrow> tx_op (map_err f m)"
  unfolding tx_op_def keeps_def
  by (auto simp: map_err_def split: prod.splits res.splits) (metis snd_conv)+

lemma tx_op_exec [tx_op_intros]: "seq_forward s \<Longrightarrow> tx_op (exec_stmt Tx s)"
  using stmt_Tx_frame [of s] by (auto simp: tx_op_def keeps_def)

lemma tx_op_lock [tx_op_intros]: "tx_op (\<lambda>w. (Ok x, lock_row ex i w))"
  by (auto simp: tx_op_def keeps_def lock_row_def tx_frame_def option.rel_map option.rel_refl
      intro!: option.rel_refl)

lemma tx_op_if [tx_op_intros]:
  "tx_op a \<Longrightarrow> tx_op b \<Longrightarrow> tx_op (if c then a else b)"
  "tx_op a \<Longrightarrow> tx_op b \<Longrightarrow> tx_op (\<lambda>w. if c then a w else b w)"
  by (cases c; simp)+

lemma tx_op_fail: "tx_op (\<lambda>w. (Err e, w))"
  by (auto simp: tx_op_def keeps_def)

lemma tx_op_query_row [tx_op_intros]: "seq_forward s \<Longrightarrow> tx_op (query_row Tx s)"
  unfolding query_row_def by (auto intro!: tx_op_intros split: option.splits)

lemma tx_op_repos [tx_op_intros]:
  "tx_op (WalletRepo_Get Tx i)" "tx_op (WalletRepo_LockForUpdate Tx i)"
  "tx_op (WalletRepo_UpdateBalance Tx i b)" "tx_op (TransferRepo_Insert Tx tr)"
  "tx_op (TransferRepo_UpdateState Tx u st rs)" "tx_op (LedgerRepo_Insert Tx e)"
  "tx_op (IdempotencyRepo_Insert Tx k h u)"
  unfolding repo_defs scanWallet_def case_prod_beta
  by (auto intro!: tx_op_intros tx_op_fail)

section \<open>Outcomes of RunInTx\<close>

text \<open>The world in which the callback starts.\<close>

definition begun :: "world \<Rightarrow> world" where
  "begun w =
     (let v = interfere w in
      in_tx v \<lparr>view = disk v, locks = [], tx_now = clock v, aborted = False\<rparr> (tl (faults v)))"

definition committed_by :: "'a go \<Rightarrow> world \<Rightarrow> 'a \<Rightarrow> db \<Rightarrow> bool" where
  "committed_by fn w x d \<longleftrightarrow>
     (\<exists>v t. fn (begun w) = (Ok x, v) \<and> tx v = Some t \<and> \<not> aborted t \<and> d = view t)"

lemma interfere_tx [simp]: "tx (interfere w) = tx w"
  by (simp add: interfere_def split: list.splits prod.splits)

lemma interfere_faults [simp]: "faults (interfere w) = faults w"
  by (simp add: interfere_def split: list.splits prod.splits)

lemma BeginTx_cases:
  "BeginTx w = (Ok (), begun w) \<or>
   (\<exists>m v. BeginTx w = (Err (DriverErr m), v) \<and> disk v = disk (interfere w) \<and> tx v = tx w \<and>
      others v = others (interfere w) \<and> clock v = clock (interfere w))"
  by (cases "next_fault (interfere w)")
    (auto simp: BeginTx_def begun_def in_tx_def drop_fault_def Let_def)

lemma drop_fault_sel [simp]:
  "tx (drop_fault w) = tx w" "disk (drop_fault w) = disk w" "clock (drop_fault w) = clock w"
  "others (drop_fault w) = others w" "faults (drop_fault w) = tl (faults w)"
  "TransfersTotal (drop_fault w) = TransfersTotal w"
  "TransferDuration (drop_fault w) = TransferDuration w"
  by (simp_all add: drop_fault_def)

lemma Rollback_cases:
  assumes "tx w = Some t"
  shows "\<exists>r. Rollback w = (r, discard t (drop_fault w)) \<and>
    (r = Ok () \<or> (\<exists>m. r = Err (DriverErr m)))"
  using assms by (cases "next_fault w") (auto simp: Rollback_def Let_def)

lemma Commit_cases:
  assumes "tx w = Some t"
  shows "\<not> aborted t \<and> Commit w = (Ok (), (drop_fault w)\<lparr>tx := None, disk := view t\<rparr>) \<or>
    (\<exists>m. \<not> aborted t \<and> Commit w = (Err (DriverErr m), (drop_fault w)\<lparr>tx := None, disk := view t\<rparr>)) \<or>
    (\<exists>m. Commit w = (Err (DriverErr m), discard t (drop_fault w)))"
  using assms by (cases "next_fault w") (auto simp: Commit_def Let_def)

lemma begun_sel [simp]:
  "disk (begun w) = disk (interfere w)" "clock (begun w) = clock (interfere w)"
  "others (begun w) = others (interfere w)"
  "TransfersTotal (begun w) = TransfersTotal (interfere w)"
  "TransferDuration (begun w) = TransferDuration (interfere w)"
  "tx (begun w) = Some \<lparr>view = disk (interfere w), locks = [], tx_now = clock (interfere w),
     aborted = False\<rparr>"
  by (simp_all add: begun_def Let_def)

lemma seq_only_discard:
  assumes "tx_frame (begun w) v" and "tx v = Some t"
  shows "seq_only (disk (interfere w)) (disk (discard t v))"
proof -
  have "seq_step (ledger_seq (disk (interfere w))) (ledger_seq (view t))"
    using assms by (auto elim!: tx_frame_SomeD [OF _ begun_sel(6)])
  then show ?thesis
    using assms tx_frameD(1) [OF assms(1)] by (auto simp: discard_def seq_only_def)
qed

text \<open>
  The contract of \<open>TxManager\<close> for a callback that stays inside its transaction: success means
  that the callback succeeded and exactly its view is on disk; any other outcome leaves every row
  as it was, unless the commit took effect and only its acknowledgement was lost.
\<close>

definition tx_outcome :: "'a go \<Rightarrow> world \<Rightarrow> (error, 'a) res \<Rightarrow> db \<Rightarrow> bool" where
  "tx_outcome fn w r d \<longleftrightarrow>
     (case r of
        Ok x \<Rightarrow> committed_by fn w x d
      | Err e \<Rightarrow> seq_only (disk (interfere w)) d \<or>
                 ((\<exists>m. e = wrap ''commit'' (DriverErr m)) \<and> (\<exists>x. committed_by fn w x d))
      | Panic p \<Rightarrow> seq_only (disk (interfere w)) d \<and> fst (fn (begun w)) = Panic p)"

definition tx_context :: "world \<Rightarrow> world \<Rightarrow> bool" where
  "tx_context w w' \<longleftrightarrow>
     others w' = others (interfere w) \<and> clock w' = clock (interfere w) \<and>
     (tx w = None \<longrightarrow> tx w' = None)"

lemma RunInTx_outcome:
  assumes fn: "keeps tx_frame fn" and run: "RunInTx fn w = (r, w')"
  shows "tx_outcome fn w r (disk w') \<and> tx_context w w'"
proof (cases "BeginTx w = (Ok (), begun w)")
  case False
  then obtain m v where "BeginTx w = (Err (DriverErr m), v)" "disk v = disk (interfere w)"
    "tx v = tx w" "others v = others (interfere w)" "clock v = clock (interfere w)"
    using BeginTx_cases [of w] by auto
  then show ?thesis
    using run by (auto simp: RunInTx_def tx_outcome_def tx_context_def)
next
  case True
  obtain q v where v: "fn (begun w) = (q, v)" by (metis prod.exhaust)
  then have fr: "tx_frame (begun w) v"
    using fn by (auto dest: keepsD)
  then obtain t where t: "tx v = Some t"
    by (auto elim!: tx_frame_SomeD [OF _ begun_sel(6)])
  note ctx = tx_frameD [OF fr] and so = seq_only_discard [OF fr t]
  show ?thesis
  proof (cases q)
    case (Ok x)
    show ?thesis
      using run True v t Ok ctx so Commit_cases [OF t]
      by (auto simp: RunInTx_def tx_outcome_def tx_context_def committed_by_def discard_def wrap_def)
  next
    case (Err e)
    show ?thesis
      using run True v t Err ctx so Rollback_cases [OF t]
      by (auto simp: RunInTx_def tx_outcome_def tx_context_def discard_def)
  next
    case (Panic p)
    show ?thesis
      using run True v t Panic ctx so Rollback_cases [OF t]
      by (auto simp: RunInTx_def tx_outcome_def tx_context_def discard_def)
  qed
qed

end
