(* ===== verification/Service.thy ===== *)
theory Service
  imports Repository Strconv Sha256
begin

text \<open>
  Package \<open>internal/service\<close>: \<open>TransferService\<close> and \<open>WalletService\<close>, every branch of
  every method. \<open>uuid.New()\<close> is an argument of the call that draws it. The span of \<open>Create\<close> is in
  \<open>Telemetry\<close>; the two Prometheus collectors the service writes are part of the state.
\<close>

section \<open>Requests\<close>

record CreateTransferRequest =
  qIdempotencyKey :: string
  qFromWalletID :: string
  qToWalletID :: string
  qAmount :: int64

definition DefaultTransferListLimit :: int where
  "DefaultTransferListLimit = 50"

definition MaxTransferListLimit :: int where
  "MaxTransferListLimit = 200"

definition Validate :: "CreateTransferRequest \<Rightarrow> error option" where
  "Validate r =
     (if qIdempotencyKey r = '''' then Some ErrInvalidIdempotencyKey
      else if sint (qAmount r) \<le> 0 then Some ErrInvalidAmount
      else if qFromWalletID r = '''' \<or> qToWalletID r = '''' then Some (Errorf ''from/to wallet id is required'')
      else if qFromWalletID r = qToWalletID r then Some ErrSameWallet
      else None)"

text \<open>\<open>fmt.Sprintf("%s|%s|%d", from, to, amount)\<close> and its hex-encoded SHA-256.\<close>

definition hash_input :: "CreateTransferRequest \<Rightarrow> string" where
  "hash_input r = qFromWalletID r @ ''|'' @ qToWalletID r @ ''|'' @ Itoa (sint (qAmount r))"

definition hash :: "CreateTransferRequest \<Rightarrow> string" where
  "hash r = EncodeToString (Sum256 (hash_input r))"

definition orderedPair :: "string \<Rightarrow> string \<Rightarrow> string \<times> string" where
  "orderedPair a b = (if a < b then (a, b) else (b, a))"

section \<open>TransferService\<close>

definition replayIfExists :: "Executor \<Rightarrow> string \<Rightarrow> string \<Rightarrow> Transfer option go" where
  "replayIfExists ex key h w =
     (case IdempotencyRepo_Get ex key w of
        (Panic p, w1) \<Rightarrow> (Panic p, w1)
      | (Err e, w1) \<Rightarrow> if errors_Is e ErrNotFound then (Ok None, w1) else (Err e, w1)
      | (Ok rec, w1) \<Rightarrow>
          if ikRequestHash rec \<noteq> h then (Err ErrIdempotencyConflict, w1)
          else bind_ok (TransferRepo_Get ex (ikTransferID rec)) (\<lambda>t. return_ok (Some t)) w1)"

definition new_transfer :: "uuid \<Rightarrow> CreateTransferRequest \<Rightarrow> Transfer" where
  "new_transfer u req =
     \<lparr>tID = u, tFromWalletID = qFromWalletID req, tToWalletID = qToWalletID req,
      tAmount = qAmount req, tState = StatePending, tFailureReason = '''',
      tCreatedAt = 0, tUpdatedAt = 0\<rparr>"

definition new_entry :: "uuid \<Rightarrow> string \<Rightarrow> EntryType \<Rightarrow> int64 \<Rightarrow> LedgerEntry" where
  "new_entry tid wid ty amt =
     \<lparr>eID = 0, eTransferID = tid, eWalletID = wid, eType = ty, eAmount = amt, eCreatedAt = 0\<rparr>"

text \<open>The committed failure of step 5 and the happy path of step 6, after both rows are claimed.\<close>

definition fail_insufficient :: "Executor \<Rightarrow> Transfer \<Rightarrow> Transfer go" where
  "fail_insufficient ex t =
     bind_ok (TransferRepo_UpdateState ex (tID t) StateFailed ''insufficient funds'')
       (\<lambda>_. return_ok (t\<lparr>tState := StateFailed, tFailureReason := ''insufficient funds''\<rparr>))"

definition move_funds :: "Executor \<Rightarrow> CreateTransferRequest \<Rightarrow> Wallet \<Rightarrow> Wallet \<Rightarrow> Transfer \<Rightarrow> Transfer go" where
  "move_funds ex req src dst t =
     bind_ok (WalletRepo_UpdateBalance ex (wID src) (wBalance src - qAmount req)) (\<lambda>_.
     bind_ok (WalletRepo_UpdateBalance ex (wID dst) (wBalance dst + qAmount req)) (\<lambda>_.
     bind_ok (LedgerRepo_Insert ex (new_entry (tID t) (wID src) EntryDebit (qAmount req))) (\<lambda>_.
     bind_ok (LedgerRepo_Insert ex (new_entry (tID t) (wID dst) EntryCredit (qAmount req))) (\<lambda>_.
     bind_ok (TransferRepo_UpdateState ex (tID t) StateProcessed '''') (\<lambda>_.
     return_ok (t\<lparr>tState := StateProcessed\<rparr>))))))"

definition executeTransfer :: "Executor \<Rightarrow> CreateTransferRequest \<Rightarrow> string \<Rightarrow> uuid \<Rightarrow> Transfer go" where
  "executeTransfer ex req h u =
     (let (firstID, secondID) = orderedPair (qFromWalletID req) (qToWalletID req) in
      bind_ok (WalletRepo_LockForUpdate ex firstID) (\<lambda>_.
      bind_ok (WalletRepo_LockForUpdate ex secondID) (\<lambda>_.
      bind_ok (WalletRepo_Get ex (qFromWalletID req)) (\<lambda>src.
      bind_ok (WalletRepo_Get ex (qToWalletID req)) (\<lambda>dst.
      bind_ok (TransferRepo_Insert ex (new_transfer u req)) (\<lambda>t.
      bind_ok (IdempotencyRepo_Insert ex (qIdempotencyKey req) h (tID t)) (\<lambda>_.
      if sint (wBalance src) < sint (qAmount req) then fail_insufficient ex t
      else move_funds ex req src dst t)))))))"

text \<open>The deferred metrics closure of \<open>Create\<close>.\<close>

definition observe :: "string \<Rightarrow> world \<Rightarrow> world" where
  "observe resultState w =
     (if resultState \<noteq> '''' then
        w\<lparr>TransfersTotal := (TransfersTotal w)(resultState := Suc (TransfersTotal w resultState)),
          TransferDuration := (TransferDuration w)(resultState := Suc (TransferDuration w resultState))\<rparr>
      else w)"

definition TransferService_Create :: "CreateTransferRequest \<Rightarrow> uuid \<Rightarrow> Transfer option go" where
  "TransferService_Create req u w0 =
     (case Validate req of
        Some err \<Rightarrow> (Err err, w0)
      | None \<Rightarrow>
          let h = hash req in
          (case replayIfExists DB (qIdempotencyKey req) h w0 of
             (Panic p, w1) \<Rightarrow> (Panic p, w1)
           | (Err err, w1) \<Rightarrow> (Err err, w1)
           | (Ok (Some t), w1) \<Rightarrow> (Ok (Some t), observe (tState t) w1)
           | (Ok None, w1) \<Rightarrow>
               (case RunInTx (executeTransfer Tx req h u) w1 of
                  (Panic p, w2) \<Rightarrow> (Panic p, w2)
                | (Ok t, w2) \<Rightarrow> (Ok (Some t), observe (tState t) w2)
                | (Err txErr, w2) \<Rightarrow>
                    if errors_Is txErr ErrIdempotencyExists then
                      (case replayIfExists DB (qIdempotencyKey req) h w2 of
                         (Ok (Some t), w3) \<Rightarrow> (Ok (Some t), observe (tState t) w3)
                       | r \<Rightarrow> r)
                    else (Err txErr, w2))))"

definition TransferService_GetTransfer :: "uuid \<Rightarrow> Transfer go" where
  "TransferService_GetTransfer i = TransferRepo_Get DB i"

definition clamp_limit :: "int \<Rightarrow> int" where
  "clamp_limit limit0 =
     (let limit = (if limit0 \<le> 0 then DefaultTransferListLimit else limit0)
      in if limit > MaxTransferListLimit then MaxTransferListLimit else limit)"

definition TransferService_ListTransfersByWallet ::
  "string \<Rightarrow> int \<Rightarrow> time option \<Rightarrow> (Transfer list \<times> time option) go" where
  "TransferService_ListTransfersByWallet walletID limit0 before =
     (if walletID = '''' then return_err ErrWalletNotFound
      else
        let limit = clamp_limit limit0 in
        bind_ok (TransferRepo_ListByWallet DB walletID limit before)
          (\<lambda>rows. return_ok
             (rows, if int (length rows) = limit then Some (tCreatedAt (rows ! (length rows - 1)))
                    else None)))"

section \<open>WalletService\<close>

definition WalletService_Get :: "string \<Rightarrow> Wallet go" where
  "WalletService_Get i = WalletRepo_Get DB i"

definition WalletService_Create :: "string \<Rightarrow> int64 \<Rightarrow> Wallet go" where
  "WalletService_Create i initialBalance =
     (if i = '''' then return_err ErrWalletNotFound
      else if sint initialBalance < 0 then return_err ErrInvalidAmount
      else WalletRepo_Insert DB
             \<lparr>wID = i, wBalance = initialBalance, wCreatedAt = 0, wUpdatedAt = 0\<rparr>)"

end
