(* ===== verification/Books.thy ===== *)
theory Books
  imports Service "HOL-Library.Sublist"
begin

text \<open>
  The invariants of the committed database. \<open>schema_ok\<close> collects the constraints that the
  migrations declare; every statement keeps it. \<open>books_ok\<close> adds what the transfer service
  promises on top: no committed transfer is PENDING, a PROCESSED one has exactly its DEBIT and its
  CREDIT in the ledger, a FAILED one has none, and transfers and idempotency records pair up one to
  one with the hash of the transfer's own parameters. \<open>extends\<close> says that history is append-only.
\<close>

section \<open>Schema constraints\<close>

definition wallets_ok :: "db \<Rightarrow> bool" where
  "wallets_ok d \<longleftrightarrow> distinct (map wID (wallets d)) \<and>
     (\<forall>w\<in>set (wallets d). 0 \<le> sint (wBalance w) \<and> text_ok (wID w))"

definition transfers_ok :: "db \<Rightarrow> bool" where
  "transfers_ok d \<longleftrightarrow> distinct (map rID (transfers d)) \<and>
     (\<forall>r\<in>set (transfers d). 0 < sint (rAmount r) \<and> Valid (rState r) \<and>
        rFromWalletID r \<noteq> rToWalletID r \<and>
        rFromWalletID r \<in> wallet_ids d \<and> rToWalletID r \<in> wallet_ids d)"

definition ledger_ok :: "db \<Rightarrow> bool" where
  "ledger_ok d \<longleftrightarrow> distinct (map eID (ledger_entries d)) \<and>
     distinct (map (\<lambda>e. (eTransferID e, eType e)) (ledger_entries d)) \<and> ledger_seq d < 2 ^ 63 \<and>
     (\<forall>e\<in>set (ledger_entries d). eType e \<in> {EntryDebit, EntryCredit} \<and> 0 < sint (eAmount e) \<and>
        eTransferID e \<in> transfer_ids d \<and> eWalletID e \<in> wallet_ids d \<and> unat (eID e) \<le> ledger_seq d)"

definition idem_ok :: "db \<Rightarrow> bool" where
  "idem_ok d \<longleftrightarrow> distinct (map irKey (idempotency_records d)) \<and>
     (\<forall>r\<in>set (idempotency_records d). irTransferID r \<in> transfer_ids d \<and> text_ok (irKey r))"

definition schema_ok :: "db \<Rightarrow> bool" where
  "schema_ok d \<longleftrightarrow> wallets_ok d \<and> transfers_ok d \<and> ledger_ok d \<and> idem_ok d"

lemmas schema_defs = schema_ok_def wallets_ok_def transfers_ok_def ledger_ok_def idem_ok_def
lemmas id_defs = wallet_ids_def transfer_ids_def idem_keys_def

definition preserves :: "(db \<Rightarrow> bool) \<Rightarrow> 'a stmt \<Rightarrow> bool" where
  "preserves P s \<longleftrightarrow> (\<forall>now d. P d \<longrightarrow> P (snd (s now d)))"

lemma unat_word_of_nat64: "n < 2 ^ 64 \<Longrightarrow> unat (word_of_nat n :: int64) = n"
  by (simp add: unat_of_nat take_bit_nat_eq_self)

lemma unat_next64: "n < 2 ^ 63 \<Longrightarrow> unat (1 + word_of_nat n :: int64) = Suc n"
  using unat_word_of_nat64 [of "Suc n"] by simp

lemma valid_state_set: "s \<in> {''PENDING'', ''PROCESSED'', ''FAILED''} \<longleftrightarrow> Valid s"
  by (auto simp: Valid_def state_defs)

lemma wallet_ids_map: "wallet_ids d = set (map wID (wallets d))"
  by (simp add: wallet_ids_def)

lemma transfer_ids_map: "transfer_ids d = set (map rID (transfers d))"
  by (simp add: transfer_ids_def)

lemma schema_ok_reads:
  "preserves schema_ok (select_wallet i)" "preserves schema_ok (select_transfer u)"
  "preserves schema_ok (select_history i bf n)" "preserves schema_ok (select_ledger u)"
  "preserves schema_ok (select_idem k)"
  by (simp_all add: preserves_def stmt_defs)

lemma schema_ok_insert_wallet: "preserves schema_ok (insert_wallet i b)"
  by (auto simp: preserves_def insert_wallet_def schema_defs id_defs image_iff)

lemma set_balance_ids:
  "map wID (map (\<lambda>x. if wID x = i then x\<lparr>wBalance := b, wUpdatedAt := now\<rparr> else x) xs) = map wID xs"
  by (rule map_update_where) simp

lemma wallet_ids_set_balance:
  assumes "wallets d' = map (\<lambda>x. if wID x = i then x\<lparr>wBalance := b, wUpdatedAt := now\<rparr> else x) (wallets d)"
  shows "wallet_ids d' = wallet_ids d"
  unfolding wallet_ids_map assms set_balance_ids ..

lemma schema_ok_update_wallet: "preserves schema_ok (update_wallet_balance i b)"
proof -
  have ids: "wallet_ids (d\<lparr>wallets := map (\<lambda>x. if wID x = i then x\<lparr>wBalance := b, wUpdatedAt := now\<rparr> else x) (wallets d)\<rparr>) = wallet_ids d"
    for now d by (rule wallet_ids_set_balance [where i = i and b = b and now = now]) simp
  show ?thesis
    unfolding preserves_def update_wallet_balance_def schema_defs
    by (auto simp: ids set_balance_ids transfer_ids_def simp del: map_map)
qed

lemma schema_ok_insert_transfer: "preserves schema_ok (insert_transfer u x y a st)"
  unfolding preserves_def insert_transfer_def valid_state_set
  by (auto simp: schema_defs id_defs)

lemma schema_ok_update_transfer: "preserves schema_ok (update_transfer_state u st rs)"
proof -
  let ?g = "\<lambda>now x. x\<lparr>rState := st, rFailureReason := nullif_empty rs, rUpdatedAt := now\<rparr>"
  have dist: "map rID (map (\<lambda>x. if rID x = u then ?g now x else x) xs) = map rID xs" for now xs
    by (rule map_update_where) simp
  have ids: "transfer_ids (d\<lparr>transfers := map (\<lambda>x. if rID x = u then ?g now x else x) (transfers d)\<rparr>) = transfer_ids d"
    for now d by (simp add: transfer_ids_map dist del: map_map list.set_map)
  show ?thesis
    unfolding preserves_def update_transfer_state_def valid_state_set schema_defs
    by (auto simp: ids dist wallet_ids_def simp del: map_map)
qed

lemma fresh_serial:
  assumes "ledger_ok d" and "n = Suc (ledger_seq d)" and "n < 2 ^ 63"
  shows "word_of_nat n \<notin> eID ` set (ledger_entries d)" and "unat (word_of_nat n :: int64) = n"
proof -
  show u: "unat (word_of_nat n :: int64) = n"
    using assms(3) by (intro unat_word_of_nat64) simp
  show "word_of_nat n \<notin> eID ` set (ledger_entries d)"
    using u assms(1,2) by (fastforce simp: ledger_ok_def)
qed

lemma schema_ok_insert_ledger: "preserves schema_ok (insert_ledger u i ty a)"
proof -
  have "ledger_ok (snd (insert_ledger u i ty a now d))" if "ledger_ok d" for now d
    using that unat_next64 [of "ledger_seq d"]
    by (auto simp: insert_ledger_def Let_def ledger_ok_def id_defs entry_defs le_SucI image_iff
        split: if_splits)
  then show ?thesis
    by (auto simp: preserves_def insert_ledger_def Let_def schema_ok_def wallets_ok_def
        transfers_ok_def idem_ok_def id_defs)
qed

lemma schema_ok_insert_idem: "preserves schema_ok (insert_idem k h u)"
  unfolding preserves_def insert_idem_def
  by (auto simp: schema_defs id_defs)

lemmas schema_ok_stmts = schema_ok_reads schema_ok_insert_wallet schema_ok_update_wallet
  schema_ok_insert_transfer schema_ok_update_transfer schema_ok_insert_ledger schema_ok_insert_idem

lemma schema_ok_seq_only: "schema_ok d \<Longrightarrow> seq_only d d' \<Longrightarrow> schema_ok d'"
  by (auto simp: seq_only_def seq_step_def schema_defs id_defs) (meson order_trans)

end
