(* ===== verification/Transfer_Spec.thy ===== *)
theory Transfer_Spec
  imports Books
begin

text \<open>
  The abstract specification of a transfer and the proof that \<open>executeTransfer\<close> implements it.
  \<open>book\<close> gives the database after a committed transfer in one equation, \<open>can_book\<close> the
  condition under which the service commits one; neither mentions locks, statements or their
  order. The refinement theorem says that the transaction body succeeds only from a state
  where \<open>can_book\<close> holds and that its view is then exactly \<open>book\<close>; the converse gives
  success whenever the driver reports no fault.
\<close>

section \<open>Specification\<close>

definition booked_row :: "CreateTransferRequest \<Rightarrow> uuid \<Rightarrow> time \<Rightarrow> TransferState \<Rightarrow> string option \<Rightarrow> transfer_row" where
  "booked_row req u now st reason =
     \<lparr>rID = u, rFromWalletID = qFromWalletID req, rToWalletID = qToWalletID req,
      rAmount = qAmount req, rState = st, rFailureReason = reason,
      rCreatedAt = now, rUpdatedAt = now\<rparr>"

definition claim_row :: "CreateTransferRequest \<Rightarrow> string \<Rightarrow> uuid \<Rightarrow> time \<Rightarrow> idem_row" where
  "claim_row req h u now =
     \<lparr>irKey = qIdempotencyKey req, irRequestHash = h, irTransferID = u, irCreatedAt = now\<rparr>"

definition booked_entry :: "CreateTransferRequest \<Rightarrow> uuid \<Rightarrow> time \<Rightarrow> nat \<Rightarrow> string \<Rightarrow> EntryType \<Rightarrow> LedgerEntry" where
  "booked_entry req u now n wid ty =
     \<lparr>eID = word_of_nat n, eTransferID = u, eWalletID = wid, eType = ty, eAmount = qAmount req,
      eCreatedAt = now\<rparr>"

definition moved :: "CreateTransferRequest \<Rightarrow> time \<Rightarrow> Wallet \<Rightarrow> Wallet" where
  "moved req now w =
     (if wID w = qFromWalletID req then w\<lparr>wBalance := wBalance w - qAmount req, wUpdatedAt := now\<rparr>
      else if wID w = qToWalletID req then w\<lparr>wBalance := wBalance w + qAmount req, wUpdatedAt := now\<rparr>
      else w)"

definition funded :: "CreateTransferRequest \<Rightarrow> db \<Rightarrow> bool" where
  "funded req d =
     (case find_wallet (qFromWalletID req) d of
        None \<Rightarrow> False
      | Some src \<Rightarrow> sint (qAmount req) \<le> sint (wBalance src))"

definition outcome_row :: "CreateTransferRequest \<Rightarrow> uuid \<Rightarrow> time \<Rightarrow> db \<Rightarrow> transfer_row" where
  "outcome_row req u now d =
     (if funded req d then booked_row req u now StateProcessed None
      else booked_row req u now StateFailed (Some ''insufficient funds''))"

definition book :: "CreateTransferRequest \<Rightarrow> string \<Rightarrow> uuid \<Rightarrow> time \<Rightarrow> db \<Rightarrow> db" where
  "book req h u now d =
     (let d' = d\<lparr>transfers := transfers d @ [outcome_row req u now d],
                idempotency_records := idempotency_records d @ [claim_row req h u now]\<rparr>
      in if funded req d then
           d'\<lparr>wallets := map (moved req now) (wallets d),
              ledger_entries := ledger_entries d @
                [booked_entry req u now (ledger_seq d + 1) (qFromWalletID req) EntryDebit,
                 booked_entry req u now (ledger_seq d + 2) (qToWalletID req) EntryCredit],
              ledger_seq := ledger_seq d + 2\<rparr>
         else d')"

definition has_room :: "CreateTransferRequest \<Rightarrow> db \<Rightarrow> bool" where
  "has_room req d =
     (case find_wallet (qToWalletID req) d of
        None \<Rightarrow> False
      | Some dst \<Rightarrow> sint (wBalance dst) + sint (qAmount req) < 2 ^ 63 \<and> ledger_seq d + 2 < 2 ^ 63)"

definition texts_ok :: "CreateTransferRequest \<Rightarrow> bool" where
  "texts_ok req \<longleftrightarrow>
     text_ok (qFromWalletID req) \<and> text_ok (qToWalletID req) \<and> text_ok (qIdempotencyKey req)"

lemma texts_okD:
  assumes "texts_ok req"
  shows "text_ok (qFromWalletID req)" "text_ok (qToWalletID req)" "text_ok (qIdempotencyKey req)"
    "text_ok (min (qFromWalletID req) (qToWalletID req))" "text_ok (max (qFromWalletID req) (qToWalletID req))"
  using assms by (simp_all add: texts_ok_def min_def max_def)

definition can_book :: "CreateTransferRequest \<Rightarrow> uuid \<Rightarrow> db \<Rightarrow> bool" where
  "can_book req u d \<longleftrightarrow>
     qFromWalletID req \<noteq> qToWalletID req \<and> 0 < sint (qAmount req) \<and>
     qFromWalletID req \<in> wallet_ids d \<and> qToWalletID req \<in> wallet_ids d \<and>
     qIdempotencyKey req \<notin> idem_keys d \<and> u \<notin> transfer_ids d \<and> texts_ok req \<and>
     (funded req d \<longrightarrow> has_room req d)"

section \<open>Lookups\<close>

lemma find_wallet_None_iff: "find_wallet i d = None \<longleftrightarrow> i \<notin> wallet_ids d"
  by (simp add: wallet_tbl.lookup_None wallet_ids_def)

lemmas find_walletD = wallet_tbl.lookup_SomeD

lemma find_wallet_ids: "find_wallet i d = Some w \<Longrightarrow> i \<in> wallet_ids d"
  by (metis find_wallet_None_iff option.simps(3))

lemma find_walletI: "schema_ok d \<Longrightarrow> w \<in> set (wallets d) \<Longrightarrow> find_wallet (wID w) d = Some w"
  by (simp add: wallet_tbl.lookup_unique schema_defs)

section \<open>Effects of the statements of a transfer\<close>

lemma append_fresh_update:
  assumes "k r = u" and "u \<notin> k ` set rs"
  shows "map (\<lambda>x. if k x = u then g x else x) (rs @ [r]) = rs @ [g r]"
  using assms by (auto intro!: map_idI) (metis image_eqI)

lemma balance_updates_moved:
  assumes "schema_ok d" and "a \<noteq> b"
    and "find_wallet a d = Some src" and "find_wallet b d = Some dst"
    and "qFromWalletID req = a" and "qToWalletID req = b"
  shows "map (\<lambda>w. if wID w = b then w\<lparr>wBalance := wBalance dst + qAmount req, wUpdatedAt := now\<rparr> else w)
     (map (\<lambda>w. if wID w = a then w\<lparr>wBalance := wBalance src - qAmount req, wUpdatedAt := now\<rparr> else w) (wallets d))
   = map (moved req now) (wallets d)"
proof -
  have "wBalance w = wBalance src" if "w \<in> set (wallets d)" "wID w = a" for w
    using find_walletI [OF assms(1) that(1)] that(2) assms(3) by simp
  moreover have "wBalance w = wBalance dst" if "w \<in> set (wallets d)" "wID w = b" for w
    using find_walletI [OF assms(1) that(1)] that(2) assms(4) by simp
  ultimately show ?thesis
    using assms(2,5,6) by (auto simp: moved_def)
qed

text \<open>
  The first half of \<open>executeTransfer\<close>, up to the claim of the idempotency key, and its two
  endings, each as an equation on the transaction's view.
\<close>

definition claimed :: "CreateTransferRequest \<Rightarrow> string \<Rightarrow> uuid \<Rightarrow> time \<Rightarrow> db \<Rightarrow> db" where
  "claimed req h u now d =
     d\<lparr>transfers := transfers d @ [booked_row req u now StatePending None],
       idempotency_records := idempotency_records d @ [claim_row req h u now]\<rparr>"

definition pending_transfer :: "CreateTransferRequest \<Rightarrow> uuid \<Rightarrow> time \<Rightarrow> Transfer" where
  "pending_transfer req u now = (new_transfer u req)\<lparr>tCreatedAt := now, tUpdatedAt := now\<rparr>"

lemma pending_transfer_tID [simp]: "tID (pending_transfer req u now) = u"
  by (simp add: pending_transfer_def new_transfer_def)

lemma claimed_sel [simp]:
  "wallets (claimed req h u now d) = wallets d"
  "ledger_entries (claimed req h u now d) = ledger_entries d"
  "ledger_seq (claimed req h u now d) = ledger_seq d"
  "transfer_ids (claimed req h u now d) = insert u (transfer_ids d)"
  "wallet_ids (claimed req h u now d) = wallet_ids d"
  by (simp_all add: claimed_def id_defs booked_row_def)

lemma find_wallet_claimed [simp]: "find_wallet i (claimed req h u now d) = find_wallet i d"
  by (simp add: find_wallet_def)

lemma claim_stmts:
  "(\<exists>c v d1. insert_transfer u (qFromWalletID req) (qToWalletID req) (qAmount req) StatePending now d
        = (Inr (c, v), d1) \<and>
      insert_idem (qIdempotencyKey req) h u now d1 = (Inr (), d2) \<and>
      t = (new_transfer u req)\<lparr>tCreatedAt := c, tUpdatedAt := v\<rparr>) \<longleftrightarrow>
   qFromWalletID req \<noteq> qToWalletID req \<and> 0 < sint (qAmount req) \<and>
   qFromWalletID req \<in> wallet_ids d \<and> qToWalletID req \<in> wallet_ids d \<and>
   qIdempotencyKey req \<notin> idem_keys d \<and> u \<notin> transfer_ids d \<and> texts_ok req \<and>
   d2 = claimed req h u now d \<and> t = pending_transfer req u now"
  unfolding insert_transfer_def insert_idem_def valid_state_set
  by (auto simp: claimed_def pending_transfer_def booked_row_def claim_row_def id_defs texts_ok_def
      split: if_splits)

lemma fail_stmt:
  assumes "u \<notin> transfer_ids d"
  shows "update_transfer_state u StateFailed ''insufficient funds'' now (claimed req h u now d)
    = (Inr 1, d\<lparr>transfers := transfers d @ [booked_row req u now StateFailed (Some ''insufficient funds'')],
                idempotency_records := idempotency_records d @ [claim_row req h u now]\<rparr>)"
  using assms
  unfolding update_transfer_state_def valid_state_set claimed_sel
  by (simp add: claimed_def append_fresh_update booked_row_def transfer_ids_def nullif_empty_def
      del: map_append)

definition paid :: "CreateTransferRequest \<Rightarrow> string \<Rightarrow> uuid \<Rightarrow> time \<Rightarrow> db \<Rightarrow> db" where
  "paid req h u now d = (claimed req h u now d)\<lparr>wallets := map (moved req now) (wallets d)\<rparr>"

lemma moved_wID [simp]: "wID (moved req now w) = wID w"
  by (simp add: moved_def)

lemma paid_sel [simp]:
  "wallets (paid req h u now d) = map (moved req now) (wallets d)"
  "ledger_entries (paid req h u now d) = ledger_entries d"
  "ledger_seq (paid req h u now d) = ledger_seq d"
  "transfer_ids (paid req h u now d) = insert u (transfer_ids d)"
  "wallet_ids (paid req h u now d) = wallet_ids d"
  "transfers (paid req h u now d) = transfers (claimed req h u now d)"
  "idempotency_records (paid req h u now d) = idempotency_records (claimed req h u now d)"
  using claimed_sel(4) [of req h u now d]
  by (simp_all add: paid_def id_defs image_image)

lemma pay_stmts:
  assumes ok: "schema_ok d" and ne: "qFromWalletID req \<noteq> qToWalletID req" and pos: "0 < sint (qAmount req)"
    and src: "find_wallet (qFromWalletID req) d = Some src"
    and dst: "find_wallet (qToWalletID req) d = Some dst"
    and fund: "sint (qAmount req) \<le> sint (wBalance src)" and utf: "texts_ok req"
  shows "(\<exists>d3. update_wallet_balance (qFromWalletID req) (wBalance src - qAmount req) now (claimed req h u now d)
        = (Inr 1, d3) \<and>
      update_wallet_balance (qToWalletID req) (wBalance dst + qAmount req) now d3 = (Inr 1, d4)) \<longleftrightarrow>
    sint (wBalance dst) + sint (qAmount req) < 2 ^ 63 \<and> d4 = paid req h u now d"
proof -
  have "0 \<le> sint (wBalance dst)"
    using ok find_walletD [OF dst] by (auto simp: schema_defs)
  then have room: "\<not> sint (wBalance dst + qAmount req) < 0 \<longleftrightarrow> sint (wBalance dst) + sint (qAmount req) < 2 ^ 63"
    using sint_add_nonneg_iff [of "wBalance dst" "qAmount req"] pos by (simp add: not_less)
  have nonneg: "\<not> sint (wBalance src - qAmount req) < 0"
    using fund pos by (simp add: int64_arith)
  let ?d3 = "(claimed req h u now d)\<lparr>wallets := map (\<lambda>w. if wID w = qFromWalletID req
       then w\<lparr>wBalance := wBalance src - qAmount req, wUpdatedAt := now\<rparr> else w) (wallets d)\<rparr>"
  have "wallet_ids ?d3 = wallet_ids d"
    by (rule wallet_ids_set_balance [where i = "qFromWalletID req" and b = "wBalance src - qAmount req"
          and now = now]) simp
  then show ?thesis
    using balance_updates_moved [OF ok ne src dst refl refl, of now] nonneg room
      find_wallet_ids [OF src] find_wallet_ids [OF dst] utf
    by (auto simp: texts_ok_def update_wallet_balance_def paid_def simp del: map_map)
qed

lemma post_stmts:
  assumes ok: "schema_ok d" and pos: "0 < sint (qAmount req)" and u: "u \<notin> transfer_ids d"
    and src: "qFromWalletID req \<in> wallet_ids d" and dst: "qToWalletID req \<in> wallet_ids d"
    and utf: "texts_ok req"
  shows "(\<exists>i c d5 i' c'. insert_ledger u (qFromWalletID req) EntryDebit (qAmount req) now (paid req h u now d)
        = (Inr (i, c), d5) \<and>
      insert_ledger u (qToWalletID req) EntryCredit (qAmount req) now d5 = (Inr (i', c'), d6)) \<longleftrightarrow>
    ledger_seq d + 2 < 2 ^ 63 \<and>
    d6 = (paid req h u now d)\<lparr>ledger_entries := ledger_entries d @
            [booked_entry req u now (ledger_seq d + 1) (qFromWalletID req) EntryDebit,
             booked_entry req u now (ledger_seq d + 2) (qToWalletID req) EntryCredit],
          ledger_seq := ledger_seq d + 2\<rparr>"
proof -
  let ?n = "ledger_seq d"
  have none: "u \<notin> eTransferID ` set (ledger_entries d)"
    using ok u by (auto simp: schema_defs)
  have fresh: "word_of_nat (Suc ?n) \<notin> eID ` set (ledger_entries d)" if "Suc ?n < 2 ^ 63"
    using fresh_serial(1) [OF _ refl that] ok by (simp add: schema_ok_def)
  have fresh2: "word_of_nat (Suc (Suc ?n)) \<notin> eID ` set (ledger_entries d)"
    and neq: "(word_of_nat (Suc (Suc ?n)) :: int64) \<noteq> word_of_nat (Suc ?n)" if "Suc (Suc ?n) < 2 ^ 63"
    using ok that unat_word_of_nat64 [of "Suc (Suc ?n)"] unat_word_of_nat64 [of "Suc ?n"]
    by (fastforce simp: schema_defs)+
  show ?thesis
    using ok pos u src dst none fresh fresh2 neq utf
    by (auto simp: texts_ok_def insert_ledger_def Let_def entry_defs booked_entry_def image_iff id_defs
        claimed_def booked_row_def split: if_splits)
qed

lemma finish_stmt:
  assumes "u \<notin> transfer_ids d" and "transfers d6 = transfers (claimed req h u now d)"
  shows "update_transfer_state u StateProcessed '''' now d6
    = (Inr 1, d6\<lparr>transfers := transfers d @ [booked_row req u now StateProcessed None]\<rparr>)"
proof -
  have "u \<in> transfer_ids d6"
    using assms(2) by (simp add: transfer_ids_def claimed_def booked_row_def)
  then show ?thesis
    using assms unfolding update_transfer_state_def valid_state_set
    by (simp add: claimed_def append_fresh_update booked_row_def transfer_ids_def nullif_empty_def
        del: map_append)
qed

section \<open>Refinement\<close>

lemma orderedPair_min_max: "orderedPair a b = (min a b, max a b)"
  by (auto simp: orderedPair_def min_def max_def)

text \<open>The transaction \<open>t\<close> after a successful body that left the view \<open>d\<close>.\<close>

definition tx_result :: "world \<Rightarrow> transaction \<Rightarrow> db \<Rightarrow> string list \<Rightarrow> fault list \<Rightarrow> world" where
  "tx_result w t d ls fs =
     in_tx w \<lparr>view = d, locks = ls, tx_now = tx_now t, aborted = False\<rparr> fs"

lemma tx_resultI: "\<not> aborted t \<Longrightarrow> in_tx w (t\<lparr>view := d\<rparr>) fs = tx_result w t d (locks t) fs"
  unfolding tx_result_def by (cases t) simp

text \<open>The driver reports no fault for the next \<open>n\<close> statements.\<close>

primrec calm :: "nat \<Rightarrow> fault list \<Rightarrow> bool" where
  "calm 0 fs \<longleftrightarrow> True"
| "calm (Suc n) fs \<longleftrightarrow> ok_next fs \<and> calm n (tl fs)"

lemma calm_Nil [simp]: "calm n []"
  by (induction n) simp_all

lemma calm_add: "calm (m + n) fs \<longleftrightarrow> calm m fs \<and> calm n (drop m fs)"
  by (induction m arbitrary: fs) (simp_all add: drop_Suc)

lemma fail_insufficient_ok:
  assumes "fail_insufficient Tx (pending_transfer req u now) (in_tx w t fs) = (Ok x, w')"
    and "view t = claimed req h u now d" and "tx_now t = now" and "u \<notin> transfer_ids d"
  shows "x = scan_transfer (booked_row req u now StateFailed (Some ''insufficient funds'')) \<and>
    w' = tx_result w t (d\<lparr>transfers := transfers d @ [booked_row req u now StateFailed (Some ''insufficient funds'')],
        idempotency_records := idempotency_records d @ [claim_row req h u now]\<rparr>) (locks t) (tl fs)"
  using assms fail_stmt [OF assms(4), of now req h]
  by (auto simp: fail_insufficient_def bind_ok_eq_Ok tx_ok pending_transfer_def new_transfer_def
      scan_transfer_def booked_row_def coalesce_empty_def intro: tx_resultI)

lemma move_funds_ok:
  assumes run: "move_funds Tx req src dst (pending_transfer req u now) (in_tx w t fs) = (Ok x, w')"
    and v: "view t = claimed req h u now d" "tx_now t = now"
    and ok: "schema_ok d" "qFromWalletID req \<noteq> qToWalletID req" "0 < sint (qAmount req)"
      "find_wallet (qFromWalletID req) d = Some src" "find_wallet (qToWalletID req) d = Some dst"
      "sint (qAmount req) \<le> sint (wBalance src)" "texts_ok req"
    and u: "u \<notin> transfer_ids d" and ls: "qFromWalletID req \<in> set (locks t)" "qToWalletID req \<in> set (locks t)"
  shows "x = scan_transfer (booked_row req u now StateProcessed None) \<and> has_room req d \<and>
    w' = tx_result w t (book req h u now d) (locks t) (drop 5 fs)"
proof -
  have ids: "wID src = qFromWalletID req" "wID dst = qToWalletID req"
    using find_walletD [OF ok(4)] find_walletD [OF ok(5)] by auto
  from run obtain d3 d4 i c d5 i' c' d6 d7 where
    pay: "update_wallet_balance (qFromWalletID req) (wBalance src - qAmount req) now (claimed req h u now d) = (Inr 1, d3)"
      "update_wallet_balance (qToWalletID req) (wBalance dst + qAmount req) now d3 = (Inr 1, d4)"
    and post: "insert_ledger u (qFromWalletID req) EntryDebit (qAmount req) now d4 = (Inr (i, c), d5)"
      "insert_ledger u (qToWalletID req) EntryCredit (qAmount req) now d5 = (Inr (i', c'), d6)"
    and fin: "update_transfer_state u StateProcessed '''' now d6 = (Inr 1, d7)"
    and x: "x = (pending_transfer req u now)\<lparr>tState := StateProcessed\<rparr>"
    and w': "w' = in_tx w (t\<lparr>view := d7\<rparr>) (drop 5 fs)" and na: "\<not> aborted t"
    using v ids ls
    by (auto simp: move_funds_def bind_ok_eq_Ok tx_ok new_entry_def pending_transfer_def
        new_transfer_def add_lock_def drop_Suc numeral_eq_Suc)
  from pay pay_stmts [OF ok, of now h u d4]
  have room: "sint (wBalance dst) + sint (qAmount req) < 2 ^ 63" and d4: "d4 = paid req h u now d"
    by blast+
  from post post_stmts [OF ok(1,3) u find_wallet_ids [OF ok(4)] find_wallet_ids [OF ok(5)] ok(7), of now h d6] d4
  have seq: "ledger_seq d + 2 < 2 ^ 63" and d6: "d6 = (paid req h u now d)\<lparr>ledger_entries := ledger_entries d @
            [booked_entry req u now (ledger_seq d + 1) (qFromWalletID req) EntryDebit,
             booked_entry req u now (ledger_seq d + 2) (qToWalletID req) EntryCredit],
          ledger_seq := ledger_seq d + 2\<rparr>"
    by blast+
  have "d7 = d6\<lparr>transfers := transfers d @ [booked_row req u now StateProcessed None]\<rparr>"
    using fin finish_stmt [OF u, of d6 req h now] d6 by simp
  then have "d7 = book req h u now d"
    using ok by (simp add: d6 book_def funded_def outcome_row_def paid_def claimed_def)
  then show ?thesis
    using x w' na v room seq ok
    by (auto simp: has_room_def pending_transfer_def new_transfer_def scan_transfer_def
        booked_row_def coalesce_empty_def intro: tx_resultI)
qed

text \<open>
  When \<open>executeTransfer\<close> succeeds inside a transaction whose view satisfies the schema, the
  request was bookable, the returned transfer is the booked row, the transaction's view is exactly
  \<open>book\<close> of the view it started from, and the two wallet rows were locked in ascending order.
\<close>

lemma executeTransfer_ok:
  assumes ok: "schema_ok (view t)" and fresh: "locks t = []"
    and run: "executeTransfer Tx req h u (in_tx w t fs) = (Ok x, w')"
  shows "can_book req u (view t) \<and> x = scan_transfer (outcome_row req u (tx_now t) (view t)) \<and>
    w' = tx_result w t (book req h u (tx_now t) (view t))
      [min (qFromWalletID req) (qToWalletID req), max (qFromWalletID req) (qToWalletID req)]
      (drop (if funded req (view t) then 11 else 7) fs)"
proof -
  let ?d = "view t" and ?now = "tx_now t" and ?a = "qFromWalletID req" and ?b = "qToWalletID req"
  let ?t2 = "add_lock (max ?a ?b) (add_lock (min ?a ?b) t)"
  let ?fs = "drop 6 fs"
  from run obtain src dst c v d1 d2 tr where
    find: "find_wallet ?a ?d = Some src" "find_wallet ?b ?d = Some dst"
    and claim: "insert_transfer u ?a ?b (qAmount req) StatePending ?now ?d = (Inr (c, v), d1)"
      "insert_idem (qIdempotencyKey req) h u ?now d1 = (Inr (), d2)"
      "tr = (new_transfer u req)\<lparr>tCreatedAt := c, tUpdatedAt := v\<rparr>"
    and rest: "(if sint (wBalance src) < sint (qAmount req) then fail_insufficient Tx tr
        else move_funds Tx req src dst tr) (in_tx w (?t2\<lparr>view := d2\<rparr>) ?fs) = (Ok x, w')"
    by (auto simp: executeTransfer_def orderedPair_min_max bind_ok_eq_Ok tx_ok new_transfer_def
        drop_Suc numeral_eq_Suc simp del: if_split_asm)
  from claim claim_stmts [of u req ?now ?d h d2 tr]
  have cb: "?a \<noteq> ?b" "0 < sint (qAmount req)" "?a \<in> wallet_ids ?d" "?b \<in> wallet_ids ?d"
    "qIdempotencyKey req \<notin> idem_keys ?d" "u \<notin> transfer_ids ?d" "texts_ok req"
    and d2: "d2 = claimed req h u ?now ?d" and tr: "tr = pending_transfer req u ?now"
    by blast+
  have ls: "locks ?t2 = [min ?a ?b, max ?a ?b]"
    using fresh cb(1) by (auto simp: add_lock_def min_def max_def)
  show ?thesis
  proof (cases "sint (wBalance src) < sint (qAmount req)")
    case True
    then have nf: "\<not> funded req ?d" using find by (simp add: funded_def)
    with True rest fail_insufficient_ok [of req u ?now w "?t2\<lparr>view := d2\<rparr>" ?fs x w' h ?d]
    show ?thesis
      using d2 tr cb ls
      by (simp add: can_book_def outcome_row_def book_def tx_result_def tl_drop drop_Suc [symmetric])
  next
    case False
    then have f: "funded req ?d" using find by (simp add: funded_def)
    with False rest move_funds_ok [of req src dst u ?now w "?t2\<lparr>view := d2\<rparr>" ?fs x w' h ?d]
    show ?thesis
      using d2 tr cb ls ok find
      by (simp add: can_book_def outcome_row_def tx_result_def min_def max_def)
  qed
qed

text \<open>Conversely, a bookable request succeeds when the driver fails none of its statements.\<close>

lemma fail_insufficient_succeeds:
  assumes "view t = claimed req h u (tx_now t) d" and "\<not> aborted t" and "u \<notin> transfer_ids d"
    and "ok_next fs"
  shows "\<exists>x w'. fail_insufficient Tx (pending_transfer req u (tx_now t)) (in_tx w t fs) = (Ok x, w')"
  using assms fail_stmt [OF assms(3), of "tx_now t" req h]
  by (simp add: fail_insufficient_def bind_ok_eq_Ok tx_ok pending_transfer_def new_transfer_def)

lemma move_funds_succeeds:
  assumes v: "view t = claimed req h u (tx_now t) d" and na: "\<not> aborted t"
    and ok: "schema_ok d" "qFromWalletID req \<noteq> qToWalletID req" "0 < sint (qAmount req)"
      "find_wallet (qFromWalletID req) d = Some src" "find_wallet (qToWalletID req) d = Some dst"
      "sint (qAmount req) \<le> sint (wBalance src)" "texts_ok req"
    and u: "u \<notin> transfer_ids d" and room: "has_room req d" and calm: "calm 5 fs"
  shows "\<exists>x w'. move_funds Tx req src dst (pending_transfer req u (tx_now t)) (in_tx w t fs) = (Ok x, w')"
proof -
  let ?now = "tx_now t"
  have ids: "wID src = qFromWalletID req" "wID dst = qToWalletID req"
    using find_walletD [OF ok(4)] find_walletD [OF ok(5)] by auto
  obtain d3 where pay: "update_wallet_balance (qFromWalletID req) (wBalance src - qAmount req) ?now (view t) = (Inr 1, d3)"
      "update_wallet_balance (qToWalletID req) (wBalance dst + qAmount req) ?now d3 = (Inr 1, paid req h u ?now d)"
    using pay_stmts [OF ok, of ?now h u "paid req h u ?now d"] room ok(5) v by (auto simp: has_room_def)
  define d6 where "d6 = (paid req h u ?now d)\<lparr>ledger_entries := ledger_entries d @
            [booked_entry req u ?now (ledger_seq d + 1) (qFromWalletID req) EntryDebit,
             booked_entry req u ?now (ledger_seq d + 2) (qToWalletID req) EntryCredit],
          ledger_seq := ledger_seq d + 2\<rparr>"
  have tr: "transfers d6 = transfers (claimed req h u ?now d)"
    by (simp add: d6_def)
  have "ledger_seq d + 2 < 2 ^ 63" using room ok(5) by (simp add: has_room_def)
  then obtain i c d5 i' c' where
    post: "insert_ledger u (qFromWalletID req) EntryDebit (qAmount req) ?now (paid req h u ?now d) = (Inr (i, c), d5)"
      "insert_ledger u (qToWalletID req) EntryCredit (qAmount req) ?now d5 = (Inr (i', c'), d6)"
    using post_stmts [OF ok(1,3) u find_wallet_ids [OF ok(4)] find_wallet_ids [OF ok(5)] ok(7), of ?now h d6]
    unfolding d6_def by blast
  show ?thesis
    using pay post finish_stmt [OF u tr] na ids calm
    by (simp add: numeral_eq_Suc move_funds_def bind_ok_eq_Ok tx_ok new_entry_def pending_transfer_def
        new_transfer_def)
qed

lemma executeTransfer_succeeds:
  assumes ok: "schema_ok (view t)" and na: "\<not> aborted t" and cb: "can_book req u (view t)"
    and calm: "calm 11 fs"
  shows "\<exists>x w'. executeTransfer Tx req h u (in_tx w t fs) = (Ok x, w')"
proof -
  let ?d = "view t" and ?now = "tx_now t" and ?a = "qFromWalletID req" and ?b = "qToWalletID req"
  obtain src dst where find: "find_wallet ?a ?d = Some src" "find_wallet ?b ?d = Some dst"
    using cb find_wallet_None_iff by (metis can_book_def option.exhaust)
  then have mm: "\<exists>y. find_wallet (min ?a ?b) ?d = Some y" "\<exists>y. find_wallet (max ?a ?b) ?d = Some y"
    by (simp_all add: min_def max_def)
  obtain c v d1 where claim: "insert_transfer u ?a ?b (qAmount req) StatePending ?now ?d = (Inr (c, v), d1)"
      "insert_idem (qIdempotencyKey req) h u ?now d1 = (Inr (), claimed req h u ?now ?d)"
      "(new_transfer u req)\<lparr>tCreatedAt := c, tUpdatedAt := v\<rparr> = pending_transfer req u ?now"
    using claim_stmts [of u req ?now ?d h "claimed req h u ?now ?d" "pending_transfer req u ?now"] cb
    by (auto simp: can_book_def)
  let ?t = "(add_lock (max ?a ?b) (add_lock (min ?a ?b) t))\<lparr>view := claimed req h u ?now ?d\<rparr>"
  have "calm 5 (drop 6 fs)" and "ok_next (drop 6 fs)"
    using calm calm_add [of 6 5 fs] by (simp_all add: numeral_eq_Suc)
  then have "\<exists>x w'. (if sint (wBalance src) < sint (qAmount req) then fail_insufficient Tx (pending_transfer req u ?now)
     else move_funds Tx req src dst (pending_transfer req u ?now)) (in_tx w ?t (drop 6 fs)) = (Ok x, w')"
    using fail_insufficient_succeeds [of ?t req h u ?d "drop 6 fs" w] move_funds_succeeds [of ?t req h u ?d src dst "drop 6 fs" w]
      cb na ok find
    by (auto simp: can_book_def funded_def)
  then show ?thesis
    using mm find claim na calm cb texts_okD [of req]
    by (auto simp: can_book_def executeTransfer_def orderedPair_min_max bind_ok_eq_Ok tx_ok new_transfer_def
        numeral_eq_Suc drop_Suc)
qed

lemma executeTransfer_tx_op: "tx_op (executeTransfer Tx req h u)"
  unfolding executeTransfer_def orderedPair_min_max fail_insufficient_def move_funds_def Let_def prod.case
  by (intro tx_op_intros)

end
