(* ===== verification/Double_Entry.thy ===== *)
theory Double_Entry
  imports Transfer_Spec
begin

text \<open>
  What the transfer service promises about a committed database beyond the schema: the double-entry
  bookkeeping \<open>books_ok\<close>, the append-only history \<open>extends\<close>, the conservation of money and
  the reconciliation of every balance with the ledger. Each is shown for \<open>book\<close>, the effect of
  one committed transfer.
\<close>

section \<open>Invariants\<close>

definition entry_view :: "LedgerEntry \<Rightarrow> EntryType \<times> string \<times> int64" where
  "entry_view e = (eType e, eWalletID e, eAmount e)"

definition row_settled :: "db \<Rightarrow> transfer_row \<Rightarrow> bool" where
  "row_settled d r \<longleftrightarrow>
     (if rState r = StateProcessed then
        rFailureReason r = None \<and>
        map entry_view (entries_of (rID r) d) =
          [(EntryDebit, rFromWalletID r, rAmount r), (EntryCredit, rToWalletID r, rAmount r)] \<and>
        sorted_wrt (<) (map (\<lambda>e. sint (eID e)) (entries_of (rID r) d))
      else
        rState r = StateFailed \<and> rFailureReason r = Some ''insufficient funds'' \<and>
        entries_of (rID r) d = [])"

definition row_request :: "transfer_row \<Rightarrow> CreateTransferRequest" where
  "row_request r =
     \<lparr>qIdempotencyKey = '''', qFromWalletID = rFromWalletID r, qToWalletID = rToWalletID r,
      qAmount = rAmount r\<rparr>"

definition claims_ok :: "db \<Rightarrow> bool" where
  "claims_ok d \<longleftrightarrow>
     list_all2 (\<lambda>i r. irTransferID i = rID r \<and> irRequestHash i = hash (row_request r))
       (idempotency_records d) (transfers d)"

definition books_ok :: "db \<Rightarrow> bool" where
  "books_ok d \<longleftrightarrow> schema_ok d \<and> list_all (row_settled d) (transfers d) \<and> claims_ok d"

definition extends :: "db \<Rightarrow> db \<Rightarrow> bool" where
  "extends d d' \<longleftrightarrow>
     prefix (map wID (wallets d)) (map wID (wallets d')) \<and> prefix (transfers d) (transfers d') \<and>
     prefix (ledger_entries d) (ledger_entries d') \<and>
     prefix (idempotency_records d) (idempotency_records d') \<and> ledger_seq d \<le> ledger_seq d'"

definition total_balance :: "db \<Rightarrow> int" where
  "total_balance d = sum_list (map (\<lambda>w. sint (wBalance w)) (wallets d))"

definition signed_amount :: "string \<Rightarrow> LedgerEntry \<Rightarrow> int" where
  "signed_amount i e =
     (if eWalletID e \<noteq> i then 0 else if eType e = EntryDebit then - sint (eAmount e) else sint (eAmount e))"

definition net_ledger :: "string \<Rightarrow> db \<Rightarrow> int" where
  "net_ledger i d = sum_list (map (signed_amount i) (ledger_entries d))"

definition opening_balance :: "string \<Rightarrow> db \<Rightarrow> int" where
  "opening_balance i d =
     (case find_wallet i d of None \<Rightarrow> 0 | Some w \<Rightarrow> sint (wBalance w) - net_ledger i d)"

section \<open>Append-only history\<close>

lemma extends_refl [simp]: "extends d d"
  by (simp add: extends_def)

lemma extends_trans: "extends a b \<Longrightarrow> extends b c \<Longrightarrow> extends a c"
  unfolding extends_def by (meson order_trans prefix_order.trans)

lemma extends_seq_only: "seq_only d d' \<Longrightarrow> extends d d'"
  by (auto simp: seq_only_def seq_step_def extends_def)

lemma extends_find:
  assumes "extends d d'"
  shows "find_idem k d = Some i \<Longrightarrow> find_idem k d' = Some i"
    and "find_transfer u d = Some r \<Longrightarrow> find_transfer u d' = Some r"
    and "wallet_ids d \<subseteq> wallet_ids d'"
    and "idem_keys d \<subseteq> idem_keys d'"
    and "transfer_ids d \<subseteq> transfer_ids d'"
  using assms idem_tbl.lookup_append transfer_tbl.lookup_append
  by (auto simp: extends_def prefix_def wallet_ids_map idem_keys_def transfer_ids_def
      simp del: set_map)

lemma book_sel [simp]:
  "transfers (book req h u now d) = transfers d @ [outcome_row req u now d]"
  "idempotency_records (book req h u now d) = idempotency_records d @ [claim_row req h u now]"
  "wallets (book req h u now d) = (if funded req d then map (moved req now) (wallets d) else wallets d)"
  by (simp_all add: book_def Let_def)

lemma extends_book: "extends d (book req h u now d)"
  by (simp add: extends_def book_def Let_def comp_def)

section \<open>A transfer keeps the books\<close>

lemma schema_ok_funded:
  assumes "schema_ok d" and "can_book req u d" and "funded req d" and "w \<in> set (wallets d)"
  shows "sint (wBalance (moved req now w)) = sint (wBalance w)
      + (if wID w = qFromWalletID req then - sint (qAmount req) else 0)
      + (if wID w = qToWalletID req then sint (qAmount req) else 0)"
    and "0 \<le> sint (wBalance (moved req now w))"
proof -
  have w: "find_wallet (wID w) d = Some w" and nn: "0 \<le> sint (wBalance w)"
    using assms(1,4) find_walletI by (auto simp: schema_defs)
  then have "wID w = qFromWalletID req \<Longrightarrow> sint (qAmount req) \<le> sint (wBalance w)"
    and "wID w = qToWalletID req \<Longrightarrow> sint (wBalance w) + sint (qAmount req) < 2 ^ 63"
    using assms(2,3) by (auto simp: can_book_def funded_def has_room_def)
  then show "sint (wBalance (moved req now w)) = sint (wBalance w)
      + (if wID w = qFromWalletID req then - sint (qAmount req) else 0)
      + (if wID w = qToWalletID req then sint (qAmount req) else 0)"
    and "0 \<le> sint (wBalance (moved req now w))"
    using nn assms(2) by (auto simp: moved_def can_book_def int64_arith)
qed

lemma preservesD: "preserves P s \<Longrightarrow> P d \<Longrightarrow> s now d = (r, d') \<Longrightarrow> P d'"
  unfolding preserves_def by (metis snd_conv)

lemma can_book_find:
  assumes "can_book req u d"
  obtains src dst where "find_wallet (qFromWalletID req) d = Some src"
    and "find_wallet (qToWalletID req) d = Some dst"
  using assms find_wallet_None_iff by (metis can_book_def option.exhaust)

lemma schema_ok_claimed:
  assumes "schema_ok d" and "can_book req u d"
  shows "schema_ok (claimed req h u now d)"
proof -
  obtain c v d1 where "insert_transfer u (qFromWalletID req) (qToWalletID req) (qAmount req) StatePending now d
      = (Inr (c, v), d1)"
    and "insert_idem (qIdempotencyKey req) h u now d1 = (Inr (), claimed req h u now d)"
    using claim_stmts [of u req now d h "claimed req h u now d" "pending_transfer req u now"] assms(2)
    unfolding can_book_def by blast
  then show ?thesis
    using assms(1) by (blast intro: preservesD [OF schema_ok_insert_transfer] preservesD [OF schema_ok_insert_idem])
qed

lemma schema_ok_book_funded:
  assumes ok: "schema_ok d" and cb: "can_book req u d" and fd: "funded req d"
  shows "schema_ok (book req h u now d)"
proof -
  let ?a = "qFromWalletID req" and ?b = "qToWalletID req"
  obtain src dst where find: "find_wallet ?a d = Some src" "find_wallet ?b d = Some dst"
    using cb by (rule can_book_find)
  then have c: "?a \<noteq> ?b" "0 < sint (qAmount req)" "u \<notin> transfer_ids d"
    "sint (qAmount req) \<le> sint (wBalance src)" "sint (wBalance dst) + sint (qAmount req) < 2 ^ 63"
    "ledger_seq d + 2 < 2 ^ 63" "texts_ok req"
    using cb fd by (auto simp: can_book_def funded_def has_room_def)
  obtain d3 where pay: "update_wallet_balance ?a (wBalance src - qAmount req) now (claimed req h u now d) = (Inr 1, d3)"
      "update_wallet_balance ?b (wBalance dst + qAmount req) now d3 = (Inr 1, paid req h u now d)"
    using pay_stmts [OF ok c(1,2) find c(4,7), of now h u "paid req h u now d"] c(5) by blast
  define d6 where "d6 = (paid req h u now d)\<lparr>ledger_entries := ledger_entries d @
            [booked_entry req u now (ledger_seq d + 1) ?a EntryDebit,
             booked_entry req u now (ledger_seq d + 2) ?b EntryCredit],
          ledger_seq := ledger_seq d + 2\<rparr>"
  obtain i k d5 i' k' where
    post: "insert_ledger u ?a EntryDebit (qAmount req) now (paid req h u now d) = (Inr (i, k), d5)"
      "insert_ledger u ?b EntryCredit (qAmount req) now d5 = (Inr (i', k'), d6)"
    using post_stmts [OF ok c(2,3) find_wallet_ids [OF find(1)] find_wallet_ids [OF find(2)] c(7), of now h d6] c(6)
    unfolding d6_def by blast
  have fin: "update_transfer_state u StateProcessed '''' now d6
     = (Inr 1, d6\<lparr>transfers := transfers d @ [booked_row req u now StateProcessed None]\<rparr>)"
    by (rule finish_stmt [OF c(3), of _ req h now]) (simp add: d6_def)
  have "schema_ok (paid req h u now d)"
    using schema_ok_claimed [OF ok cb] pay by (blast intro: preservesD [OF schema_ok_update_wallet])
  then have "schema_ok d6"
    using post by (blast intro: preservesD [OF schema_ok_insert_ledger])
  then have "schema_ok (d6\<lparr>transfers := transfers d @ [booked_row req u now StateProcessed None]\<rparr>)"
    using fin by (blast intro: preservesD [OF schema_ok_update_transfer])
  also have "d6\<lparr>transfers := transfers d @ [booked_row req u now StateProcessed None]\<rparr> = book req h u now d"
    using fd by (simp add: d6_def book_def outcome_row_def paid_def claimed_def)
  finally show ?thesis .
qed

theorem schema_ok_book:
  assumes "schema_ok d" and "can_book req u d"
  shows "schema_ok (book req h u now d)"
proof (cases "funded req d")
  case False
  have "schema_ok (d\<lparr>transfers := transfers d @ [booked_row req u now StateFailed (Some ''insufficient funds'')],
                idempotency_records := idempotency_records d @ [claim_row req h u now]\<rparr>)"
    using preservesD [OF schema_ok_update_transfer schema_ok_claimed [OF assms] fail_stmt] assms(2)
    by (simp add: can_book_def)
  then show ?thesis
    using False by (simp add: book_def outcome_row_def)
qed (use assms schema_ok_book_funded in blast)

text \<open>The hash does not look at the idempotency key.\<close>

lemma hash_booked_row: "hash (row_request (booked_row req u now st rs)) = hash req"
  by (simp add: hash_def hash_input_def row_request_def booked_row_def)

lemma entries_of_fresh: "schema_ok d \<Longrightarrow> u \<notin> transfer_ids d \<Longrightarrow> entries_of u d = []"
  by (auto simp: entries_of_def schema_defs filter_empty_conv)

lemma sint_serial: "n < 2 ^ 63 \<Longrightarrow> sint (word_of_nat n :: int64) = int n"
  by (simp add: signed_of_nat signed_take_bit_int_eq_self)

lemma entries_of_book_other:
  "v \<noteq> u \<Longrightarrow> entries_of v (book req h u now d) = entries_of v d"
  by (simp add: entries_of_def book_def Let_def booked_entry_def)

lemma row_settled_book_other: "rID r \<noteq> u \<Longrightarrow> row_settled (book req h u now d) r = row_settled d r"
  by (simp add: row_settled_def entries_of_book_other)

lemma row_settled_book_new:
  assumes "schema_ok d" and "can_book req u d"
  shows "row_settled (book req h u now d) (outcome_row req u now d)"
proof -
  have "entries_of u d = []" and "funded req d \<Longrightarrow> ledger_seq d + 2 < 2 ^ 63"
    using assms entries_of_fresh
    by (auto simp: can_book_def has_room_def split: option.splits)
  then show ?thesis
    using sint_serial [of "ledger_seq d + 1"] sint_serial [of "ledger_seq d + 2"]
    by (auto simp: row_settled_def outcome_row_def booked_row_def book_def entries_of_def
        booked_entry_def entry_view_def)
qed

theorem books_ok_book:
  assumes "books_ok d" and "can_book req u d" and "h = hash req"
  shows "books_ok (book req h u now d)"
proof -
  have "\<forall>r\<in>set (transfers d). rID r \<noteq> u"
    using assms(2) by (auto simp: can_book_def transfer_ids_def)
  then have "list_all (row_settled (book req h u now d)) (transfers (book req h u now d))"
    using assms row_settled_book_new [of d req u h now]
    by (auto simp: books_ok_def list_all_iff row_settled_book_other)
  moreover have "claims_ok (book req h u now d)"
    using assms by (auto simp: books_ok_def claims_ok_def outcome_row_def
        hash_booked_row claim_row_def intro!: list_all2_appendI) (simp_all add: booked_row_def)
  ultimately show ?thesis
    using assms schema_ok_book by (auto simp: books_ok_def)
qed

section \<open>Money\<close>

lemma total_balance_seq_only: "seq_only d d' \<Longrightarrow> total_balance d' = total_balance d"
  by (simp add: total_balance_def seq_onlyD)

text \<open>A transfer moves money between wallets and neither creates nor destroys any.\<close>

theorem total_balance_book:
  assumes ok: "schema_ok d" and cb: "can_book req u d"
  shows "total_balance (book req h u now d) = total_balance d"
proof (cases "funded req d")
  case True
  let ?on = "\<lambda>i c w. if wID w = i then c else 0"
  have dist: "distinct (map wID (wallets d))" and ids: "qFromWalletID req \<in> wID ` set (wallets d)"
    "qToWalletID req \<in> wID ` set (wallets d)"
    using ok cb by (auto simp: schema_defs can_book_def wallet_ids_def)
  have "total_balance (book req h u now d) = sum_list (map (\<lambda>w. sint (wBalance w)
      + ?on (qFromWalletID req) (- sint (qAmount req)) w + ?on (qToWalletID req) (sint (qAmount req)) w) (wallets d))"
    using True schema_ok_funded(1) [OF ok cb True]
    by (simp add: total_balance_def comp_def cong: map_cong)
  also have "\<dots> = total_balance d"
    using sum_list_indicator [OF dist ids(1)] sum_list_indicator [OF dist ids(2)]
    by (simp add: total_balance_def sum_list_addf)
  finally show ?thesis .
qed (simp add: total_balance_def)

lemma find_wallet_moved:
  "List.find (\<lambda>w. wID w = i) (map (moved req now) ws) = map_option (moved req now) (List.find (\<lambda>w. wID w = i) ws)"
  by (induction ws) auto

lemma net_ledger_book:
  "net_ledger i (book req h u now d) = net_ledger i d +
     (if funded req d then (if qFromWalletID req = i then - sint (qAmount req) else 0)
        + (if qToWalletID req = i then sint (qAmount req) else 0) else 0)"
  by (simp add: net_ledger_def book_def Let_def signed_amount_def booked_entry_def)

text \<open>
  Reconciliation: the balance a wallet was opened with, that is its balance less the net of its
  ledger entries, is not changed by any transfer.
\<close>

theorem opening_balance_book:
  assumes ok: "schema_ok d" and cb: "can_book req u d"
  shows "opening_balance i (book req h u now d) = opening_balance i d"
proof (cases "find_wallet i d")
  case None
  then show ?thesis
    by (simp add: opening_balance_def find_wallet_def find_wallet_moved)
next
  case (Some w)
  then have w: "w \<in> set (wallets d)" "wID w = i"
    using find_walletD by auto
  have "find_wallet i (book req h u now d) = Some (if funded req d then moved req now w else w)"
    using Some by (simp add: find_wallet_def find_wallet_moved)
  then show ?thesis
    using Some w schema_ok_funded(1) [OF ok cb _ w(1)]
    by (auto simp: opening_balance_def net_ledger_book)
qed

end
