(* ===== verification/Environment.thy ===== *)
theory Environment
  imports Double_Entry
begin

text \<open>
  The committed database as a transition system. \<open>db_step\<close> is one committed effect of the
  service: sequence draws of a transaction that rolled back, a created wallet, or a booked
  transfer. Every database reached from the empty one satisfies \<open>books_ok\<close>, keeps its history,
  and reconciles. The locale \<open>environment\<close> states what a running call may assume about the
  commits of other sessions; it is interpreted on the reflexive transitive closure of
  \<open>db_step\<close> (any number of other instances of the service) and on \<open>seq_only\<close> (a quiet
  server).
\<close>

section \<open>Committed effects\<close>

definition wallet_row :: "string \<Rightarrow> int64 \<Rightarrow> time \<Rightarrow> Wallet" where
  "wallet_row i b now = \<lparr>wID = i, wBalance = b, wCreatedAt = now, wUpdatedAt = now\<rparr>"

inductive db_step :: "db \<Rightarrow> db \<Rightarrow> bool" where
  drew: "seq_only d d' \<Longrightarrow> db_step d d'"
| opened: "i \<noteq> '''' \<Longrightarrow> text_ok i \<Longrightarrow> 0 \<le> sint b \<Longrightarrow> i \<notin> wallet_ids d \<Longrightarrow>
    db_step d (d\<lparr>wallets := wallets d @ [wallet_row i b now]\<rparr>)"
| booked: "Validate req = None \<Longrightarrow> can_book req u d \<Longrightarrow> db_step d (book req (hash req) u now d)"

inductive_cases db_stepE: "db_step d d'"

abbreviation db_steps :: "db \<Rightarrow> db \<Rightarrow> bool" where
  "db_steps \<equiv> db_step\<^sup>*\<^sup>*"

definition reachable :: "db \<Rightarrow> bool" where
  "reachable d \<longleftrightarrow> db_steps empty_db d"

section \<open>Invariants of the transition system\<close>

lemma books_ok_empty [simp]: "books_ok empty_db"
  by (simp add: books_ok_def claims_ok_def empty_db_def schema_defs)

lemma row_settled_cong:
  "ledger_entries d' = ledger_entries d \<Longrightarrow> row_settled d' r = row_settled d r"
  by (simp add: row_settled_def entries_of_def)

lemma books_ok_seq_only: "books_ok d \<Longrightarrow> seq_only d d' \<Longrightarrow> books_ok d'"
  using schema_ok_seq_only [of d d'] row_settled_cong [of d' d]
  by (auto simp: books_ok_def claims_ok_def list_all_iff seq_onlyD)

lemma books_ok_opened:
  assumes "books_ok d" and "text_ok i" and "0 \<le> sint b" and "i \<notin> wallet_ids d"
  shows "books_ok (d\<lparr>wallets := wallets d @ [wallet_row i b now]\<rparr>)"
proof -
  have "snd (insert_wallet i b now d) = d\<lparr>wallets := wallets d @ [wallet_row i b now]\<rparr>"
    using assms by (simp add: insert_wallet_def wallet_row_def)
  then have "schema_ok (d\<lparr>wallets := wallets d @ [wallet_row i b now]\<rparr>)"
    using assms schema_ok_insert_wallet unfolding preserves_def books_ok_def by metis
  then show ?thesis
    using assms row_settled_cong [of "d\<lparr>wallets := wallets d @ [wallet_row i b now]\<rparr>" d]
    by (simp add: books_ok_def claims_ok_def list_all_iff)
qed

lemma books_ok_step: "db_step d d' \<Longrightarrow> books_ok d \<Longrightarrow> books_ok d'"
  by (cases rule: db_step.cases) (auto intro: books_ok_seq_only books_ok_opened books_ok_book)

lemma books_ok_steps: "db_steps d d' \<Longrightarrow> books_ok d \<Longrightarrow> books_ok d'"
  by (induction rule: rtranclp_induct) (auto intro: books_ok_step)

lemma extends_opened: "extends d (d\<lparr>wallets := wallets d @ ws\<rparr>)"
  by (simp add: extends_def)

lemma extends_step: "db_step d d' \<Longrightarrow> extends d d'"
  by (cases rule: db_step.cases)
    (auto intro: extends_seq_only extends_book extends_opened)

lemma extends_steps: "db_steps d d' \<Longrightarrow> extends d d'"
  by (induction rule: rtranclp_induct) (auto intro: extends_step extends_trans)

lemma opening_balance_step:
  assumes "db_step d d'" and "books_ok d" and "i \<in> wallet_ids d"
  shows "opening_balance i d' = opening_balance i d"
  using assms(1)
proof cases
  case drew
  then show ?thesis
    by (simp add: opening_balance_def net_ledger_def find_wallet_def seq_onlyD split: option.splits)
next
  case (opened j b now)
  then have "find_wallet i d' = find_wallet i d"
    using assms(3) wallet_tbl.lookup_snoc_other [of d' d "wallet_row j b now" i]
    by (auto simp: wallet_row_def)
  then show ?thesis
    using opened by (simp add: opening_balance_def net_ledger_def split: option.splits)
next
  case (booked req u now)
  then show ?thesis
    using assms(2) opening_balance_book by (simp add: books_ok_def)
qed

lemma opening_balance_steps:
  assumes "db_steps d d'" and "books_ok d" and "i \<in> wallet_ids d"
  shows "opening_balance i d' = opening_balance i d"
  using assms(1)
proof (induction rule: rtranclp_induct)
  case (step y z)
  then have "books_ok y" and "i \<in> wallet_ids y"
    using assms books_ok_steps extends_find(3) [OF extends_steps] by blast+
  then show ?case
    using step opening_balance_step by metis
qed simp

section \<open>The trial balance\<close>

definition entry_sign :: "LedgerEntry \<Rightarrow> int" where
  "entry_sign e = (if eType e = EntryDebit then - sint (eAmount e) else sint (eAmount e))"

definition trial_balance :: "db \<Rightarrow> int" where
  "trial_balance d = sum_list (map entry_sign (ledger_entries d))"

lemma trial_balance_step: "db_step d d' \<Longrightarrow> trial_balance d' = trial_balance d"
  by (cases rule: db_step.cases)
    (auto simp: trial_balance_def seq_onlyD book_def Let_def booked_entry_def entry_sign_def)

lemma trial_balance_steps: "db_steps d d' \<Longrightarrow> trial_balance d' = trial_balance d"
  by (induction rule: rtranclp_induct) (auto dest: trial_balance_step)

section \<open>What a call assumes of the others\<close>

text \<open>
  \<open>R d d'\<close>: what may happen to the committed database while a call is not inside its own
  transaction. A rolled-back transaction of the call itself counts as such a change.
\<close>

locale environment =
  fixes R :: "db \<Rightarrow> db \<Rightarrow> bool"
  assumes R_trans: "R a b \<Longrightarrow> R b c \<Longrightarrow> R a c"
    and R_seq: "seq_only d d' \<Longrightarrow> R d d'"
    and R_books: "R d d' \<Longrightarrow> books_ok d \<Longrightarrow> books_ok d'"
    and R_extends: "R d d' \<Longrightarrow> extends d d'"
begin

lemma R_refl: "R d d"
  by (simp add: R_seq)

lemma R_keeps_key: "R d d' \<Longrightarrow> k \<in> idem_keys d \<Longrightarrow> k \<in> idem_keys d'"
  using R_extends extends_find(4) by blast

lemma R_keeps_claim: "R d d' \<Longrightarrow> find_idem k d = Some i \<Longrightarrow> find_idem k d' = Some i"
  using R_extends extends_find(1) by blast

lemma R_keeps_transfer: "R d d' \<Longrightarrow> find_transfer u d = Some r \<Longrightarrow> find_transfer u d' = Some r"
  using R_extends extends_find(2) by blast

end

lemma seq_only_trans:
  assumes "seq_only a b" and "seq_only b c"
  shows "seq_only a c"
proof -
  obtain n where "c = a\<lparr>ledger_seq := n\<rparr>" and "seq_step (ledger_seq a) n"
    using assms by (auto simp: seq_only_def dest: seq_step_trans)
  then show ?thesis by (auto simp: seq_only_def)
qed

interpretation quiet: environment seq_only
  by unfold_locales (auto intro: seq_only_trans books_ok_seq_only extends_seq_only)

interpretation service: environment db_steps
  by unfold_locales (auto intro: rtranclp_trans drew books_ok_steps extends_steps)

text \<open>
  \<open>rely R w\<close>: every pending step of another session, taken where the invariant holds, is an \<open>R\<close> step.
\<close>

definition allowed :: "(db \<Rightarrow> db \<Rightarrow> bool) \<Rightarrow> env_step list \<Rightarrow> bool" where
  "allowed R es \<longleftrightarrow> (\<forall>(dt, f)\<in>set es. \<forall>d. books_ok d \<longrightarrow> R d (f d))"

definition rely :: "(db \<Rightarrow> db \<Rightarrow> bool) \<Rightarrow> world \<Rightarrow> bool" where
  "rely R w \<longleftrightarrow> allowed R (others w)"

lemma rely_Nil [simp]: "others w = [] \<Longrightarrow> rely R w"
  by (simp add: rely_def allowed_def)

lemma rely_tl: "others w' = others (interfere w) \<Longrightarrow> rely R w \<Longrightarrow> rely R w'"
  by (auto simp: rely_def allowed_def interfere_def split: list.splits)

section \<open>What the others did\<close>

text \<open>
  \<open>meanwhile es d d'\<close>: exactly the steps \<open>es\<close> of other sessions, each once and in this order, with
  draws from the sequence in between, lead from \<open>d\<close> to \<open>d'\<close>. \<open>passed w v d\<close>: \<open>d\<close> is what those steps
  that are pending in \<open>w\<close> and no longer pending in \<open>v\<close> make of the database of \<open>w\<close>.
\<close>

fun meanwhile :: "env_step list \<Rightarrow> db \<Rightarrow> db \<Rightarrow> bool" where
  "meanwhile [] d d' \<longleftrightarrow> seq_only d d'"
| "meanwhile (e # es) d d' \<longleftrightarrow> (\<exists>d1. seq_only d d1 \<and> meanwhile es (snd e d1) d')"

definition passed :: "world \<Rightarrow> world \<Rightarrow> db \<Rightarrow> bool" where
  "passed w v d \<longleftrightarrow> (\<exists>es. others w = es @ others v \<and> meanwhile es (disk w) d)"

lemma meanwhile_seq_first: "seq_only a b \<Longrightarrow> meanwhile es b c \<Longrightarrow> meanwhile es a c"
  by (cases es) (auto intro: seq_only_trans)

lemma meanwhile_append: "meanwhile es a b \<Longrightarrow> meanwhile fs b c \<Longrightarrow> meanwhile (es @ fs) a c"
  by (induction es arbitrary: a) (auto intro: meanwhile_seq_first)

lemma passed_trans: "passed w v (disk v) \<Longrightarrow> passed v x d \<Longrightarrow> passed w x d"
  by (force simp: passed_def intro: meanwhile_append)

lemma passed_seq: "passed w v d \<Longrightarrow> seq_only d d' \<Longrightarrow> passed w v d'"
  using meanwhile_append [of _ "disk w" d "[]" d'] by (auto simp: passed_def)

lemma passed_cong: "others v' = others v \<Longrightarrow> passed w v' = passed w v"
  by (simp add: passed_def fun_eq_iff)

lemma passed_refl: "passed w w (disk w)"
  by (simp add: passed_def)

lemma passed_interfere: "passed w (interfere w) (disk (interfere w))"
  by (cases "others w") (auto simp: passed_def interfere_def intro!: exI [of _ "[hd (others w)]"] exI [of _ "disk w"])

context environment
begin

lemma meanwhile_R: "allowed R es \<Longrightarrow> books_ok d \<Longrightarrow> meanwhile es d d' \<Longrightarrow> R d d'"
proof (induction es arbitrary: d)
  case (Cons e es)
  then obtain d1 where d1: "seq_only d d1" "meanwhile es (snd e d1) d'" by auto
  then have ok: "books_ok d1" using Cons.prems(2) R_books R_seq by blast
  then have "R d1 (snd e d1)" using Cons.prems(1) by (cases e) (auto simp: allowed_def)
  moreover from this have "R (snd e d1) d'"
    using Cons.IH [OF _ R_books [OF _ ok] d1(2)] Cons.prems(1) by (auto simp: allowed_def)
  ultimately show ?case using R_seq [OF d1(1)] R_trans by blast
qed (simp add: R_seq)

lemma passed_R: "rely R w \<Longrightarrow> books_ok (disk w) \<Longrightarrow> passed w v d \<Longrightarrow> R (disk w) d"
proof -
  assume rely: "rely R w" "books_ok (disk w)" and "passed w v d"
  then obtain es where es: "others w = es @ others v" "meanwhile es (disk w) d"
    by (auto simp: passed_def)
  then have "allowed R es" using rely(1) by (auto simp: rely_def allowed_def)
  then show "R (disk w) d" using meanwhile_R rely(2) es(2) by blast
qed

lemma R_interfere: "rely R w \<Longrightarrow> books_ok (disk w) \<Longrightarrow> R (disk w) (disk (interfere w))"
  by (rule passed_R [OF _ _ passed_interfere])

end

end
