(* ===== verification/Create_Refinement.thy ===== *)
theory Create_Refinement
  imports Environment
begin

text \<open>
  \<open>TransferService.Create\<close> against its contract. \<open>create_spec R\<close> lists what a call may
  do to the committed database and return, with \<open>R\<close> for what other sessions do meanwhile;
  the refinement is proved once in the locale \<open>environment\<close>, for every placement of driver
  faults.
\<close>

section \<open>Reads outside a transaction\<close>

definition read_step :: "world \<Rightarrow> world \<Rightarrow> bool" where
  "read_step w w' \<longleftrightarrow> disk w' = disk (interfere w) \<and> others w' = others (interfere w) \<and> tx w' = tx w"

lemma query_row_DB_read:
  assumes "\<And>now d. s now d = (if \<not> P then (Inl invalid_text, d) else (Inr (g d), d))" and "query_row DB s w = (r, w')"
  shows "read_step w w' \<and>
    (case r of Ok x \<Rightarrow> P \<and> g (disk w') = Some x
     | Err e \<Rightarrow> e = SqlErrNoRows \<and> g (disk w') = None \<or> e = invalid_text \<and> \<not> P \<or> (\<exists>m. e = DriverErr m)
     | Panic p \<Rightarrow> False)"
  using assms(2)
  by (cases P) (auto simp: query_row_def bind_ok_def stmt_DB_def assms(1) read_step_def Let_def
      return_ok_def return_err_def split: fault.splits option.splits)

text \<open>The error of a read that the driver failed.\<close>

definition read_failure :: "error \<Rightarrow> bool" where
  "read_failure e \<longleftrightarrow> (\<exists>what m. e = wrap what (DriverErr m))"

lemma read_failureI [simp]: "read_failure (wrap what (DriverErr m))"
  by (auto simp: read_failure_def)

text \<open>A read also fails when the server refuses its text parameter.\<close>

definition read_error :: "error \<Rightarrow> bool" where
  "read_error e \<longleftrightarrow> read_failure e \<or> (\<exists>what. e = wrap what invalid_text)"

lemma read_errorI [simp]: "read_error (wrap what (DriverErr m))" "read_error (wrap what invalid_text)"
  by (auto simp: read_error_def)

lemma scan_err_cases:
  "scan_err what SqlErrNoRows = ErrNotFound" "scan_err what (DriverErr m) = wrap what (DriverErr m)"
  "scan_err what (PgError c m) = wrap what (PgError c m)"
  by (simp_all add: scan_err_def)

lemma IdempotencyRepo_Get_DB:
  assumes "IdempotencyRepo_Get DB k w = (r, w')"
  shows "read_step w w' \<and>
    (case r of Ok rec \<Rightarrow> text_ok k \<and> (\<exists>i. find_idem k (disk w') = Some i \<and> rec = scan_idem i)
     | Err e \<Rightarrow> e = ErrNotFound \<and> find_idem k (disk w') = None \<or> read_error e
     | Panic p \<Rightarrow> False)"
proof -
  obtain q v where q: "query_row DB (select_idem k) w = (q, v)" by (metis prod.exhaust)
  show ?thesis
    using query_row_DB_read [OF select_idem_def q] assms q
    by (cases q) (auto simp: IdempotencyRepo_Get_def map_err_def bind_ok_def return_ok_def
        scan_err_cases)
qed

lemma TransferRepo_Get_DB:
  assumes "TransferRepo_Get DB u w = (r, w')"
  shows "read_step w w' \<and>
    (case r of Ok t \<Rightarrow> \<exists>row. find_transfer u (disk w') = Some row \<and> t = scan_transfer row
     | Err e \<Rightarrow> e = ErrNotFound \<and> find_transfer u (disk w') = None \<or> read_error e
     | Panic p \<Rightarrow> False)"
proof -
  obtain q v where q: "query_row DB (select_transfer u) w = (q, v)" by (metis prod.exhaust)
  show ?thesis
    using query_row_DB_read [where P = True and g = "find_transfer u", OF _ q] assms q select_transfer_def
    by (cases q) (auto simp: TransferRepo_Get_def map_err_def bind_ok_def return_ok_def
        scan_err_cases)
qed

lemma read_error_not:
  assumes "read_error e"
  shows "\<not> errors_Is e ErrNotFound" "e \<noteq> ErrIdempotencyConflict"
    "\<not> errors_Is e ErrIdempotencyConflict" "\<not> errors_Is e ErrIdempotencyExists"
    "\<not> errors_Is e ErrInvalidIdempotencyKey" "\<not> errors_Is e ErrInvalidAmount"
    "\<not> errors_Is e ErrSameWallet" "\<not> errors_Is e ErrWalletNotFound"
  using assms by (auto simp: read_error_def read_failure_def wrap_def)

section \<open>Replays\<close>

text \<open>
  What the idempotency record of a key stands for: the transfer its first request was booked as.
  A key that \<open>TEXT\<close> cannot hold has no record.
\<close>

definition claim_of :: "string \<Rightarrow> db \<Rightarrow> (string \<times> Transfer) option" where
  "claim_of k d =
     (case if text_ok k then find_idem k d else None of
        None \<Rightarrow> None
      | Some i \<Rightarrow>
          (case find_transfer (irTransferID i) d of
             None \<Rightarrow> None
           | Some r \<Rightarrow> Some (irRequestHash i, scan_transfer r)))"

lemma find_transfer_None_iff: "find_transfer u d = None \<longleftrightarrow> u \<notin> transfer_ids d"
  by (simp add: transfer_tbl.lookup_None transfer_ids_def)

lemma find_idem_None_iff: "find_idem k d = None \<longleftrightarrow> k \<notin> idem_keys d"
  by (simp add: idem_tbl.lookup_None idem_keys_def)

text \<open>The foreign key makes every record lead to a transfer.\<close>

lemma claim_of_None_iff:
  assumes "schema_ok d"
  shows "claim_of k d = None \<longleftrightarrow> k \<notin> idem_keys d"
proof -
  have "find_transfer (irTransferID i) d \<noteq> None \<and> text_ok k" if "find_idem k d = Some i" for i
    using assms idem_tbl.lookup_SomeD [OF that] by (auto simp: find_transfer_None_iff schema_defs)
  then show ?thesis
    by (auto simp: claim_of_def find_idem_None_iff [symmetric] split: option.splits)
qed

lemma claim_of_Some:
  "claim_of k d = Some (h, t) \<longleftrightarrow>
     text_ok k \<and> (\<exists>i r. find_idem k d = Some i \<and> find_transfer (irTransferID i) d = Some r \<and>
        h = irRequestHash i \<and> t = scan_transfer r)"
  by (auto simp: claim_of_def split: option.splits if_splits)

lemma claim_of_key: "claim_of k d = Some c \<Longrightarrow> k \<in> idem_keys d"
  using idem_tbl.lookup_SomeD [of k d] by (cases c) (auto simp: claim_of_Some idem_keys_def)

lemma claim_of_extends:
  "extends d d' \<Longrightarrow> claim_of k d = Some c \<Longrightarrow> claim_of k d' = Some c"
  by (cases c) (auto simp: claim_of_Some dest: extends_find(1,2))

lemma claim_of_book:
  assumes "can_book req u d"
  shows "claim_of (qIdempotencyKey req) (book req h u now d)
    = Some (h, scan_transfer (outcome_row req u now d))"
proof -
  have "rID (outcome_row req u now d) = u" "irKey (claim_row req h u now) = qIdempotencyKey req"
    "irTransferID (claim_row req h u now) = u" "irRequestHash (claim_row req h u now) = h"
    by (simp_all add: outcome_row_def booked_row_def claim_row_def)
  then show ?thesis
    using assms idem_tbl.lookup_snoc_fresh [of "book req h u now d" d "claim_row req h u now"]
      transfer_tbl.lookup_snoc_fresh [of "book req h u now d" d "outcome_row req u now d"]
    by (auto simp: claim_of_Some can_book_def texts_ok_def idem_keys_def transfer_ids_def)
qed

lemma rely_read: "read_step w w' \<Longrightarrow> rely R w \<Longrightarrow> rely R w'"
  by (auto simp: read_step_def intro: rely_tl)

lemma passed_read: "read_step w w' \<Longrightarrow> passed w w' (disk w')"
  using passed_interfere [of w] passed_cong [of w' "interfere w" w] by (simp add: read_step_def)

context environment
begin

lemma R_read: "read_step w w' \<Longrightarrow> rely R w \<Longrightarrow> books_ok (disk w) \<Longrightarrow> R (disk w) (disk w')"
  by (simp add: read_step_def R_interfere)

lemma replay_outcome:
  assumes run: "replayIfExists DB k h w = (r, w')" and rely: "rely R w" and ok: "books_ok (disk w)"
  shows "rely R w' \<and> passed w w' (disk w') \<and> tx w' = tx w \<and>
    (case r of
       Ok None \<Rightarrow> claim_of k (disk w') = None
     | Ok (Some t) \<Rightarrow> claim_of k (disk w') = Some (h, t)
     | Err e \<Rightarrow> read_error e \<or>
         e = ErrIdempotencyConflict \<and> (\<exists>h' t. claim_of k (disk w') = Some (h', t) \<and> h' \<noteq> h)
     | Panic p \<Rightarrow> False)"
proof -
  obtain q v where get: "IdempotencyRepo_Get DB k w = (q, v)" by (metis prod.exhaust)
  note g = IdempotencyRepo_Get_DB [OF get]
  then have "read_step w v" by simp
  then have v: "rely R v" "passed w v (disk v)" "tx v = tx w" "books_ok (disk v)"
    using rely R_read R_books ok by (auto intro: rely_read passed_read) (simp add: read_step_def)
  then have sch: "schema_ok (disk v)" by (simp add: books_ok_def)
  show ?thesis
  proof (cases q)
    case (Err e)
    then show ?thesis
      using run get g v sch read_error_not(1) [of e]
      by (auto simp: replayIfExists_def claim_of_def split: if_splits)
  next
    case (Ok rec)
    then obtain i where i: "find_idem k (disk v) = Some i" "rec = scan_idem i" and k: "text_ok k" using g by auto
    obtain row where row: "find_transfer (irTransferID i) (disk v) = Some row"
      using sch claim_of_None_iff [of "disk v" k] find_idem_None_iff [of k "disk v"] i(1) k
      by (auto simp: claim_of_def split: option.splits)
    obtain p v2 where get2: "TransferRepo_Get DB (irTransferID i) v = (p, v2)" by (metis prod.exhaust)
    note g2 = TransferRepo_Get_DB [OF get2]
    then have rs: "read_step v v2" by simp
    then have v2: "rely R v2" "R (disk v) (disk v2)" "tx v2 = tx w" "passed w v2 (disk v2)"
      using rely_read [OF rs v(1)] R_read [OF rs v(1,4)] v(3) passed_trans [OF v(2) passed_read [OF rs]]
      by (simp_all add: read_step_def)
    then have "find_idem k (disk v2) = Some i" "find_transfer (irTransferID i) (disk v2) = Some row"
      using i row R_keeps_claim R_keeps_transfer by auto
    then show ?thesis
      using run get Ok i g2 get2 v v2 row k
      by (cases p) (auto simp: replayIfExists_def scan_idem_def claim_of_def bind_ok_def return_ok_def
          split: if_splits)
  next
    case (Panic p)
    then show ?thesis using g by simp
  qed
qed

end

section \<open>Errors of the transaction body\<close>

text \<open>An error that reports neither a lost race nor a reused key nor a bad request.\<close>

definition sentinels :: "error list" where
  "sentinels =
     [ErrIdempotencyExists, ErrIdempotencyConflict, ErrInvalidIdempotencyKey, ErrInvalidAmount,
      ErrSameWallet, ErrWalletNotFound]"

definition clean :: "error \<Rightarrow> bool" where
  "clean e \<longleftrightarrow> list_all (\<lambda>x. \<not> errors_Is e x) sentinels"

definition clean_op :: "'a go \<Rightarrow> bool" where
  "clean_op m \<longleftrightarrow> (\<forall>w e w'. m w = (Err e, w') \<longrightarrow> clean e)"

definition pg_stmt :: "'a stmt \<Rightarrow> bool" where
  "pg_stmt s \<longleftrightarrow> (\<forall>now d e d'. s now d = (Inl e, d') \<longrightarrow> (\<exists>c m. e = PgError c m))"

lemma pg_stmts [simp]:
  "pg_stmt (select_wallet i)" "pg_stmt (update_wallet_balance i b)"
  "pg_stmt (insert_transfer u x y a st)" "pg_stmt (update_transfer_state u st rs)"
  "pg_stmt (insert_ledger u i ty a)" "pg_stmt (insert_idem k h u)"
  by (auto simp: pg_stmt_def stmt_defs Let_def split: if_splits)

lemma clean_simps [simp]:
  "clean (PgError c m)" "clean (DriverErr m)" "clean SqlErrTxDone" "clean SqlErrNoRows"
  "clean ErrNotFound" "clean (Wrapf a e b) \<longleftrightarrow> clean e" "clean (wrap a e) \<longleftrightarrow> clean e"
  "\<not> clean ErrIdempotencyExists" "\<not> clean ErrIdempotencyConflict"
  by (simp_all add: clean_def sentinels_def wrap_def)

lemma clean_not_Is: "clean e \<Longrightarrow> x \<in> set sentinels \<Longrightarrow> \<not> errors_Is e x"
  by (simp add: clean_def list_all_iff)

lemma stmt_Tx_Err:
  assumes "pg_stmt s" and "stmt_Tx s w = (Err e, w')"
  shows "(\<exists>c m. e = PgError c m) \<or> (\<exists>m. e = DriverErr m) \<or> e = SqlErrTxDone"
proof -
  have "\<exists>c m. e' = PgError c m" if "s now d = (Inl e', d')" for now d e' d'
    using assms(1) that unfolding pg_stmt_def by blast
  then show ?thesis
    using assms(2)
    by (fastforce simp: stmt_Tx_def in_failed_transaction_def Let_def
        split: option.splits if_splits fault.splits prod.splits sum.splits)
qed

lemma clean_op_bind: "clean_op m \<Longrightarrow> (\<And>x. clean_op (k x)) \<Longrightarrow> clean_op (bind_ok m k)"
  unfolding clean_op_def by (metis bind_okE res.inject(2) res.distinct(5))

lemma clean_op_exec: "pg_stmt s \<Longrightarrow> clean_op (exec_stmt Tx s)"
  unfolding clean_op_def by (auto dest!: stmt_Tx_Err)

lemma clean_op_wrap:
  "clean_op m \<Longrightarrow> clean_op (map_err (wrap what) m)" "clean_op m \<Longrightarrow> clean_op (map_err (scan_err what) m)"
  by (auto simp: clean_op_def map_err_def scan_err_def split: prod.splits res.splits)

lemma clean_op_simple:
  "clean_op (return_ok x)" "clean e \<Longrightarrow> clean_op (return_err e)"
  "clean_op (\<lambda>w. (Ok x, lock_row ex i w))" "clean e \<Longrightarrow> clean_op (\<lambda>w. (Err e, w))"
  "clean_op a \<Longrightarrow> clean_op b \<Longrightarrow> clean_op (if c then a else b)"
  "clean_op a \<Longrightarrow> clean_op b \<Longrightarrow> clean_op (\<lambda>w. if c then a w else b w)"
  by (auto simp: clean_op_def return_ok_def return_err_def)

lemmas clean_intros = clean_op_bind clean_op_exec clean_op_wrap clean_op_simple

lemma clean_op_query_row: "pg_stmt s \<Longrightarrow> clean_op (query_row Tx s)"
  unfolding query_row_def by (auto intro!: clean_intros split: option.splits)

lemma clean_op_repos:
  "clean_op (WalletRepo_Get Tx i)" "clean_op (WalletRepo_LockForUpdate Tx i)"
  "clean_op (WalletRepo_UpdateBalance Tx i b)" "clean_op (TransferRepo_Insert Tx tr)"
  "clean_op (TransferRepo_UpdateState Tx u st rs)" "clean_op (LedgerRepo_Insert Tx e)"
  unfolding repo_defs scanWallet_def case_prod_beta
  by (intro clean_intros clean_op_query_row; simp)+

lemma clean_op_endings:
  "clean_op (fail_insufficient Tx t)" "clean_op (move_funds Tx req src dst t)"
  unfolding fail_insufficient_def move_funds_def
  by (intro clean_intros clean_op_repos)+

lemma Insert_idem_Err:
  assumes "IdempotencyRepo_Insert Tx k h u (in_tx w t fs) = (Err e, w')"
  shows "clean e \<or> e = ErrIdempotencyExists \<and> k \<in> idem_keys (view t)"
  using assms
  by (auto simp: IdempotencyRepo_Insert_def map_err_def stmt_Tx_def insert_idem_def
      in_failed_transaction_def idem_insert_err_def pgUniqueViolation_def sqlstate_defs Let_def
      split: prod.splits res.splits if_splits fault.splits sum.splits)

lemma executeTransfer_Err:
  assumes "executeTransfer Tx req h u (in_tx w t fs) = (Err e, w')"
  shows "clean e \<or> e = ErrIdempotencyExists \<and> qIdempotencyKey req \<in> idem_keys (view t)"
proof (rule ccontr)
  assume bad: "\<not> ?thesis"
  have cl: "m v \<noteq> (Err e, v')" if "clean_op m" for m :: "'a go" and v v'
    using that bad unfolding clean_op_def by blast
  have keys: "idem_keys d' = idem_keys d" if "insert_transfer i x y a st now d = (Inr r, d')"
    for i x y a st now d r d'
    using that by (auto simp: insert_transfer_def idem_keys_def split: if_splits)
  show False
    using assms bad
    by (auto simp: executeTransfer_def orderedPair_min_max tx_ok cl clean_op_repos clean_op_endings
        dest!: Insert_idem_Err keys elim!: bind_okE split: if_splits)
qed

lemma read_error_clean: "read_error e \<Longrightarrow> clean e"
  by (simp add: clean_def sentinels_def read_error_not)

lemma read_failure_clean: "read_failure e \<Longrightarrow> clean e"
  using read_error_clean by (simp add: read_error_def)

section \<open>The contract of Create\<close>

lemma observe_sel [simp]:
  "faults (observe s w) = faults w" "disk (observe s w) = disk w" "tx (observe s w) = tx w" "others (observe s w) = others w"
  "rely R (observe s w) = rely R w"
  by (simp_all add: observe_def rely_def)

lemma RunInTx_Err:
  assumes fn: "keeps tx_frame fn" and run: "RunInTx fn w = (Err e, w')"
  shows "read_failure e \<or>
    (\<exists>e0 v s. fn (begun w) = (Err e0, v) \<and> (e = e0 \<or> e = Wrapf '''' e0 s))"
proof (cases "BeginTx w = (Ok (), begun w)")
  case False
  then show ?thesis
    using run BeginTx_cases [of w] by (auto simp: RunInTx_def)
next
  case True
  obtain q v where v: "fn (begun w) = (q, v)" by (metis prod.exhaust)
  then obtain t where t: "tx v = Some t"
    using keepsD [OF fn v] by (auto elim!: tx_frame_SomeD [OF _ begun_sel(6)])
  show ?thesis
    using run True v Commit_cases [OF t] Rollback_cases [OF t]
    by (cases q) (auto simp: RunInTx_def)
qed

inductive create_spec ::
  "(db \<Rightarrow> db \<Rightarrow> bool) \<Rightarrow> CreateTransferRequest \<Rightarrow> uuid \<Rightarrow> db \<Rightarrow> (error, Transfer option) res \<Rightarrow> db \<Rightarrow> bool"
  for R req u
where
  rejected: "Validate req = Some e \<Longrightarrow> create_spec R req u d (Err e) d"
| replayed: "Validate req = None \<Longrightarrow> R d d' \<Longrightarrow> claim_of (qIdempotencyKey req) d' = Some (hash req, t) \<Longrightarrow>
    create_spec R req u d (Ok (Some t)) d'"
| conflicting: "Validate req = None \<Longrightarrow> R d d' \<Longrightarrow> claim_of (qIdempotencyKey req) d' = Some (h, t) \<Longrightarrow>
    h \<noteq> hash req \<Longrightarrow> create_spec R req u d (Err ErrIdempotencyConflict) d'"
| booking: "Validate req = None \<Longrightarrow> R d d1 \<Longrightarrow> can_book req u d1 \<Longrightarrow>
    create_spec R req u d (Ok (Some (scan_transfer (outcome_row req u now d1)))) (book req (hash req) u now d1)"
| unacknowledged: "Validate req = None \<Longrightarrow> R d d1 \<Longrightarrow> can_book req u d1 \<Longrightarrow>
    create_spec R req u d (Err (wrap ''commit'' (DriverErr m))) (book req (hash req) u now d1)"
| failing: "Validate req = None \<Longrightarrow> R d d' \<Longrightarrow> clean e \<Longrightarrow> create_spec R req u d (Err e) d'"

inductive_cases create_spec_OkE: "create_spec R req u d (Ok x) d'"
inductive_cases create_spec_ErrE: "create_spec R req u d (Err e) d'"

lemma create_spec_mono:
  "create_spec R req u d r d' \<Longrightarrow> (\<And>x. R d x \<Longrightarrow> R' d x) \<Longrightarrow> create_spec R' req u d r d'"
  by (erule create_spec.cases) (blast intro: create_spec.intros)+

lemma create_spec_no_Panic [simp]: "\<not> create_spec R req u d (Panic p) d'"
  by (auto elim: create_spec.cases)

lemma committed_execute:
  assumes "committed_by (executeTransfer Tx req h u) w x d" and "schema_ok (disk (interfere w))"
  shows "can_book req u (disk (interfere w)) \<and>
    x = scan_transfer (outcome_row req u (clock (interfere w)) (disk (interfere w))) \<and>
    d = book req h u (clock (interfere w)) (disk (interfere w))"
  using assms executeTransfer_ok [of "\<lparr>view = disk (interfere w), locks = [],
      tx_now = clock (interfere w), aborted = False\<rparr>" req h u "interfere w"]
  by (fastforce simp: committed_by_def begun_def tx_result_def Let_def)

lemma execute_RunInTx_Err:
  assumes "RunInTx (executeTransfer Tx req h u) w = (Err e, w')"
  shows "clean e \<or> errors_Is e ErrIdempotencyExists \<and> qIdempotencyKey req \<in> idem_keys (disk (interfere w))"
proof -
  have "keeps tx_frame (executeTransfer Tx req h u)"
    using executeTransfer_tx_op [of req h u] by (simp add: tx_op_def)
  from RunInTx_Err [OF this assms] show ?thesis
  proof
    assume "read_failure e"
    then show ?thesis by (simp add: read_failure_clean)
  next
    assume "\<exists>e0 v s. executeTransfer Tx req h u (begun w) = (Err e0, v) \<and> (e = e0 \<or> e = Wrapf '''' e0 s)"
    then obtain e0 v s where e0: "executeTransfer Tx req h u (begun w) = (Err e0, v)" "e = e0 \<or> e = Wrapf '''' e0 s"
      by blast
    from executeTransfer_Err [OF e0(1) [unfolded begun_def Let_def]] show ?thesis
      using e0(2) by auto
  qed
qed

context environment
begin

lemma slow_path_outcome:
  assumes run: "RunInTx (executeTransfer Tx req h u) w = (r, w')" and rely: "rely R w"
    and ok: "books_ok (disk w)" and tx: "tx w = None"
  shows "rely R w' \<and> tx w' = None \<and>
    (\<exists>d1 now. passed w w' d1 \<and>
      (case r of
         Ok t \<Rightarrow> can_book req u d1 \<and> t = scan_transfer (outcome_row req u now d1) \<and> disk w' = book req h u now d1
       | Err e \<Rightarrow>
           can_book req u d1 \<and> (\<exists>m. e = wrap ''commit'' (DriverErr m)) \<and> disk w' = book req h u now d1 \<or>
           disk w' = d1 \<and> (clean e \<or>
             errors_Is e ErrIdempotencyExists \<and> claim_of (qIdempotencyKey req) d1 \<noteq> None)
       | Panic p \<Rightarrow> False))"
proof -
  let ?fn = "executeTransfer Tx req h u" and ?v = "interfere w"
  have op: "keeps tx_frame ?fn" "\<And>v p v'. ?fn v \<noteq> (Panic p, v')"
    using executeTransfer_tx_op [of req h u] by (auto simp: tx_op_def)
  note out = RunInTx_outcome [OF op(1) run]
  have sch: "schema_ok (disk ?v)"
    using rely ok R_interfere R_books books_ok_def by blast
  have ctx: "rely R w'" "tx w' = None"
    using out tx rely by (auto simp: tx_context_def intro: rely_tl)
  have did: "passed w w' (disk ?v)"
    using passed_interfere [of w] passed_cong [of w' ?v w] out by (simp add: tx_context_def)
  have undone: "passed w w' d \<and> idem_keys d = idem_keys (disk ?v) \<and> schema_ok d" if "seq_only (disk ?v) d" for d
    using passed_seq [OF did that] schema_ok_seq_only [OF sch that] seq_onlyD(4) [OF that]
    by (simp add: idem_keys_def)
  show ?thesis
  proof (cases r)
    case (Ok x)
    then show ?thesis
      using out ctx did committed_execute [OF _ sch, of req h u x "disk w'"] by (auto simp: tx_outcome_def)
  next
    case (Panic p)
    then show ?thesis
      using out op(2) [of "begun w" p "snd (?fn (begun w))"] by (auto simp: tx_outcome_def prod_eq_iff)
  next
    case (Err e)
    have err: "clean e \<or> errors_Is e ErrIdempotencyExists \<and> qIdempotencyKey req \<in> idem_keys (disk ?v)"
      using execute_RunInTx_Err run Err by simp
    show ?thesis
    proof (cases "seq_only (disk ?v) (disk w')")
      case True
      then show ?thesis
        using Err ctx undone [OF True] err claim_of_None_iff [of "disk w'" "qIdempotencyKey req"]
        by (auto intro!: exI [of _ "disk w'"])
    next
      case False
      then obtain m y where "e = wrap ''commit'' (DriverErr m)" "committed_by ?fn w y (disk w')"
        using out Err by (auto simp: tx_outcome_def)
      then show ?thesis
        using Err ctx did committed_execute [OF _ sch, of req h u y "disk w'"] by auto
    qed
  qed
qed

lemma replay_spec:
  assumes "Validate req = None" and "P d d3" and "r \<noteq> Ok None"
    and "case r of
       Ok None \<Rightarrow> claim_of (qIdempotencyKey req) d3 = None
     | Ok (Some t) \<Rightarrow> claim_of (qIdempotencyKey req) d3 = Some (hash req, t)
     | Err e \<Rightarrow> read_error e \<or>
         e = ErrIdempotencyConflict \<and> (\<exists>h' t. claim_of (qIdempotencyKey req) d3 = Some (h', t) \<and> h' \<noteq> hash req)
     | Panic p \<Rightarrow> False"
  shows "create_spec P req u d r d3"
  using assms replayed [where R = P, OF assms(1,2)] conflicting [where R = P, OF assms(1,2)]
    failing [where R = P, OF assms(1,2)] read_error_clean
  by (auto split: res.splits option.splits)

text \<open>Every run of \<open>Create\<close> is one of its specification, with exactly the steps of others that passed.\<close>

lemma Create_passed:
  assumes run: "TransferService_Create req u w = (r, w')" and rely: "rely R w"
    and ok: "books_ok (disk w)" and tx: "tx w = None"
  shows "create_spec (\<lambda>_. passed w w') req u (disk w) r (disk w') \<and> rely R w' \<and> tx w' = None \<and>
    (\<exists>d. passed w w' d)"
proof (cases "Validate req")
  case (Some e)
  then show ?thesis
    using run rely tx passed_refl [of w] by (auto simp: TransferService_Create_def intro: rejected)
next
  case None
  let ?k = "qIdempotencyKey req" and ?h = "hash req"
  obtain r1 w1 where f: "replayIfExists DB ?k ?h w = (r1, w1)" by (metis prod.exhaust)
  note f' = replay_outcome [OF f rely ok]
  then have w1: "rely R w1" "passed w w1 (disk w1)" "books_ok (disk w1)" "tx w1 = None"
    using R_books [OF passed_R [OF rely ok] ok] tx by auto
  obtain r2 w2 where s: "RunInTx (executeTransfer Tx req ?h u) w1 = (r2, w2)" by (metis prod.exhaust)
  note s' = slow_path_outcome [OF s w1(1,3,4)]
  show ?thesis
  proof (cases "r1 = Ok None")
    case False
    then have w': "r = r1" "disk w' = disk w1" "others w' = others w1" "tx w' = tx w1"
      using run None f by (auto simp: TransferService_Create_def Let_def split: res.splits option.splits)
    then have "passed w w' (disk w')" "rely R w'"
      using w1 passed_cong [of w' w1 w] by (simp_all add: rely_def)
    then show ?thesis
      using replay_spec [OF None, of "\<lambda>_. passed w w'" "disk w" "disk w1" r1 u] False f' w' w1(4) by simp metis
  next
    case True
    then have run: "(case r2 of Panic p \<Rightarrow> (Panic p, w2) | Ok t \<Rightarrow> (Ok (Some t), observe (tState t) w2)
       | Err e \<Rightarrow> if errors_Is e ErrIdempotencyExists then
             (case replayIfExists DB ?k ?h w2 of
                (Ok (Some t), w3) \<Rightarrow> (Ok (Some t), observe (tState t) w3) | r \<Rightarrow> r)
           else (Err e, w2)) = (r, w')"
      using run None f s by (simp add: TransferService_Create_def Let_def split: res.splits)
    show ?thesis
    proof (cases "\<exists>e. r2 = Err e \<and> errors_Is e ErrIdempotencyExists")
      case False
      from s' obtain d1 now where "passed w1 w2 d1" and d1: "case r2 of
         Ok t \<Rightarrow> can_book req u d1 \<and> t = scan_transfer (outcome_row req u now d1) \<and> disk w2 = book req ?h u now d1
       | Err e \<Rightarrow>
           can_book req u d1 \<and> (\<exists>m. e = wrap ''commit'' (DriverErr m)) \<and> disk w2 = book req ?h u now d1 \<or>
           disk w2 = d1 \<and> (clean e \<or> errors_Is e ErrIdempotencyExists \<and> claim_of ?k d1 \<noteq> None)
       | Panic p \<Rightarrow> False"
        by blast
      then have p: "passed w w2 d1" using passed_trans [OF w1(2)] by blast
      then have p': "passed w w' d1"
        using run False passed_cong [of w' w2 w] by (auto split: res.splits if_splits)
      with False show ?thesis
        using run None s' d1 booking [OF None, of "\<lambda>_. passed w w'" "disk w" d1 u now]
          unacknowledged [OF None, of "\<lambda>_. passed w w'" "disk w" d1 u _ now]
          failing [OF None, of "\<lambda>_. passed w w'" "disk w" d1]
        by (auto split: res.splits if_splits)
    next
      case lost: True
      then have w2: "passed w w2 (disk w2)" "rely R w2" "tx w2 = None"
        and claim: "claim_of ?k (disk w2) \<noteq> None"
        using s' passed_trans [OF w1(2)] by (auto simp: wrap_def clean_def sentinels_def)
      then have ok2: "books_ok (disk w2)" using R_books [OF passed_R [OF rely ok] ok] by blast
      obtain r3 w3 where g: "replayIfExists DB ?k ?h w2 = (r3, w3)" by (metis prod.exhaust)
      note g' = replay_outcome [OF g w2(2) ok2]
      have "claim_of ?k (disk w3) \<noteq> None"
        using claim g' R_extends [OF passed_R [OF w2(2) ok2]] claim_of_extends by blast
      then have "r3 \<noteq> Ok None" using g' by auto
      then have w': "r = r3" "disk w' = disk w3" "others w' = others w3" "tx w' = tx w3"
        using run lost g by (auto split: res.splits option.splits)
      then have "passed w w' (disk w')" "rely R w'"
        using g' passed_trans [OF w2(1)] passed_cong [of w' w3 w] by (simp_all add: rely_def)
      then show ?thesis
        using replay_spec [OF None, of "\<lambda>_. passed w w'" "disk w" "disk w3" r3 u] \<open>r3 \<noteq> Ok None\<close> g' w' w2(3) by simp metis
    qed
  qed
qed

theorem Create_refines:
  assumes "TransferService_Create req u w = (r, w')" and "rely R w" and "books_ok (disk w)" and "tx w = None"
  shows "create_spec R req u (disk w) r (disk w') \<and> rely R w' \<and> tx w' = None"
  using Create_passed [OF assms] create_spec_mono [of "\<lambda>_. passed w w'" req u "disk w" r "disk w'" R]
    passed_R [OF assms(2,3)] by blast

theorem Create_refines_exactly:
  assumes "TransferService_Create req u w = (r, w')" and "rely R w" and "books_ok (disk w)" and "tx w = None"
  shows "\<exists>es. others w = es @ others w' \<and> create_spec (meanwhile es) req u (disk w) r (disk w')"
proof -
  obtain es where "others w = es @ others w'"
    using Create_passed [OF assms] by (auto simp: passed_def)
  then show ?thesis
    using Create_passed [OF assms] create_spec_mono [of "\<lambda>_. passed w w'" req u "disk w" r "disk w'" "meanwhile es"]
    by (auto simp: passed_def)
qed

end

end
