(* ===== verification/Idempotency.thy ===== *)
theory Idempotency
  imports Create_Refinement
begin

text \<open>
  Exactly-once semantics of a retried call. The locale \<open>idempotent_call\<close> states what a client
  that retries relies on; \<open>bounded_call\<close> adds that the call has at most one effect. Both are
  interpreted on \<open>TransferService.Create\<close>: the first with other instances of the service running,
  the second on a server where nobody else commits.
\<close>

section \<open>Retrying\<close>

text \<open>A client that sends the same request again and again, whatever it gets back.\<close>

fun retry :: "('u \<Rightarrow> 's \<Rightarrow> 'r \<times> 's) \<Rightarrow> 'u list \<Rightarrow> 's \<Rightarrow> 'r list \<times> 's" where
  "retry call [] s = ([], s)"
| "retry call (u # us) s =
     (let (r, s1) = call u s; (rs, s2) = retry call us s1 in (r # rs, s2))"

lemma retry_ConsE:
  assumes "retry call (u # us) s = (rs, s')"
  obtains r s1 rs1 where "call u s = (r, s1)" "retry call us s1 = (rs1, s')" "rs = r # rs1"
  using assms by (auto split: prod.splits)

locale idempotent_call =
  fixes call :: "'u \<Rightarrow> 's \<Rightarrow> ('e, 'r) res \<times> 's"
    and inv :: "'s \<Rightarrow> bool"
    and settled :: "'r \<Rightarrow> 's \<Rightarrow> bool"
  assumes call_inv: "inv s \<Longrightarrow> call u s = (r, s') \<Longrightarrow> inv s'"
    and call_settles: "inv s \<Longrightarrow> call u s = (Ok a, s') \<Longrightarrow> settled a s'"
    and call_stable: "inv s \<Longrightarrow> settled a s \<Longrightarrow> call u s = (r, s') \<Longrightarrow> settled a s'"
    and settled_unique: "settled a s \<Longrightarrow> settled b s \<Longrightarrow> a = b"
begin

lemma retry_settled:
  "inv s \<Longrightarrow> settled a s \<Longrightarrow> retry call us s = (rs, s') \<Longrightarrow>
     inv s' \<and> settled a s' \<and> (\<forall>b. Ok b \<in> set rs \<longrightarrow> b = a)"
proof (induction us arbitrary: s rs)
  case (Cons u us)
  from Cons.prems(3) obtain r s1 rs1 where c: "call u s = (r, s1)" "retry call us s1 = (rs1, s')" "rs = r # rs1"
    by (rule retry_ConsE)
  have "inv s1" and st: "settled a s1"
    using Cons.prems c call_inv call_stable by blast+
  moreover have "b = a" if "r = Ok b" for b
    using call_settles Cons.prems(1) c(1) that st settled_unique by blast
  ultimately show ?case
    using Cons.IH [OF _ _ c(2)] c(3) by auto
qed simp

lemma retry_agree:
  "inv s \<Longrightarrow> retry call us s = (rs, s') \<Longrightarrow>
     inv s' \<and> (\<forall>a. Ok a \<in> set rs \<longrightarrow> settled a s')"
proof (induction us arbitrary: s rs)
  case (Cons u us)
  from Cons.prems(2) obtain r s1 rs1 where c: "call u s = (r, s1)" "retry call us s1 = (rs1, s')" "rs = r # rs1"
    by (rule retry_ConsE)
  have i: "inv s1" using Cons.prems c call_inv by blast
  have "settled a s'" if "r = Ok a" for a
    using retry_settled [OF i _ c(2)] call_settles Cons.prems(1) c(1) that by blast
  then show ?case
    using Cons.IH [OF i c(2)] c(3) by auto
qed simp

end

text \<open>
  At most one effect: \<open>effects\<close> counts what the call leaves behind. An attempt adds at most one,
  and only when it settles the outcome, which includes an attempt that reports an error after its
  commit took effect.
\<close>

locale bounded_call = idempotent_call +
  fixes effects :: "'b \<Rightarrow> nat"
  assumes call_once: "inv s \<Longrightarrow> call u s = (r, s') \<Longrightarrow>
      effects s' = effects s \<or> effects s' = Suc (effects s) \<and> (\<exists>a. settled a s')"
    and call_settled: "inv s \<Longrightarrow> settled a s \<Longrightarrow> call u s = (r, s') \<Longrightarrow> effects s' = effects s"
begin

lemma retry_no_more:
  "inv s \<Longrightarrow> settled a s \<Longrightarrow> retry call us s = (rs, s') \<Longrightarrow> effects s' = effects s"
proof (induction us arbitrary: s rs)
  case (Cons u us)
  from Cons.prems(3) obtain r s1 rs1 where c: "call u s = (r, s1)" "retry call us s1 = (rs1, s')"
    by (rule retry_ConsE)
  then show ?case
    using Cons.IH [OF _ _ c(2)] Cons.prems call_inv call_stable call_settled by metis
qed simp

lemma retry_at_most_once:
  "inv s \<Longrightarrow> retry call us s = (rs, s') \<Longrightarrow> effects s \<le> effects s' \<and> effects s' \<le> Suc (effects s)"
proof (induction us arbitrary: s rs)
  case (Cons u us)
  from Cons.prems(2) obtain r s1 rs1 where c: "call u s = (r, s1)" "retry call us s1 = (rs1, s')"
    by (rule retry_ConsE)
  have i: "inv s1" using Cons.prems c call_inv by blast
  from call_once [OF Cons.prems(1) c(1)] show ?case
  proof
    assume "effects s1 = effects s"
    then show ?thesis using Cons.IH [OF i c(2)] by simp
  next
    assume "effects s1 = Suc (effects s) \<and> (\<exists>a. settled a s1)"
    then show ?thesis using retry_no_more [OF i _ c(2)] by auto
  qed
qed simp

end

section \<open>TransferService.Create is idempotent\<close>

definition serving :: "(db \<Rightarrow> db \<Rightarrow> bool) \<Rightarrow> world \<Rightarrow> bool" where
  "serving R w \<longleftrightarrow> rely R w \<and> books_ok (disk w) \<and> tx w = None"

definition claims :: "CreateTransferRequest \<Rightarrow> Transfer option \<Rightarrow> world \<Rightarrow> bool" where
  "claims req x w \<longleftrightarrow> (\<exists>t. x = Some t \<and> claim_of (qIdempotencyKey req) (disk w) = Some (hash req, t))"

context environment
begin

lemma create_spec_books:
  assumes "create_spec R req u d r d'" and "books_ok d"
  shows "books_ok d' \<and> extends d d'"
proof -
  have "books_ok (book req (hash req) u now d1) \<and> extends d (book req (hash req) u now d1)"
    if "R d d1" "can_book req u d1" for d1 now
    using books_ok_book [OF R_books [OF that(1) assms(2)] that(2) refl]
      extends_trans [OF R_extends [OF that(1)] extends_book] by blast
  then show ?thesis
    using assms R_books R_extends by (auto elim!: create_spec.cases)
qed

lemma Create_serving:
  assumes "serving R w" and "TransferService_Create req u w = (r, w')"
  shows "serving R w' \<and> create_spec R req u (disk w) r (disk w') \<and> extends (disk w) (disk w')"
  using assms Create_refines [of req u w r w'] create_spec_books [of req u "disk w" r "disk w'"]
  by (auto simp: serving_def)

lemma Create_settles:
  assumes "serving R w" and "TransferService_Create req u w = (Ok x, w')"
  shows "claims req x w'"
  using Create_serving [OF assms] claim_of_book
  by (auto simp: claims_def elim!: create_spec_OkE)

lemma Create_stable:
  "serving R w \<Longrightarrow> claims req x w \<Longrightarrow> TransferService_Create req u w = (r, w') \<Longrightarrow> claims req x w'"
  using Create_serving claim_of_extends by (fastforce simp: claims_def)

lemma idempotent: "idempotent_call (TransferService_Create req) (serving R) (claims req)"
proof
  show "a = b" if "claims req a w" "claims req b w" for a b w
    using that by (auto simp: claims_def)
qed (blast dest: Create_serving Create_settles Create_stable)+

end

interpretation creates: idempotent_call "TransferService_Create req" "serving db_steps" "claims req" for req
  by (rule service.idempotent)

text \<open>On a quiet server every committed transfer is the call's own.\<close>

lemma claimed_not_bookable:
  assumes "claim_of (qIdempotencyKey req) d = Some c" and "seq_only d d1"
  shows "\<not> can_book req u d1"
proof -
  show ?thesis
    using claim_of_key [OF assms(1)] seq_onlyD(4) [OF assms(2)] by (simp add: can_book_def idem_keys_def)
qed

lemma quiet_create_cases:
  assumes "create_spec seq_only req u d r d'"
  shows "seq_only d d' \<or>
    (\<exists>d1 now. seq_only d d1 \<and> can_book req u d1 \<and> d' = book req (hash req) u now d1)"
  using assms by (cases rule: create_spec.cases) auto

interpretation quiet_creates: bounded_call "TransferService_Create req" "serving seq_only" "claims req"
    "\<lambda>w. length (transfers (disk w))" for req
proof (rule bounded_call.intro [OF quiet.idempotent], unfold_locales)
  fix w u r w'
  assume "serving seq_only w" and "TransferService_Create req u w = (r, w')"
  then have spec: "create_spec seq_only req u (disk w) r (disk w')"
    using quiet.Create_serving by blast
  show "length (transfers (disk w')) = length (transfers (disk w)) \<or>
      length (transfers (disk w')) = Suc (length (transfers (disk w))) \<and> (\<exists>a. claims req a w')"
    using quiet_create_cases [OF spec] claim_of_book by (auto simp: claims_def seq_onlyD)
  show "length (transfers (disk w')) = length (transfers (disk w))" if "claims req a w" for a
    using quiet_create_cases [OF spec] claimed_not_bookable that by (auto simp: claims_def seq_onlyD)
qed

end
