(* ===== verification/Transfer_Props.thy ===== *)
theory Transfer_Props
  imports Idempotency
begin

text \<open>
  The properties of \<open>TransferService.Create\<close>, read off the refinement of
  \<open>Create_Refinement\<close>, together with its success on a server that reports no fault.
\<close>

section \<open>A run without faults and without other sessions\<close>

definition quiet_world :: "db \<Rightarrow> time \<Rightarrow> world" where
  "quiet_world d now =
     \<lparr>disk = d, tx = None, clock = now, faults = [], others = [],
      TransfersTotal = (\<lambda>_. 0), TransferDuration = (\<lambda>_. 0)\<rparr>"

lemma quiet_world_sel [simp]:
  "disk (quiet_world d now) = d" "tx (quiet_world d now) = None" "clock (quiet_world d now) = now"
  "faults (quiet_world d now) = []" "others (quiet_world d now) = []"
  by (simp_all add: quiet_world_def)

lemma quiet_interfere [simp]: "others w = [] \<Longrightarrow> interfere w = w"
  by (simp add: interfere_def)

lemma RunInTx_body:
  assumes "ok_next (faults w)" and "others w = []"
    and "fn (begun w) = (Ok x, v)" and "tx v = Some t" and "\<not> aborted t"
  shows "RunInTx fn w =
    (case next_fault v of
       NoFault \<Rightarrow> (Ok x, (drop_fault v)\<lparr>tx := None, disk := view t\<rparr>)
     | FailBefore m \<Rightarrow> (Err (wrap ''commit'' (DriverErr m)), discard t (drop_fault v))
     | FailAfter m \<Rightarrow> (Err (wrap ''commit'' (DriverErr m)), (drop_fault v)\<lparr>tx := None, disk := view t\<rparr>))"
proof -
  have "next_fault w = NoFault"
    using assms(1) by (cases "faults w") (auto simp: ok_next_def next_fault_def)
  then have "BeginTx w = (Ok (), begun w)"
    using assms(2) by (simp add: BeginTx_def begun_def in_tx_def drop_fault_def Let_def)
  then show ?thesis
    using assms(3-) by (simp add: RunInTx_def Commit_def Let_def split: fault.splits)
qed

lemma execute_begun:
  assumes "calm 12 (faults w)" and "others w = []" and ok: "schema_ok (disk w)"
    and cb: "can_book req u (disk w)"
  shows "executeTransfer Tx req h u (begun w) =
    (Ok (scan_transfer (outcome_row req u (clock w) (disk w))),
     tx_result w \<lparr>view = disk w, locks = [], tx_now = clock w, aborted = False\<rparr>
       (book req h u (clock w) (disk w))
       [min (qFromWalletID req) (qToWalletID req), max (qFromWalletID req) (qToWalletID req)]
       (drop (if funded req (disk w) then 12 else 8) (faults w)))"
proof -
  let ?t = "\<lparr>view = disk w, locks = [], tx_now = clock w, aborted = False\<rparr>"
  have b: "begun w = in_tx w ?t (tl (faults w))" and c: "calm 11 (tl (faults w))"
    using assms by (simp_all add: begun_def Let_def numeral_eq_Suc)
  obtain x v where run: "executeTransfer Tx req h u (in_tx w ?t (tl (faults w))) = (Ok x, v)"
    using executeTransfer_succeeds [of ?t req u "tl (faults w)" h w] ok cb c by auto
  from executeTransfer_ok [OF _ _ run] ok b run show ?thesis
    by (simp add: drop_Suc numeral_eq_Suc)
qed

lemma slow_path_succeeds:
  assumes "faults w = []" and "others w = []" and "tx w = None" and ok: "schema_ok (disk w)"
    and cb: "can_book req u (disk w)"
  shows "\<exists>w'. RunInTx (executeTransfer Tx req h u) w
       = (Ok (scan_transfer (outcome_row req u (clock w) (disk w))), w') \<and>
     disk w' = book req h u (clock w) (disk w) \<and> faults w' = [] \<and> others w' = []"
proof -
  have "calm 12 (faults w)" "ok_next (faults w)" using assms(1) by simp_all
  note e = execute_begun [OF this(1) assms(2) ok cb, of h]
  show ?thesis
    using RunInTx_body [where fn = "executeTransfer Tx req h u", OF \<open>ok_next (faults w)\<close> assms(2) e] assms(1,2)
    by (simp add: tx_result_def next_fault_def)
qed

text \<open>A body that commits while the acknowledgement of the commit is lost.\<close>

lemma slow_path_unacknowledged:
  assumes c: "calm 12 (faults w)" and "others w = []" and ok: "schema_ok (disk w)"
    and cb: "can_book req u (disk w)"
    and fd: "funded req (disk w)" and f: "drop 12 (faults w) = FailAfter m # fs"
  shows "\<exists>w'. RunInTx (executeTransfer Tx req h u) w = (Err (wrap ''commit'' (DriverErr m)), w') \<and>
     disk w' = book req h u (clock w) (disk w)"
proof -
  have "ok_next (faults w)" using c by (simp add: numeral_eq_Suc)
  note e = execute_begun [OF c assms(2) ok cb, of h]
  show ?thesis
    using RunInTx_body [where fn = "executeTransfer Tx req h u", OF \<open>ok_next (faults w)\<close> assms(2) e] f fd
    by (simp add: tx_result_def next_fault_def)
qed

lemma drop_fault_none [simp]: "faults w = [] \<Longrightarrow> drop_fault w = w"
  by (simp add: drop_fault_def)

lemma first_request:
  assumes "ok_next (faults w)" and "others w = []" and "Validate req = None"
    and "qIdempotencyKey req \<notin> idem_keys (disk w)" and "text_ok (qIdempotencyKey req)"
  shows "TransferService_Create req u w =
    (case RunInTx (executeTransfer Tx req (hash req) u) (drop_fault w) of
       (Panic p, w2) \<Rightarrow> (Panic p, w2)
     | (Ok t, w2) \<Rightarrow> (Ok (Some t), observe (tState t) w2)
     | (Err txErr, w2) \<Rightarrow>
         if errors_Is txErr ErrIdempotencyExists then
           (case replayIfExists DB (qIdempotencyKey req) (hash req) w2 of
              (Ok (Some t), w3) \<Rightarrow> (Ok (Some t), observe (tState t) w3) | r \<Rightarrow> r)
         else (Err txErr, w2))"
proof -
  have "find_idem (qIdempotencyKey req) (disk w) = None"
    using assms(4) by (simp add: find_idem_None_iff)
  then have "replayIfExists DB (qIdempotencyKey req) (hash req) w = (Ok None, drop_fault w)"
    using assms(1,2,5) by (cases "faults w") (auto simp: ok_next_def replayIfExists_def IdempotencyRepo_Get_def query_row_def bind_ok_def
        stmt_DB_def select_idem_def map_err_def return_err_def scan_err_def next_fault_def drop_fault_def)
  then show ?thesis
    using assms(3) by (simp add: TransferService_Create_def Let_def)
qed

lemma replay_quiet:
  assumes "faults w = []" and "others w = []" and "claim_of k (disk w) = Some (h', t)"
  shows "replayIfExists DB k h w = (if h' = h then Ok (Some t) else Err ErrIdempotencyConflict, w)"
proof -
  obtain i r where "find_idem k (disk w) = Some i" "find_transfer (irTransferID i) (disk w) = Some r"
    "h' = irRequestHash i" "t = scan_transfer r" "text_ok k"
    using assms(3) by (auto simp: claim_of_Some)
  then show ?thesis
    using assms(1,2) by (simp add: replayIfExists_def IdempotencyRepo_Get_def TransferRepo_Get_def
        query_row_def bind_ok_def stmt_DB_def select_idem_def select_transfer_def map_err_def
        return_ok_def next_fault_def drop_fault_def scan_idem_def)
qed

lemma Create_replay_quiet:
  assumes "faults w = []" and "others w = []" and "Validate req = None"
    and "claim_of (qIdempotencyKey req) (disk w) = Some (h, t)"
  shows "TransferService_Create req u w =
    (if h = hash req then (Ok (Some t), observe (tState t) w) else (Err ErrIdempotencyConflict, w))"
  using replay_quiet [OF assms(1,2,4), of "hash req"] assms(3)
  by (simp add: TransferService_Create_def Let_def)

lemma Create_books_quiet:
  assumes "faults w = []" and "others w = []" and "tx w = None" and "books_ok (disk w)"
    and "Validate req = None" and "can_book req u (disk w)"
  shows "\<exists>w'. TransferService_Create req u w
       = (Ok (Some (scan_transfer (outcome_row req u (clock w) (disk w)))), w') \<and>
     disk w' = book req (hash req) u (clock w) (disk w) \<and> faults w' = [] \<and> others w' = []"
proof -
  have "schema_ok (disk w)" "qIdempotencyKey req \<notin> idem_keys (disk w)" "text_ok (qIdempotencyKey req)"
    using assms(4,6) by (auto simp: books_ok_def can_book_def texts_ok_def)
  then show ?thesis
    using slow_path_succeeds [OF assms(1-3) _ assms(6), of "hash req"] first_request [of w req u] assms(1,2,5)
    by auto
qed

section \<open>Example data\<close>

definition ex_db :: db where
  "ex_db = empty_db\<lparr>wallets := [wallet_row ''a'' 100 7, wallet_row ''b'' 50 7]\<rparr>"

definition ex_req :: "int64 \<Rightarrow> CreateTransferRequest" where
  "ex_req amt = \<lparr>qIdempotencyKey = ''k'', qFromWalletID = ''a'', qToWalletID = ''b'', qAmount = amt\<rparr>"

lemma ex_db_books [simp]: "books_ok ex_db"
proof -
  have "db_steps empty_db ex_db"
    unfolding ex_db_def
    by (rule rtranclp.rtrancl_into_rtrancl [OF r_into_rtranclp])
      (use opened [of "''a''" 100 empty_db 7] opened [of "''b''" 50 "empty_db\<lparr>wallets := [wallet_row ''a'' 100 7]\<rparr>" 7]
        in \<open>simp_all add: empty_db_def wallet_ids_def wallet_row_def\<close>)
  then show ?thesis using books_ok_steps books_ok_empty by blast
qed

lemma ex_db_find [simp]:
  "find_wallet ''a'' ex_db = Some (wallet_row ''a'' 100 7)"
  "find_wallet ''b'' ex_db = Some (wallet_row ''b'' 50 7)"
  by (simp_all add: ex_db_def find_wallet_def wallet_row_def)

lemma ex_req_valid [simp]: "0 < sint amt \<Longrightarrow> Validate (ex_req amt) = None"
  by (simp add: Validate_def ex_req_def)

lemma ex_req_texts [simp]: "texts_ok (ex_req amt)"
  by (simp add: texts_ok_def ex_req_def)

lemma ex_can_book: "0 < sint amt \<Longrightarrow> can_book (ex_req amt) u ex_db"
proof -
  assume pos: "0 < sint amt"
  have "ledger_seq ex_db = 0" "idem_keys ex_db = {}" "transfer_ids ex_db = {}" "wallet_ids ex_db = {''a'', ''b''}"
    by (simp_all add: ex_db_def empty_db_def idem_keys_def transfer_ids_def wallet_ids_def wallet_row_def)
  then show ?thesis
    using pos by (simp add: can_book_def texts_ok_def ex_req_def funded_def has_room_def wallet_row_def)
qed

section \<open>Outcomes of a first request\<close>

definition balance_of :: "string \<Rightarrow> db \<Rightarrow> int option" where
  "balance_of i d = map_option (\<lambda>w. sint (wBalance w)) (find_wallet i d)"

lemma balance_of_book:
  assumes "schema_ok d" and "can_book req u d" and "funded req d"
  shows "balance_of i (book req h u now d) =
    map_option (\<lambda>b. b + (if i = qFromWalletID req then - sint (qAmount req) else 0)
                      + (if i = qToWalletID req then sint (qAmount req) else 0)) (balance_of i d)"
proof -
  have "find_wallet i (book req h u now d) = map_option (moved req now) (find_wallet i d)"
    using assms(3) by (simp add: find_wallet_def find_wallet_moved)
  then show ?thesis
    using schema_ok_funded(1) [OF assms] find_walletD [of i d]
    by (cases "find_wallet i d") (auto simp: balance_of_def)
qed

text \<open>
  C9: a bookable request with enough money, on a server that reports no fault, returns the
  transfer in state PROCESSED under the drawn id; the source balance drops by the amount, the
  destination balance grows by it, every other balance stays; exactly one DEBIT and one CREDIT of
  the amount are added to the ledger; and the idempotency key now stands for this transfer.
\<close>

theorem create_processed:
  assumes "faults w = []" and "others w = []" and "tx w = None" and "books_ok (disk w)"
    and "Validate req = None" and "can_book req u (disk w)" and "funded req (disk w)"
  shows "\<exists>t w'. TransferService_Create req u w = (Ok (Some t), w') \<and>
    tID t = u \<and> tState t = StateProcessed \<and> tFailureReason t = '''' \<and> tAmount t = qAmount req \<and>
    tFromWalletID t = qFromWalletID req \<and> tToWalletID t = qToWalletID req \<and>
    (\<forall>i. balance_of i (disk w') = map_option (\<lambda>b. b
        + (if i = qFromWalletID req then - sint (qAmount req) else 0)
        + (if i = qToWalletID req then sint (qAmount req) else 0)) (balance_of i (disk w))) \<and>
    map entry_view (entries_of u (disk w')) =
      [(EntryDebit, qFromWalletID req, qAmount req), (EntryCredit, qToWalletID req, qAmount req)] \<and>
    length (ledger_entries (disk w')) = length (ledger_entries (disk w)) + 2 \<and>
    claim_of (qIdempotencyKey req) (disk w') = Some (hash req, t)"
proof -
  let ?t = "scan_transfer (outcome_row req u (clock w) (disk w))"
  have ok: "schema_ok (disk w)" using assms(4) by (simp add: books_ok_def)
  obtain w' where w': "TransferService_Create req u w = (Ok (Some ?t), w')"
    "disk w' = book req (hash req) u (clock w) (disk w)"
    using Create_books_quiet [OF assms(1-6)] by blast
  have "row_settled (disk w') (outcome_row req u (clock w) (disk w))"
    using row_settled_book_new [OF ok assms(6)] w'(2) by simp
  then have "map entry_view (entries_of u (disk w')) =
      [(EntryDebit, qFromWalletID req, qAmount req), (EntryCredit, qToWalletID req, qAmount req)]"
    using assms(7) by (simp add: row_settled_def outcome_row_def booked_row_def)
  moreover have "length (ledger_entries (disk w')) = length (ledger_entries (disk w)) + 2"
    using w'(2) assms(7) by (simp add: book_def)
  ultimately show ?thesis
    using w' assms(7) balance_of_book [OF ok assms(6,7)] claim_of_book [OF assms(6)]
    by (auto simp: scan_transfer_def outcome_row_def booked_row_def coalesce_empty_def)
qed

theorem create_processed_witness:
  "\<exists>t w'. TransferService_Create (ex_req 30) 9 (quiet_world ex_db 8) = (Ok (Some t), w') \<and>
    tID t = 9 \<and> tState t = StateProcessed \<and>
    balance_of ''a'' (disk w') = Some 70 \<and> balance_of ''b'' (disk w') = Some 80"
proof -
  let ?w = "quiet_world ex_db 8"
  have pre: "funded (ex_req 30) (disk ?w)" "can_book (ex_req 30) 9 (disk ?w)" "Validate (ex_req 30) = None"
    by (simp_all add: funded_def ex_req_def wallet_row_def ex_can_book [unfolded ex_req_def] Validate_def)
  obtain t w' where w': "TransferService_Create (ex_req 30) 9 ?w = (Ok (Some t), w')"
    "tID t = 9" "tState t = StateProcessed"
    "\<forall>i. balance_of i (disk w') = map_option (\<lambda>b. b
        + (if i = qFromWalletID (ex_req 30) then - sint (qAmount (ex_req 30)) else 0)
        + (if i = qToWalletID (ex_req 30) then sint (qAmount (ex_req 30)) else 0)) (balance_of i (disk ?w))"
    using create_processed [of ?w, OF _ _ _ _ pre(3,2,1)] by (simp only: quiet_world_sel ex_db_books simp_thms) blast
  from w'(4) [THEN spec, of "''a''"] w'(4) [THEN spec, of "''b''"]
  have "balance_of ''a'' (disk w') = Some 70" "balance_of ''b'' (disk w') = Some 80"
    by (simp_all add: balance_of_def ex_req_def wallet_row_def)
  with w' show ?thesis by blast
qed

text \<open>
  C10: insufficient funds is a committed outcome. The call returns the transfer in state FAILED with
  its reason, no balance and no ledger entry changes, the FAILED row is stored, and the key stands
  for it, so that a retry returns the same transfer.
\<close>

theorem create_insufficient_funds:
  assumes "faults w = []" and "others w = []" and "tx w = None" and "books_ok (disk w)"
    and "Validate req = None" and "can_book req u (disk w)" and "\<not> funded req (disk w)"
  shows "\<exists>t w'. TransferService_Create req u w = (Ok (Some t), w') \<and>
    tID t = u \<and> tState t = StateFailed \<and> tFailureReason t = ''insufficient funds'' \<and>
    wallets (disk w') = wallets (disk w) \<and> ledger_entries (disk w') = ledger_entries (disk w) \<and>
    length (transfers (disk w')) = Suc (length (transfers (disk w))) \<and>
    claim_of (qIdempotencyKey req) (disk w') = Some (hash req, t)"
proof -
  obtain w' where w': "TransferService_Create req u w
      = (Ok (Some (scan_transfer (outcome_row req u (clock w) (disk w)))), w')"
    "disk w' = book req (hash req) u (clock w) (disk w)"
    using Create_books_quiet [OF assms(1-6)] by blast
  then show ?thesis
    using assms(7) claim_of_book [OF assms(6), of "hash req" "clock w"]
    by (simp add: scan_transfer_def outcome_row_def booked_row_def coalesce_empty_def book_def)
qed

lemma ex_unfunded: "\<not> funded (ex_req 500) ex_db"
  by (simp add: funded_def ex_req_def wallet_row_def)

theorem create_insufficient_funds_witness:
  "\<exists>t w'. TransferService_Create (ex_req 500) 9 (quiet_world ex_db 8) = (Ok (Some t), w') \<and>
    tState t = StateFailed \<and> wallets (disk w') = wallets ex_db"
  using create_insufficient_funds [of "quiet_world ex_db 8" "ex_req 500" 9] ex_unfunded
    ex_can_book [of 500 9] ex_req_valid [of 500] by auto

section \<open>Other sessions and faults\<close>

lemma create_spec_steps:
  assumes "create_spec db_steps req u d r d'"
  shows "db_steps d d' \<and> r \<noteq> Ok None"
  using assms
proof (cases rule: create_spec.cases)
  case (booking d1 now)
  then show ?thesis
    using db_step.booked [of req u d1 now] by (simp add: rtranclp.rtrancl_into_rtrancl)
next
  case (unacknowledged d1 m now)
  then show ?thesis
    using db_step.booked [of req u d1 now] by (simp add: rtranclp.rtrancl_into_rtrancl)
qed auto

text \<open>
  C1: whatever the driver fails and whatever other instances of the service commit meanwhile,
  \<open>Create\<close> does one of the things its contract lists: reject, replay, report a conflict, book the
  request once (acknowledged or not), or fail without an effect of its own. What the others did is
  told apart from what the call did: \<open>es\<close> are exactly the steps of other sessions that were taken
  during the call, each once and in order, so a call that fails leaves just what they left, and a
  booking of the call itself is there only when it returns it, or when the commit is reported as
  failed because its acknowledgement was lost.
\<close>

theorem create_meets_contract:
  assumes "serving db_steps w" and "TransferService_Create req u w = (r, w')"
  shows "\<exists>es. others w = es @ others w' \<and> create_spec (meanwhile es) req u (disk w) r (disk w')"
  using service.Create_refines_exactly [OF assms(2)] assms(1) by (auto simp: serving_def)

text \<open>
  C13: the same runs keep every invariant of the committed database, change it only by the effects a
  service may have, leave no transaction open, never panic, and never return a nil transfer
  with a nil error.
\<close>

theorem create_guarantee:
  assumes "serving db_steps w" and "TransferService_Create req u w = (r, w')"
  shows "books_ok (disk w') \<and> db_steps (disk w) (disk w') \<and> tx w' = None \<and> rely db_steps w' \<and>
    (\<forall>p. r \<noteq> Panic p) \<and> r \<noteq> Ok None"
  using service.Create_serving [OF assms] create_spec_steps [of req u "disk w" r "disk w'"]
  by (auto simp: serving_def)

text \<open>An example with another session that opens wallet \<open>c\<close> and with a lost commit message.\<close>

definition ex_other :: "db \<Rightarrow> db" where
  "ex_other d = (if ''c'' \<in> wallet_ids d then d else d\<lparr>wallets := wallets d @ [wallet_row ''c'' 5 9]\<rparr>)"

definition ex_world :: "fault list \<Rightarrow> env_step list \<Rightarrow> world" where
  "ex_world fs es = (quiet_world ex_db 8)\<lparr>faults := fs, others := es\<rparr>"

lemma ex_other_steps: "db_steps d (ex_other d)"
  using opened [of "''c''" 5 d 9] by (auto simp: ex_other_def)

lemma ex_world_serving:
  "serving db_steps (ex_world fs [(1, ex_other)])" "serving seq_only (ex_world fs [])"
  by (simp_all add: serving_def ex_world_def rely_def allowed_def ex_other_steps)

theorem create_meets_contract_witness:
  "\<exists>es r w'. TransferService_Create (ex_req 30) 9 (ex_world [FailBefore ''timeout''] [(1, ex_other)]) = (Err r, w') \<and>
     [(1, ex_other)] = es @ others w' \<and> es \<noteq> [] \<and>
     create_spec (meanwhile es) (ex_req 30) 9 ex_db (Err r) (disk w')"
proof -
  let ?w = "ex_world [FailBefore ''timeout''] [(1, ex_other)]"
  obtain r w' where run: "TransferService_Create (ex_req 30) 9 ?w = (Err r, w')" "others w' = []"
    by (simp add: TransferService_Create_def replayIfExists_def IdempotencyRepo_Get_def query_row_def bind_ok_def
        stmt_DB_def map_err_def scan_err_def wrap_def interfere_def next_fault_def drop_fault_def ex_world_def)
  then show ?thesis
    using create_meets_contract [OF ex_world_serving(1) run(1)] by (auto simp: ex_world_def)
qed

theorem create_guarantee_witness:
  "books_ok (disk (snd (TransferService_Create (ex_req 30) 9 (ex_world [NoFault, NoFault] [(1, ex_other)]))))"
  using create_guarantee [OF ex_world_serving(1) [of "[NoFault, NoFault]"],
      of "ex_req 30" 9, OF prod.collapse [symmetric]]
  by simp

section \<open>Exactly once\<close>

text \<open>
  C4: a client that retries the same request any number of times, under any faults and with other
  instances committing in between, gets the same transfer from every attempt that succeeds, and
  after the last attempt the key stands for exactly this transfer.
\<close>

theorem retries_agree:
  assumes "serving db_steps w" and "retry (TransferService_Create req) us w = (rs, w')"
    and "Ok x \<in> set rs" and "Ok y \<in> set rs"
  shows "x = y \<and> (\<exists>t. x = Some t \<and> claim_of (qIdempotencyKey req) (disk w') = Some (hash req, t)) \<and>
    books_ok (disk w')"
proof -
  have "claims req x w'" "claims req y w'" "books_ok (disk w')"
    using creates.retry_agree [OF assms(1,2)] assms(3,4) by (auto simp: serving_def)
  then show ?thesis
    by (auto simp: claims_def)
qed

text \<open>
  C5: on a server where nobody else commits, all attempts together leave at most one new transfer,
  however their statements, commits and acknowledgements fail.
\<close>

theorem retries_book_at_most_once:
  assumes "serving seq_only w" and "retry (TransferService_Create req) us w = (rs, w')"
  shows "length (transfers (disk w')) \<le> Suc (length (transfers (disk w))) \<and>
    length (transfers (disk w)) \<le> length (transfers (disk w'))"
  using quiet_creates.retry_at_most_once [OF assms] by simp

theorem retries_book_at_most_once_witness:
  "length (transfers (disk (snd (retry (TransferService_Create (ex_req 30)) [1, 2, 3]
      (ex_world [NoFault, NoFault, FailAfter ''reset''] []))))) \<le> 1"
  using retries_book_at_most_once [OF ex_world_serving(2) [of "[NoFault, NoFault, FailAfter ''reset'']"],
      of "ex_req 30" "[1, 2, 3]", OF prod.collapse [symmetric]]
  by (simp add: ex_world_def ex_db_def empty_db_def)

theorem retries_agree_witness:
  "\<exists>t w'. retry (TransferService_Create (ex_req 30)) [1, 2] (ex_world [] []) = ([Ok (Some t), Ok (Some t)], w') \<and>
    books_ok (disk w')"
proof -
  let ?w = "ex_world [] []" and ?r = "ex_req 30"
  have w: "disk ?w = ex_db" "faults ?w = []" "others ?w = []" "tx ?w = None"
    by (simp_all add: ex_world_def)
  have sv: "serving db_steps ?w"
    using w by (simp add: serving_def)
  obtain x w1 where one: "TransferService_Create ?r 1 ?w = (Ok (Some x), w1)" and w1: "faults w1 = []" "others w1 = []"
    using Create_books_quiet [of ?w ?r 1] w ex_can_book [of 30 1] by auto
  then have "claim_of (qIdempotencyKey ?r) (disk w1) = Some (hash ?r, x)"
    using service.Create_settles [OF sv one] by (simp add: claims_def)
  then have "TransferService_Create ?r 2 w1 = (Ok (Some x), observe (tState x) w1)"
    using Create_replay_quiet [OF w1, of ?r] by simp
  then have run: "retry (TransferService_Create ?r) [1, 2] ?w = ([Ok (Some x), Ok (Some x)], observe (tState x) w1)"
    using one by simp
  then show ?thesis
    using retries_agree [OF sv run, of "Some x" "Some x"] by auto
qed

text \<open>
  C17: a commit whose acknowledgement is lost is reported as an error although it took effect; the
  retry with the same key then returns that very transfer, under the first attempt's id, and adds
  no row.
\<close>

theorem lost_acknowledgement_recovered:
  assumes "serving seq_only w" and "TransferService_Create req u w = (Err e, w1)"
    and "transfers (disk w1) \<noteq> transfers (disk w)"
    and "faults w2 = []" and "others w2 = []" and "disk w2 = disk w1"
  shows "(\<exists>m. e = wrap ''commit'' (DriverErr m)) \<and>
    (\<exists>t. TransferService_Create req v w2 = (Ok (Some t), observe (tState t) w2) \<and> tID t = u)"
proof -
  have "create_spec seq_only req u (disk w) (Err e) (disk w1)"
    using quiet.Create_serving [OF assms(1,2)] by blast
  then obtain d1 m now where e: "e = wrap ''commit'' (DriverErr m)" "Validate req = None"
    "can_book req u d1" "disk w1 = book req (hash req) u now d1"
    using assms(3) by (auto elim!: create_spec_ErrE simp: seq_onlyD)
  then have "claim_of (qIdempotencyKey req) (disk w2)
      = Some (hash req, scan_transfer (outcome_row req u now d1))"
    using claim_of_book assms(6) by simp
  moreover have "tID (scan_transfer (outcome_row req u now d1)) = u"
    by (simp add: scan_transfer_def outcome_row_def booked_row_def)
  ultimately show ?thesis
    using Create_replay_quiet [OF assms(4,5) e(2)] e(1) by auto
qed

lemma ex_lost:
  "\<exists>w'. TransferService_Create (ex_req 30) 9 (ex_world (replicate 13 NoFault @ [FailAfter ''reset'']) [])
      = (Err (wrap ''commit'' (DriverErr ''reset'')), w') \<and>
    transfers (disk w') \<noteq> transfers ex_db"
proof -
  let ?w = "ex_world (replicate 13 NoFault @ [FailAfter ''reset'']) []"
  let ?v = "drop_fault ?w"
  have w: "disk ?v = ex_db" "others ?w = []" "others ?v = []" "ok_next (faults ?w)"
    "calm 12 (faults ?v)" "drop 12 (faults ?v) = [FailAfter ''reset'']"
    by (simp_all add: ex_world_def ok_next_def numeral_eq_Suc)
  have cb: "can_book (ex_req 30) 9 (disk ?v)" and fd: "funded (ex_req 30) (disk ?v)"
    using ex_can_book [of 30 9] w(1) by (simp_all add: funded_def ex_req_def wallet_row_def)
  obtain w' where w': "RunInTx (executeTransfer Tx (ex_req 30) (hash (ex_req 30)) 9) ?v
      = (Err (wrap ''commit'' (DriverErr ''reset'')), w')"
    "disk w' = book (ex_req 30) (hash (ex_req 30)) 9 (clock ?v) (disk ?v)"
    using slow_path_unacknowledged [OF w(5,3) _ cb fd w(6)] w(1) ex_db_books
    by (auto simp: books_ok_def)
  have "qIdempotencyKey (ex_req 30) \<notin> idem_keys (disk ?w)" "text_ok (qIdempotencyKey (ex_req 30))"
    using cb w(1) by (simp_all add: can_book_def texts_ok_def)
  from first_request [OF w(4,2) _ this, of 9] show ?thesis
    using w' w(1) by (simp add: wrap_def)
qed

theorem lost_acknowledgement_recovered_witness:
  "\<exists>w1 t. TransferService_Create (ex_req 30) 9 (ex_world (replicate 13 NoFault @ [FailAfter ''reset'']) [])
      = (Err (wrap ''commit'' (DriverErr ''reset'')), w1) \<and>
    fst (TransferService_Create (ex_req 30) 10 (quiet_world (disk w1) 20)) = Ok (Some t) \<and> tID t = 9"
proof -
  let ?w = "ex_world (replicate 13 NoFault @ [FailAfter ''reset'']) []"
  obtain w1 where one: "TransferService_Create (ex_req 30) 9 ?w
      = (Err (wrap ''commit'' (DriverErr ''reset'')), w1)" "transfers (disk w1) \<noteq> transfers ex_db"
    using ex_lost by blast
  have "transfers (disk w1) \<noteq> transfers (disk ?w)"
    using one(2) by (simp add: ex_world_def)
  from lost_acknowledgement_recovered [OF ex_world_serving(2) one(1) this, of "quiet_world (disk w1) 20" 10]
  show ?thesis using one(1) by auto
qed

end
