(* ===== verification/Activity.thy ===== *)
theory Activity
  imports Transfer_Props
begin

text \<open>
  The databases that the code can produce. \<open>activity d d'\<close>: finitely many calls of the methods of both
  services lead from \<open>d\<close> to \<open>d'\<close>, under any faults, and with other sessions committing in between
  whatever such calls commit. Every activity is a path of \<open>db_step\<close>: the abstract transition system of
  \<open>Environment\<close> is refined by the code, and so its invariants hold of everything the code does.
\<close>

section \<open>Calls of the services\<close>

text \<open>One call of a method, and the world it leaves.\<close>

datatype service_call =
    CreateTransfer CreateTransferRequest uuid
  | GetTransfer uuid
  | ListTransfers string int "time option"
  | CreateWallet string int64
  | GetWallet string

fun world_after :: "service_call \<Rightarrow> world \<Rightarrow> world" where
  "world_after (CreateTransfer req u) w = snd (TransferService_Create req u w)"
| "world_after (GetTransfer u) w = snd (TransferService_GetTransfer u w)"
| "world_after (ListTransfers i l before) w = snd (TransferService_ListTransfersByWallet i l before w)"
| "world_after (CreateWallet i b) w = snd (WalletService_Create i b w)"
| "world_after (GetWallet i) w = snd (WalletService_Get i w)"

text \<open>
  The steps of other sessions are activities themselves, from every database on which the invariant
  holds.
\<close>

inductive activity :: "db \<Rightarrow> db \<Rightarrow> bool" where
  idle: "activity d d"
| called: "activity d (disk w) \<Longrightarrow> tx w = None \<Longrightarrow>
    (\<forall>(dt, f)\<in>set (others w). \<forall>e. books_ok e \<longrightarrow> activity e (f e)) \<Longrightarrow>
    activity d (disk (world_after c w))"

section \<open>Every call is a path of the transition system\<close>

lemma read_only_DB:
  assumes "\<And>now d. snd (s now d) = d"
  shows "disk (snd (stmt_DB s w)) = disk (interfere w)"
  by (auto simp: stmt_DB_def Let_def split: fault.splits prod.splits sum.splits)
    (metis assms snd_conv)+

lemma read_only_stmts:
  "snd (select_wallet i now d) = d" "snd (select_transfer u now d) = d" "snd (select_history i before l now d) = d"
  by (simp_all add: select_wallet_def select_transfer_def select_history_def)

lemma disk_bind_ok: "(\<And>x v. disk (snd (k x v)) = disk v) \<Longrightarrow> disk (snd (bind_ok m k w)) = disk (snd (m w))"
  by (auto simp: bind_ok_def split: prod.splits res.splits)

lemma disk_map_err: "disk (snd (map_err f m w)) = disk (snd (m w))"
  by (auto simp: map_err_def split: prod.splits res.splits)

lemma disk_query_row:
  assumes "\<And>now d. snd (s now d) = d"
  shows "disk (snd (query_row DB s w)) = disk (interfere w)"
proof -
  have "disk (snd (query_row DB s w)) = disk (snd (exec_stmt DB s w))"
    unfolding query_row_def
    by (rule disk_bind_ok) (auto simp: return_ok_def return_err_def split: option.splits)
  then show ?thesis
    using read_only_DB [OF assms] by simp
qed

lemma disk_rows_Err: "disk (snd (rows_Err x w)) = disk w"
  by (simp add: rows_Err_def split: fault.splits)

lemma disk_reads:
  "disk (world_after (GetTransfer u) w) = disk (interfere w)"
  "disk (world_after (GetWallet i) w) = disk (interfere w)"
  "disk (world_after (ListTransfers i l before) w) \<in> {disk w, disk (interfere w)}"
proof -
  show "disk (world_after (GetTransfer u) w) = disk (interfere w)"
    using disk_query_row [of "select_transfer u" w]
    by (simp add: TransferService_GetTransfer_def TransferRepo_Get_def disk_map_err disk_bind_ok return_ok_def read_only_stmts)
  show "disk (world_after (GetWallet i) w) = disk (interfere w)"
    using disk_query_row [of "select_wallet i" w]
    by (simp add: WalletService_Get_def WalletRepo_Get_def scanWallet_def disk_map_err read_only_stmts)
  have "disk (snd (TransferRepo_ListByWallet DB i l before w)) = disk (interfere w)" for l
    using read_only_DB [of "select_history i before l" w]
    by (simp add: TransferRepo_ListByWallet_def disk_map_err disk_bind_ok disk_rows_Err read_only_stmts)
  then show "disk (world_after (ListTransfers i l before) w) \<in> {disk w, disk (interfere w)}"
    by (auto simp: TransferService_ListTransfersByWallet_def Let_def disk_bind_ok return_ok_def return_err_def split: prod.splits)
qed

lemma insert_wallet_step: "i \<noteq> '''' \<Longrightarrow> db_steps d (snd (insert_wallet i b now d))"
  using opened [of i b d now] by (auto simp: insert_wallet_def wallet_row_def not_less)

lemma disk_create_wallet:
  "disk (world_after (CreateWallet i b) w) = disk w \<or>
   (\<exists>now. db_steps (disk (interfere w)) (disk (world_after (CreateWallet i b) w)))"
proof -
  let ?s = "insert_wallet i b"
  have insert: "db_steps (disk (interfere w)) (disk (snd (stmt_DB ?s w)))" if "i \<noteq> ''''"
    using insert_wallet_step [OF that, of "disk (interfere w)" b "clock (interfere w)"]
    by (auto simp: stmt_DB_def drop_fault_def Let_def split: fault.splits prod.splits sum.splits)
  have "disk (snd (WalletRepo_Insert DB x w)) = disk (snd (stmt_DB (insert_wallet (wID x) (wBalance x)) w))" for x
    by (simp add: WalletRepo_Insert_def disk_map_err disk_bind_ok return_ok_def case_prod_beta)
  then show ?thesis
    using insert by (auto simp: WalletService_Create_def return_err_def)
qed

lemma call_steps:
  assumes "allowed db_steps (others w)" and "books_ok (disk w)" and "tx w = None"
  shows "db_steps (disk w) (disk (world_after c w))"
proof -
  have "rely db_steps w" using assms(1) by (simp add: rely_def)
  then have i: "db_steps (disk w) (disk (interfere w))" and sv: "serving db_steps w"
    using service.R_interfere assms(2,3) by (auto simp: serving_def)
  show ?thesis
  proof (cases c)
    case (CreateTransfer req u)
    then show ?thesis
      using create_guarantee [OF sv, of req u] by (simp add: prod_eq_iff)
  next
    case (ListTransfers j l before)
    then show ?thesis
      using i disk_reads(3) [of j l before w] by auto
  next
    case (CreateWallet j b)
    then show ?thesis
      using i disk_create_wallet [of j b w] by (auto intro: rtranclp_trans)
  qed (use i disk_reads(1,2) in auto)
qed

theorem activity_steps: "activity d d' \<Longrightarrow> books_ok d \<Longrightarrow> db_steps d d'"
proof (induction rule: activity.induct)
  case (called d w c)
  then have "allowed db_steps (others w)" "db_steps d (disk w)"
    by (auto simp: allowed_def)
  then show ?case
    using call_steps [of w c] books_ok_steps [of d "disk w"] called by (auto intro: rtranclp_trans)
qed simp

lemma activity_reachable: "activity empty_db d \<Longrightarrow> reachable d"
  using activity_steps by (simp add: reachable_def)

lemma activity_trans: "activity b c \<Longrightarrow> activity a b \<Longrightarrow> activity a c"
proof (induction rule: activity.induct)
  case (called d w c)
  then show ?case by (intro activity.called) (auto simp: case_prod_beta)
qed

section \<open>Example activity\<close>

lemma activity_quiet: "activity d d' \<Longrightarrow> activity d (disk (world_after c (quiet_world d' now)))"
  using called [of d "quiet_world d' now" c] by simp

lemma activity_book:
  assumes "books_ok d" and "Validate req = None" and "can_book req u d"
  shows "activity d (book req (hash req) u now d)"
  using activity_quiet [OF idle, of d "CreateTransfer req u" now] Create_books_quiet [of "quiet_world d now" req u] assms
  by auto

lemma activity_open:
  assumes "activity e d" and "i \<noteq> ''''" and "text_ok i" and "0 \<le> sint b" and "i \<notin> wallet_ids d"
  shows "activity e (d\<lparr>wallets := wallets d @ [wallet_row i b now]\<rparr>)"
  using activity_quiet [OF assms(1), of "CreateWallet i b" now] assms(2-)
  by (simp add: WalletService_Create_def WalletRepo_Insert_def map_err_def bind_ok_def stmt_DB_def insert_wallet_def
      return_ok_def next_fault_def wallet_row_def)

lemma ex_db_activity: "activity empty_db ex_db"
  unfolding ex_db_def
  using activity_open [OF activity_open [OF idle, of "''a''" 100 empty_db 7], of "''b''" 50 7]
  by (simp add: empty_db_def wallet_ids_def wallet_row_def)

lemma ex_booked_activity: "activity ex_db (book (ex_req 30) (hash (ex_req 30)) 9 8 ex_db)"
  by (rule activity_book) (simp_all add: ex_can_book)

end
