(* ===== verification/Transfer_Safety.thy ===== *)
theory Transfer_Safety
  imports Activity
begin

text \<open>
  What \<open>TransferService.Create\<close> never does: create or destroy money, overdraw or overflow a
  balance, leave a partial transfer behind an error, or answer a reused key with somebody else's
  transfer.
\<close>

section \<open>Money is conserved\<close>

lemma quiet_create_total:
  assumes "create_spec seq_only req u d r d'" and "schema_ok d"
  shows "total_balance d' = total_balance d"
  using quiet_create_cases [OF assms(1)]
proof
  assume "\<exists>d1 now. seq_only d d1 \<and> can_book req u d1 \<and> d' = book req (hash req) u now d1"
  then obtain d1 now where "seq_only d d1" "can_book req u d1" "d' = book req (hash req) u now d1" by blast
  then show ?thesis
    using total_balance_book [OF schema_ok_seq_only [OF assms(2)]] total_balance_seq_only by metis
qed (rule total_balance_seq_only)

text \<open>
  C11: no call of \<open>Create\<close> changes the total of all balances when nobody else commits, whatever it
  returns and whatever fails on the way; and no balance is ever negative.
\<close>

theorem create_conserves_money:
  assumes "serving seq_only w" and "TransferService_Create req u w = (r, w')"
  shows "total_balance (disk w') = total_balance (disk w) \<and>
    (\<forall>x\<in>set (wallets (disk w')). 0 \<le> sint (wBalance x))"
proof -
  have "schema_ok (disk w)" "schema_ok (disk w')"
    using assms(1) quiet.Create_serving [OF assms] by (auto simp: serving_def books_ok_def)
  then show ?thesis
    using quiet_create_total [of req u "disk w" r "disk w'"] quiet.Create_serving [OF assms]
    by (simp add: schema_defs)
qed

theorem create_conserves_money_witness:
  "total_balance (disk (snd (TransferService_Create (ex_req 30) 9 (ex_world [NoFault, FailAfter ''x''] [])))) = 150"
  using create_conserves_money [OF ex_world_serving(2) [of "[NoFault, FailAfter ''x'']"],
      of "ex_req 30" 9, OF prod.collapse [symmetric]]
  by (simp add: ex_world_def ex_db_def total_balance_def wallet_row_def)

text \<open>
  C14: reconciliation. In every database that calls of the two services produce from the empty one,
  under any faults and with any number of instances at work, credits and debits balance out over
  the whole ledger; and from then on, whatever further calls are made, the balance of a wallet minus
  the net of its ledger entries stays what it is: the ledger explains every change of every balance.
\<close>

theorem ledger_reconciles:
  assumes "activity empty_db d" and "activity d d'" and "i \<in> wallet_ids d"
  shows "trial_balance d' = 0 \<and> opening_balance i d' = opening_balance i d"
proof -
  have d: "db_steps empty_db d" "books_ok d"
    using activity_steps [OF assms(1)] books_ok_steps [of empty_db d] by simp_all
  then have "db_steps d d'"
    using activity_steps [OF assms(2)] by simp
  moreover from this have "trial_balance d' = trial_balance empty_db"
    using d(1) by (intro trial_balance_steps) (rule rtranclp_trans)
  ultimately show ?thesis
    using opening_balance_steps d(2) assms(3) by (simp add: trial_balance_def empty_db_def)
qed

theorem ledger_reconciles_witness:
  "\<exists>d'. disk (snd (TransferService_Create (ex_req 30) 9 (quiet_world ex_db 8))) = d' \<and>
     balance_of ''a'' d' = Some 70 \<and> trial_balance d' = 0 \<and> opening_balance ''a'' d' = 100"
proof -
  let ?d = "book (ex_req 30) (hash (ex_req 30)) 9 8 ex_db"
  have run: "disk (snd (TransferService_Create (ex_req 30) 9 (quiet_world ex_db 8))) = ?d"
    using Create_books_quiet [of "quiet_world ex_db 8" "ex_req 30" 9] ex_can_book [of 30 9] by auto
  have "ledger_entries ex_db = []"
    by (simp add: ex_db_def empty_db_def)
  then have "opening_balance ''a'' ex_db = 100"
    by (simp add: opening_balance_def net_ledger_def wallet_row_def)
  moreover have "balance_of ''a'' ?d = Some 70"
    using balance_of_book [of ex_db "ex_req 30" 9 "''a''" "hash (ex_req 30)" 8] ex_can_book [of 30 9] ex_db_books
    by (simp add: books_ok_def funded_def balance_of_def ex_req_def wallet_row_def)
  ultimately show ?thesis
    using run ledger_reconciles [OF ex_db_activity ex_booked_activity find_wallet_ids [OF ex_db_find(1)]] by simp
qed

section \<open>Errors leave nothing behind\<close>

text \<open>
  C12: when \<open>Create\<close> returns an error on a server where nobody else commits, every table is as it
  was before the call; the only exception is a lost acknowledgement of the commit, and then
  the request is booked completely.
\<close>

theorem create_error_is_atomic:
  assumes "serving seq_only w" and "TransferService_Create req u w = (Err e, w')"
  shows "seq_only (disk w) (disk w') \<or>
    (\<exists>m d1 now. e = wrap ''commit'' (DriverErr m) \<and> seq_only (disk w) d1 \<and> can_book req u d1 \<and>
       disk w' = book req (hash req) u now d1)"
  using quiet.Create_serving [OF assms] by (auto elim!: create_spec_ErrE)

theorem create_error_is_atomic_witness:
  "\<exists>w' m d1 now. TransferService_Create (ex_req 30) 9 (ex_world (replicate 13 NoFault @ [FailAfter ''reset'']) [])
      = (Err (wrap ''commit'' (DriverErr m)), w') \<and> disk w' = book (ex_req 30) (hash (ex_req 30)) 9 now d1"
proof -
  obtain w' where w': "TransferService_Create (ex_req 30) 9 (ex_world (replicate 13 NoFault @ [FailAfter ''reset'']) [])
      = (Err (wrap ''commit'' (DriverErr ''reset'')), w')" "transfers (disk w') \<noteq> transfers ex_db"
    using ex_lost by blast
  then show ?thesis
    using create_error_is_atomic [OF ex_world_serving(2) w'(1)] seq_onlyD(2)
    by (auto simp: ex_world_def)
qed
section \<open>Reused keys\<close>

lemma claimed_stays:
  assumes "extends d d1" and "claim_of (qIdempotencyKey req) d = Some c"
  shows "\<not> can_book req u d1"
proof -
  show ?thesis
    using claim_of_key [OF assms(2)] extends_find(4) [OF assms(1)] by (auto simp: can_book_def)
qed

text \<open>
  C16: once a key is claimed, a successful call with that key returns the claimed transfer
  and nothing else, and the request hash stored with it is that of the request, whatever other
  sessions commit meanwhile.
\<close>

theorem create_replays_the_claim:
  assumes "serving db_steps w" and "TransferService_Create req u w = (Ok x, w')"
    and "claim_of (qIdempotencyKey req) (disk w) = Some (h, t)"
  shows "x = Some t \<and> h = hash req \<and> claim_of (qIdempotencyKey req) (disk w') = Some (h, t)"
proof -
  note run = service.Create_serving [OF assms(1,2)]
  then have kept: "claim_of (qIdempotencyKey req) (disk w') = Some (h, t)"
    using claim_of_extends assms(3) by blast
  have "\<not> can_book req u d1" if "db_steps (disk w) d1" for d1
    using claimed_stays [OF extends_steps [OF that] assms(3)] .
  then show ?thesis
    using run kept by (auto elim!: create_spec_OkE)
qed

theorem create_replays_the_claim_witness:
  "\<exists>t w'. TransferService_Create (ex_req 30) 2 (quiet_world (book (ex_req 30) (hash (ex_req 30)) 1 8 ex_db) 20)
      = (Ok (Some t), w') \<and> tID t = 1 \<and> tState t = StateProcessed \<and>
    claim_of ''k'' (disk w') = Some (hash (ex_req 30), t)"
proof -
  let ?d = "book (ex_req 30) (hash (ex_req 30)) 1 8 ex_db" and ?t = "scan_transfer (outcome_row (ex_req 30) 1 8 ex_db)"
  let ?w = "quiet_world ?d 20"
  have cb: "can_book (ex_req 30) 1 ex_db" by (rule ex_can_book) simp
  have sv: "serving db_steps ?w"
    using books_ok_book [OF ex_db_books cb refl] by (simp add: serving_def)
  have cl: "claim_of (qIdempotencyKey (ex_req 30)) (disk ?w) = Some (hash (ex_req 30), ?t)"
    using claim_of_book [OF cb] by simp
  obtain x w' where run: "TransferService_Create (ex_req 30) 2 ?w = (Ok x, w')"
    using Create_replay_quiet [of ?w "ex_req 30" "hash (ex_req 30)" ?t 2] cl by auto
  have "tID ?t = 1" "tState ?t = StateProcessed" "qIdempotencyKey (ex_req 30) = ''k''"
    by (simp_all add: scan_transfer_def outcome_row_def booked_row_def funded_def ex_req_def wallet_row_def)
  then show ?thesis
    using create_replays_the_claim [OF sv run cl] run by auto
qed

text \<open>
  A key that was claimed with another request hash is refused with
  \<open>ErrIdempotencyConflict\<close>, and the call changes nothing at all.
\<close>

theorem create_conflict:
  assumes "faults w = []" and "others w = []" and "Validate req = None"
    and "claim_of (qIdempotencyKey req) (disk w) = Some (h, t)" and "h \<noteq> hash req"
  shows "TransferService_Create req u w = (Err ErrIdempotencyConflict, w)"
  using Create_replay_quiet [OF assms(1-4)] assms(5) by simp

lemma length_hash: "length (hash r) = 64"
  by (simp add: hash_def length_EncodeToString length_Sum256)

theorem create_conflict_witness:
  "TransferService_Create (ex_req 30) 2 (quiet_world (book (ex_req 40) ''other'' 1 8 ex_db) 20)
    = (Err ErrIdempotencyConflict, quiet_world (book (ex_req 40) ''other'' 1 8 ex_db) 20)"
proof (rule create_conflict)
  have "can_book (ex_req 40) 1 ex_db" by (rule ex_can_book) simp
  moreover have "qIdempotencyKey (ex_req 30) = qIdempotencyKey (ex_req 40)" by (simp add: ex_req_def)
  ultimately show "claim_of (qIdempotencyKey (ex_req 30)) (disk (quiet_world (book (ex_req 40) ''other'' 1 8 ex_db) 20))
      = Some (''other'', scan_transfer (outcome_row (ex_req 40) 1 8 ex_db))"
    using claim_of_book by simp
  show "''other'' \<noteq> hash (ex_req 30)"
  proof
    assume "''other'' = hash (ex_req 30)"
    then have "length ''other'' = 64" by (simp only: length_hash)
    then show False by simp
  qed
qed simp_all

section \<open>Requests that cannot be booked\<close>

lemma unclaimed_after:
  "seq_only d d' \<Longrightarrow> k \<notin> idem_keys d \<Longrightarrow> claim_of k d' = None"
  using find_idem_None_iff [of k d'] seq_onlyD(4) [of d d'] by (auto simp: claim_of_def idem_keys_def)

text \<open>
  C18: a transfer that would lift the destination balance out of the \<open>int64\<close> range is refused with
  an error and changes no row: the wrapped sum is negative and the CHECK constraint on
  \<open>balance\<close> rejects it.
\<close>

theorem create_overflow_rejected:
  assumes "serving seq_only w" and "TransferService_Create req u w = (r, w')"
    and "find_wallet (qToWalletID req) (disk w) = Some dst" and "funded req (disk w)"
    and "2 ^ 63 \<le> sint (wBalance dst) + sint (qAmount req)"
    and "qIdempotencyKey req \<notin> idem_keys (disk w)"
  shows "(\<exists>e. r = Err e) \<and> seq_only (disk w) (disk w')"
proof -
  have spec: "create_spec seq_only req u (disk w) r (disk w')"
    using quiet.Create_serving [OF assms(1,2)] by blast
  have nb: "\<not> can_book req u d1" if "seq_only (disk w) d1" for d1
  proof -
    have "find_wallet i d1 = find_wallet i (disk w)" for i
      using wallet_tbl.lookup_cong seq_onlyD(1) [OF that] by blast
    then show ?thesis
      using assms(3-5) by (simp add: can_book_def funded_def has_room_def)
  qed
  then show ?thesis
    using spec quiet_create_cases [OF spec] unclaimed_after assms(6)
    by (auto elim: create_spec.cases)
qed

definition ex_full_db :: db where
  "ex_full_db = empty_db\<lparr>wallets := [wallet_row ''a'' 100 7, wallet_row ''b'' 9223372036854775807 7]\<rparr>"

lemma ex_full_books [simp]: "books_ok ex_full_db"
proof -
  have "db_steps empty_db ex_full_db"
    unfolding ex_full_db_def
    by (rule rtranclp.rtrancl_into_rtrancl [OF r_into_rtranclp])
      (use opened [of "''a''" 100 empty_db 7] opened [of "''b''" 9223372036854775807 "empty_db\<lparr>wallets := [wallet_row ''a'' 100 7]\<rparr>" 7]
        in \<open>simp_all add: empty_db_def wallet_ids_def wallet_row_def\<close>)
  then show ?thesis using books_ok_steps books_ok_empty by blast
qed

theorem create_overflow_rejected_witness:
  "(\<exists>e. fst (TransferService_Create (ex_req 30) 9 (quiet_world ex_full_db 8)) = Err e) \<and>
   seq_only ex_full_db (disk (snd (TransferService_Create (ex_req 30) 9 (quiet_world ex_full_db 8))))"
proof -
  let ?w = "quiet_world ex_full_db 8"
  have "serving seq_only ?w" by (simp add: serving_def)
  moreover have "find_wallet (qToWalletID (ex_req 30)) (disk ?w) = Some (wallet_row ''b'' 9223372036854775807 7)"
    "funded (ex_req 30) (disk ?w)" "qIdempotencyKey (ex_req 30) \<notin> idem_keys (disk ?w)"
    by (simp_all add: ex_full_db_def find_wallet_def wallet_row_def ex_req_def funded_def idem_keys_def empty_db_def)
  ultimately show ?thesis
    using create_overflow_rejected [of ?w "ex_req 30" 9, OF _ prod.collapse [symmetric]]
    by (simp add: wallet_row_def ex_req_def)
qed

lemma LockForUpdate_missing:
  assumes "\<not> aborted t" and "ok_next fs" and "text_ok i" and "find_wallet i (view t) = None"
  shows "WalletRepo_LockForUpdate Tx i (in_tx w t fs) = (Err ErrNotFound, in_tx w t (tl fs))"
  using assms by (cases fs) (auto simp: WalletRepo_LockForUpdate_def scanWallet_def query_row_def bind_ok_def
      stmt_Tx_def select_wallet_def map_err_def return_err_def scan_err_def next_fault_def drop_fault_def
      in_tx_def ok_next_def)

lemma LockForUpdate_present:
  assumes "\<not> aborted t" and "ok_next fs" and "text_ok i" and "find_wallet i (view t) = Some x"
  shows "WalletRepo_LockForUpdate Tx i (in_tx w t fs) = (Ok x, in_tx w (add_lock i t) (tl fs))"
  using assms by (simp add: tx_ok)

lemma executeTransfer_missing:
  assumes "\<not> aborted t" and "texts_ok req" and "find_wallet (qFromWalletID req) (view t) = None \<or> find_wallet (qToWalletID req) (view t) = None"
  shows "\<exists>t'. executeTransfer Tx req h u (in_tx w t []) = (Err ErrNotFound, in_tx w t' []) \<and> view t' = view t"
proof -
  let ?a = "min (qFromWalletID req) (qToWalletID req)" and ?b = "max (qFromWalletID req) (qToWalletID req)"
  have m: "find_wallet ?a (view t) = None \<or> find_wallet ?b (view t) = None"
    using assms(3) by (auto simp: min_def max_def)
  note texts = texts_okD(4,5) [OF assms(2)]
  show ?thesis
  proof (cases "find_wallet ?a (view t)")
    case None
    then show ?thesis
      using assms(1) texts by (auto simp: executeTransfer_def orderedPair_min_max bind_ok_def LockForUpdate_missing)
  next
    case (Some x)
    then have "find_wallet ?b (view (add_lock ?a t)) = None" using m by simp
    then show ?thesis
      using assms(1) Some texts
      by (auto simp: executeTransfer_def orderedPair_min_max bind_ok_def LockForUpdate_missing LockForUpdate_present
          intro!: exI [of _ "add_lock ?a t"])
  qed
qed

text \<open>
  A transfer from or to a wallet that does not exist, with ids that a wallet can have, fails with \<open>ErrNotFound\<close> and leaves the
  database exactly as it was; the key stays free.
\<close>

theorem create_unknown_wallet:
  assumes "faults w = []" and "others w = []" and "tx w = None" and "Validate req = None"
    and "qIdempotencyKey req \<notin> idem_keys (disk w)" and "texts_ok req"
    and "qFromWalletID req \<notin> wallet_ids (disk w) \<or> qToWalletID req \<notin> wallet_ids (disk w)"
  shows "\<exists>w'. TransferService_Create req u w = (Err ErrNotFound, w') \<and> disk w' = disk w"
proof -
  let ?t = "\<lparr>view = disk w, locks = [], tx_now = clock w, aborted = False\<rparr>"
  have b: "begun w = in_tx w ?t []"
    using assms(1,2) by (simp add: begun_def Let_def)
  have "find_wallet (qFromWalletID req) (view ?t) = None \<or> find_wallet (qToWalletID req) (view ?t) = None"
    using assms(7) find_wallet_None_iff by auto
  then obtain t' where run: "executeTransfer Tx req (hash req) u (begun w) = (Err ErrNotFound, in_tx w t' [])"
    "view t' = disk w"
    using executeTransfer_missing [of ?t req "hash req" u w] b assms(6) by auto
  have "BeginTx w = (Ok (), begun w)"
    using assms(1,2) by (simp add: BeginTx_def begun_def in_tx_def drop_fault_def next_fault_def Let_def)
  then have "RunInTx (executeTransfer Tx req (hash req) u) w = (Err ErrNotFound, discard t' (in_tx w t' []))"
    using run by (simp add: RunInTx_def Rollback_def next_fault_def Let_def)
  then show ?thesis
    using first_request [of w req u] assms run(2) by (simp add: discard_def texts_ok_def)
qed

theorem create_unknown_wallet_witness:
  "\<exists>w'. TransferService_Create (ex_req 30) 9 (quiet_world empty_db 8) = (Err ErrNotFound, w') \<and> disk w' = empty_db"
  using create_unknown_wallet [of "quiet_world empty_db 8" "ex_req 30" 9]
  by (simp add: empty_db_def idem_keys_def wallet_ids_def)

section \<open>Terminal states and metrics\<close>

lemma claim_terminal:
  assumes "books_ok d" and "claim_of k d = Some (h, t)"
  shows "tState t = StateProcessed \<and> tFailureReason t = '''' \<or>
    tState t = StateFailed \<and> tFailureReason t = ''insufficient funds''"
proof -
  obtain r where "r \<in> set (transfers d)" and t: "t = scan_transfer r"
    using assms(2) transfer_tbl.lookup_SomeD by (auto simp: claim_of_Some)
  then have "row_settled d r"
    using assms(1) by (simp add: books_ok_def list_all_iff)
  then show ?thesis
    using t by (auto simp: row_settled_def scan_transfer_def coalesce_empty_def split: if_splits)
qed

definition same_counts :: "world \<Rightarrow> world \<Rightarrow> bool" where
  "same_counts w w' \<longleftrightarrow> TransfersTotal w' = TransfersTotal w \<and> TransferDuration w' = TransferDuration w"

lemma same_counts_refl [simp]: "same_counts w w"
  by (simp add: same_counts_def)

lemma same_counts_trans: "same_counts a b \<Longrightarrow> same_counts b c \<Longrightarrow> same_counts a c"
  by (simp add: same_counts_def)

lemma interfere_counts [simp]:
  "TransfersTotal (interfere w) = TransfersTotal w" "TransferDuration (interfere w) = TransferDuration w"
  by (simp_all add: interfere_def split: list.splits prod.splits)

lemma stmt_DB_counts: "keeps same_counts (stmt_DB s)"
  by (auto simp: keeps_def stmt_DB_def same_counts_def Let_def split: fault.splits prod.splits sum.splits)

lemma query_row_counts: "keeps same_counts (query_row DB s)"
proof -
  have "keeps same_counts (exec_stmt DB s)"
    using stmt_DB_counts [of s] by (simp add: keeps_def)
  then show ?thesis
    unfolding query_row_def
    by (rule keeps_bind_ok)
      (auto simp: keeps_def return_ok_def return_err_def intro: same_counts_trans split: option.splits)
qed

lemma map_err_counts: "keeps same_counts m \<Longrightarrow> keeps same_counts (map_err f m)"
  unfolding keeps_def map_err_def by (auto split: prod.splits res.splits) (metis snd_conv)+

lemma bind_ok_counts:
  "keeps same_counts m \<Longrightarrow> (\<And>x. keeps same_counts (k x)) \<Longrightarrow> keeps same_counts (bind_ok m k)"
  by (rule keeps_bind_ok) (auto intro: same_counts_trans)

lemma return_ok_counts: "keeps same_counts (return_ok x)"
  by (simp add: keeps_def return_ok_def)

lemma replay_counts: "keeps same_counts (replayIfExists DB k h)"
proof (rule keepsI)
  fix w r w' assume run: "replayIfExists DB k h w = (r, w')"
  have g: "keeps same_counts (IdempotencyRepo_Get DB k)" "keeps same_counts (TransferRepo_Get DB u)" for u
    unfolding IdempotencyRepo_Get_def TransferRepo_Get_def
    by (intro map_err_counts bind_ok_counts query_row_counts return_ok_counts)+
  have b: "keeps same_counts (bind_ok (TransferRepo_Get DB u) (\<lambda>t. return_ok (Some t)))" for u
    by (intro bind_ok_counts g return_ok_counts)
  obtain q v where q: "IdempotencyRepo_Get DB k w = (q, v)" by (metis prod.exhaust)
  show "same_counts w w'"
    using run q keepsD [OF g(1) q] keepsD [OF b]
    by (cases q) (auto simp: replayIfExists_def split: if_splits intro: same_counts_trans)
qed

lemma RunInTx_counts:
  assumes "keeps tx_frame fn"
  shows "keeps same_counts (RunInTx fn)"
proof (rule keepsI)
  fix w r w' assume run: "RunInTx fn w = (r, w')"
  obtain q v where q: "fn (begun w) = (q, v)" by (metis prod.exhaust)
  have s: "same_counts w v"
    using tx_frameD(4,5) [OF keepsD [OF assms q]] by (simp add: same_counts_def)
  have ctl: "same_counts x (snd (Commit x))" "same_counts x (snd (Rollback x))" "same_counts x (snd (BeginTx x))" for x
    by (auto simp: same_counts_def Commit_def Rollback_def BeginTx_def discard_def Let_def
        split: option.splits fault.splits)
  show "same_counts w w'"
    using run BeginTx_cases [of w] q s ctl(1) [of v] ctl(2) [of v] ctl(3) [of w]
    by (auto simp: RunInTx_def split: res.splits prod.splits if_splits intro: same_counts_trans)
qed

text \<open>
  C19: a transfer that \<open>Create\<close> returns is never PENDING: it is PROCESSED without a reason or FAILED
  with the reason insufficient funds. Each such return adds one to the counter of exactly that
  state, replays included; a call that returns an error counts nothing.
\<close>

theorem create_terminal_and_counted:
  assumes "serving db_steps w" and "TransferService_Create req u w = (r, w')"
  shows "case r of
      Ok (Some t) \<Rightarrow>
        (tState t = StateProcessed \<and> tFailureReason t = '''' \<or>
         tState t = StateFailed \<and> tFailureReason t = ''insufficient funds'') \<and>
        TransfersTotal w' = (TransfersTotal w)(tState t := Suc (TransfersTotal w (tState t)))
    | _ \<Rightarrow> TransfersTotal w' = TransfersTotal w"
proof -
  have op: "keeps tx_frame (executeTransfer Tx req h u)" for h
    using executeTransfer_tx_op [of req h u] by (simp add: tx_op_def)
  have counts: "TransfersTotal w' = (case r of Ok (Some t) \<Rightarrow> TransfersTotal (observe (tState t) w) | _ \<Rightarrow> TransfersTotal w)"
  proof -
    obtain r1 w1 where f: "replayIfExists DB (qIdempotencyKey req) (hash req) w = (r1, w1)" by (metis prod.exhaust)
    obtain r2 w2 where s: "RunInTx (executeTransfer Tx req (hash req) u) w1 = (r2, w2)" by (metis prod.exhaust)
    obtain r3 w3 where g: "replayIfExists DB (qIdempotencyKey req) (hash req) w2 = (r3, w3)" by (metis prod.exhaust)
    have "same_counts w w1" "same_counts w1 w2" "same_counts w2 w3"
      using keepsD [OF replay_counts f] keepsD [OF RunInTx_counts [OF op] s] keepsD [OF replay_counts g] .
    then show ?thesis
      using assms(2) f s g
      by (auto simp: TransferService_Create_def Let_def observe_def same_counts_def
          split: option.splits res.splits if_splits)
  qed
  show ?thesis
  proof (cases "\<exists>t. r = Ok (Some t)")
    case True
    then obtain t where t: "r = Ok (Some t)" by blast
    then have "claim_of (qIdempotencyKey req) (disk w') = Some (hash req, t)" and "books_ok (disk w')"
      using service.Create_settles [OF assms(1)] service.Create_serving [OF assms] assms(2)
      by (auto simp: claims_def serving_def)
    then have st: "tState t = StateProcessed \<and> tFailureReason t = '''' \<or>
         tState t = StateFailed \<and> tFailureReason t = ''insufficient funds''"
      by (rule claim_terminal [rotated])
    then show ?thesis
      using counts t by (auto simp: observe_def)
  next
    case False
    then show ?thesis
      using counts by (auto split: res.splits option.splits)
  qed
qed

theorem create_terminal_and_counted_witness:
  "case fst (TransferService_Create (ex_req 500) 9 (ex_world [] [(1, ex_other)])) of
      Ok (Some t) \<Rightarrow> tState t \<noteq> StatePending
    | _ \<Rightarrow> TransfersTotal (snd (TransferService_Create (ex_req 500) 9 (ex_world [] [(1, ex_other)])))
             = TransfersTotal (ex_world [] [(1, ex_other)])"
  using create_terminal_and_counted [OF ex_world_serving(1) [of "[]"],
      of "ex_req 500" 9, OF prod.collapse [symmetric]]
  by (auto split: res.splits option.splits)

section \<open>The request hash\<close>

lemma append_bar_inject:
  "CHR ''|'' \<notin> set a \<Longrightarrow> CHR ''|'' \<notin> set b \<Longrightarrow> a @ CHR ''|'' # x = b @ CHR ''|'' # y \<longleftrightarrow> a = b \<and> x = y"
proof (induction a arbitrary: b)
  case Nil
  then show ?case by (cases b) auto
next
  case (Cons c a)
  then show ?case by (cases b) auto
qed

text \<open>
  C23: for wallet ids without a bar the text that is hashed determines source, destination and
  amount, so requests that differ in one of them are told apart up to collisions of SHA-256.
\<close>

theorem hash_input_determines_request:
  assumes "CHR ''|'' \<notin> set (qFromWalletID r) \<union> set (qToWalletID r) \<union> set (qFromWalletID r') \<union> set (qToWalletID r')"
  shows "hash_input r = hash_input r' \<longleftrightarrow>
    qFromWalletID r = qFromWalletID r' \<and> qToWalletID r = qToWalletID r' \<and> qAmount r = qAmount r'"
  using assms by (auto simp: hash_input_def append_bar_inject intro: signed_word_eqI)

theorem hash_input_determines_request_witness:
  "hash_input (ex_req 30) \<noteq> hash_input (ex_req 40)"
  using hash_input_determines_request [of "ex_req 30" "ex_req 40"] by (simp add: ex_req_def)

text \<open>
  C24: with a bar in an id the separator is ambiguous. A request whose ids split the same text
  differently has the same hash, so a reused key is answered with the transfer of the other
  wallets instead of a conflict.
\<close>

theorem bar_in_wallet_id_confuses_replay:
  assumes "faults w = []" and "others w = []" and "x \<noteq> ''''" and "z \<noteq> ''''"
    and "0 < sint amt" and "k \<noteq> ''''" and "x \<noteq> y @ ''|'' @ z"
    and "claim_of k (disk w) = Some (hash \<lparr>qIdempotencyKey = k, qFromWalletID = x @ ''|'' @ y,
            qToWalletID = z, qAmount = amt\<rparr>, t)"
  shows "TransferService_Create \<lparr>qIdempotencyKey = k, qFromWalletID = x, qToWalletID = y @ ''|'' @ z, qAmount = amt\<rparr> u w
    = (Ok (Some t), observe (tState t) w)"
proof -
  let ?r = "\<lparr>qIdempotencyKey = k, qFromWalletID = x, qToWalletID = y @ ''|'' @ z, qAmount = amt\<rparr>"
  have "hash ?r = hash \<lparr>qIdempotencyKey = k, qFromWalletID = x @ ''|'' @ y, qToWalletID = z, qAmount = amt\<rparr>"
    by (simp add: hash_def hash_input_def)
  moreover have "Validate ?r = None"
    using assms(3-7) by (simp add: Validate_def)
  ultimately show ?thesis
    using Create_replay_quiet [OF assms(1,2), of ?r] assms(8) by simp
qed

theorem bar_in_wallet_id_confuses_replay_witness:
  "\<exists>d t. tFromWalletID t = ''a|b'' \<and> tToWalletID t = ''c'' \<and>
     fst (TransferService_Create \<lparr>qIdempotencyKey = ''k'', qFromWalletID = ''a'', qToWalletID = ''b|c'', qAmount = 5\<rparr> 2
       (quiet_world d 9)) = Ok (Some t)"
proof -
  let ?r = "\<lparr>qIdempotencyKey = ''k'', qFromWalletID = ''a|b'', qToWalletID = ''c'', qAmount = 5 :: int64\<rparr>"
  let ?d0 = "empty_db\<lparr>wallets := [wallet_row ''a|b'' 100 7, wallet_row ''c'' 50 7]\<rparr>"
  let ?t = "scan_transfer (outcome_row ?r 1 8 ?d0)"
  have "can_book ?r 1 ?d0"
    by (simp add: can_book_def texts_ok_def funded_def has_room_def wallet_row_def empty_db_def wallet_ids_def
        idem_keys_def transfer_ids_def find_wallet_def)
  then have "claim_of ''k'' (disk (quiet_world (book ?r (hash ?r) 1 8 ?d0) 9)) = Some (hash ?r, ?t)"
    using claim_of_book [of ?r 1 ?d0 "hash ?r" 8] by simp
  then have "fst (TransferService_Create \<lparr>qIdempotencyKey = ''k'', qFromWalletID = ''a'', qToWalletID = ''b|c'', qAmount = 5\<rparr> 2
      (quiet_world (book ?r (hash ?r) 1 8 ?d0) 9)) = Ok (Some ?t)"
    using bar_in_wallet_id_confuses_replay [of "quiet_world (book ?r (hash ?r) 1 8 ?d0) 9" "''a''" "''c''" 5 "''k''" "''b''" ?t 2]
    by simp
  moreover have "tFromWalletID ?t = ''a|b''" "tToWalletID ?t = ''c''"
    by (simp_all add: scan_transfer_def outcome_row_def booked_row_def)
  ultimately show ?thesis by blast
qed

section \<open>Committed transfers\<close>

lemma record_of_transfer:
  assumes "books_ok d" and "find_transfer i d = Some r"
  shows "\<exists>!x. x \<in> set (idempotency_records d) \<and> irTransferID x = i"
proof -
  have ids: "map irTransferID (idempotency_records d) = map rID (transfers d)"
    using assms(1) by (auto simp: books_ok_def claims_ok_def list_all2_conv_all_nth intro!: nth_equalityI)
  moreover have "distinct (map rID (transfers d))"
    using assms(1) by (simp add: books_ok_def schema_defs)
  ultimately have "inj_on irTransferID (set (idempotency_records d))"
    by (metis distinct_map)
  moreover have "i \<in> irTransferID ` set (idempotency_records d)"
    using ids transfer_tbl.lookup_SomeD [OF assms(2)] by (metis (no_types, lifting) image_eqI list.set_map)
  ultimately show ?thesis
    by (auto dest: inj_onD)
qed

text \<open>
  C15: a committed transfer is settled for good. In every database that calls of the two services
  produce from the empty one, a stored transfer has made one allowed move out of PENDING and no move
  is left; it has its two ledger entries when PROCESSED and none when FAILED; exactly one idempotency
  record leads to it; and no further call of a service changes its row.
\<close>

theorem committed_transfers_are_settled:
  assumes "activity empty_db d" and "activity d d'" and "find_transfer i d = Some r"
  shows "find_transfer i d' = Some r \<and> CanTransitionTo StatePending (rState r) \<and>
    (\<nexists>st. CanTransitionTo (rState r) st) \<and>
    (\<exists>!x. x \<in> set (idempotency_records d') \<and> irTransferID x = i) \<and>
    map entry_view (entries_of i d') =
      (if rState r = StateProcessed
       then [(EntryDebit, rFromWalletID r, rAmount r), (EntryCredit, rToWalletID r, rAmount r)] else [])"
proof -
  have d: "books_ok d"
    using activity_steps [OF assms(1)] books_ok_steps [of empty_db d] by simp
  then have steps: "db_steps d d'"
    using activity_steps [OF assms(2)] by simp
  then have ok: "books_ok d'"
    using books_ok_steps d by blast
  have r: "find_transfer i d' = Some r"
    using extends_find(2) [OF extends_steps [OF steps] assms(3)] .
  then have "r \<in> set (transfers d')" "rID r = i"
    using transfer_tbl.lookup_SomeD by blast+
  then have "row_settled d' r"
    using ok by (auto simp: books_ok_def list_all_iff)
  then show ?thesis
    using r record_of_transfer [OF ok r] \<open>rID r = i\<close>
    by (auto simp: row_settled_def CanTransitionTo_def StatePending_def StateProcessed_def StateFailed_def split: if_splits)
qed

theorem committed_transfers_are_settled_witness:
  "\<exists>r. find_transfer 9 (disk (snd (TransferService_Create (ex_req 30) 9 (quiet_world ex_db 8)))) = Some r \<and>
     rState r = StateProcessed \<and> CanTransitionTo StatePending (rState r)"
proof -
  let ?d = "book (ex_req 30) (hash (ex_req 30)) 9 8 ex_db"
  have run: "disk (snd (TransferService_Create (ex_req 30) 9 (quiet_world ex_db 8))) = ?d"
    using Create_books_quiet [of "quiet_world ex_db 8" "ex_req 30" 9] ex_can_book [of 30 9] by auto
  have "funded (ex_req 30) ex_db" "transfers ex_db = []"
    by (simp_all add: funded_def ex_req_def wallet_row_def) (simp add: ex_db_def empty_db_def)
  then have "find_transfer 9 ?d = Some (outcome_row (ex_req 30) 9 8 ex_db)"
      "rState (outcome_row (ex_req 30) 9 8 ex_db) = StateProcessed"
    by (simp_all add: find_transfer_def outcome_row_def booked_row_def)
  with committed_transfers_are_settled [OF activity_trans [OF ex_booked_activity ex_db_activity] idle this(1)] run
  show ?thesis by auto
qed

end
