(* ===== verification/Listing.thy ===== *)
theory Listing
  imports Transfer_Props "HOL-Library.Multiset"
begin

text \<open>
  The paginated transfer history, \<open>ListTransfersByWallet\<close> of the service over the keyset query of
  the repository: what one page holds, and what a client collects that follows the cursor to
  the end.
\<close>

section \<open>ORDER BY created_at DESC, id DESC\<close>

lemma newer_trans: "newer_first a b \<Longrightarrow> newer_first b c \<Longrightarrow> newer_first a c"
  by (auto simp: newer_first_def)

lemma newer_total: "\<not> newer_first a b \<Longrightarrow> newer_first b a"
  by (auto simp: newer_first_def)

lemma mset_insert_newer [simp]: "mset (insert_newer r xs) = add_mset r (mset xs)"
  by (induction xs) auto

lemma set_insert_newer [simp]: "set (insert_newer r xs) = insert r (set xs)"
  by (induction xs) auto

lemma mset_order_newer [simp]: "mset (order_newer rs) = mset rs"
  by (induction rs) (simp_all add: order_newer_def)

lemma set_order_newer [simp]: "set (order_newer rs) = set rs"
  by (metis mset_order_newer set_mset_mset)

lemma sorted_insert_newer:
  "sorted_wrt newer_first xs \<Longrightarrow> sorted_wrt newer_first (insert_newer r xs)"
  by (induction xs) (auto intro: newer_trans newer_total)

lemma sorted_order_newer: "sorted_wrt newer_first (order_newer rs)"
  by (induction rs) (simp_all add: order_newer_def sorted_insert_newer)

lemma insert_newer_front: "(\<And>y. y \<in> set ys \<Longrightarrow> newer_first r y) \<Longrightarrow> insert_newer r ys = r # ys"
  by (cases ys) auto

lemma filter_insert_newer:
  "sorted_wrt newer_first xs \<Longrightarrow>
     filter P (insert_newer r xs) = (if P r then insert_newer r (filter P xs) else filter P xs)"
proof (induction xs)
  case (Cons x xs)
  show ?case
  proof (cases "newer_first r x")
    case True
    then have "insert_newer r (filter P (x # xs)) = r # filter P (x # xs)"
      using Cons.prems by (intro insert_newer_front) (auto intro: newer_trans split: if_splits)
    then show ?thesis using True by simp
  next
    case False
    then show ?thesis using Cons by auto
  qed
qed simp

lemma filter_order_newer: "filter P (order_newer rs) = order_newer (filter P rs)"
  by (induction rs) (simp_all add: order_newer_def filter_insert_newer sorted_order_newer [unfolded order_newer_def])

section \<open>One page\<close>

text \<open>The whole history of a wallet in the order the pages show it.\<close>

definition history :: "string \<Rightarrow> db \<Rightarrow> transfer_row list" where
  "history i d = order_newer (filter (history_match i None) (transfers d))"

definition older :: "time option \<Rightarrow> transfer_row \<Rightarrow> bool" where
  "older before r \<longleftrightarrow> (case before of None \<Rightarrow> True | Some b \<Rightarrow> rCreatedAt r < b)"

lemma history_matching: "order_newer (filter (history_match i before) (transfers d)) = filter (older before) (history i d)"
proof -
  have "history_match i before = (\<lambda>r. history_match i None r \<and> older before r)"
    by (auto simp: history_match_def older_def)
  then show ?thesis
    by (simp add: history_def filter_order_newer)
qed

lemma clamp_limit_range: "1 \<le> clamp_limit l" "clamp_limit l \<le> 200" "1 \<le> l \<Longrightarrow> l \<le> 200 \<Longrightarrow> clamp_limit l = l"
  by (simp_all add: clamp_limit_def DefaultTransferListLimit_def MaxTransferListLimit_def Let_def)

definition page :: "string \<Rightarrow> int \<Rightarrow> time option \<Rightarrow> db \<Rightarrow> transfer_row list" where
  "page i l before d = take (nat (clamp_limit l)) (filter (older before) (history i d))"

definition next_cursor :: "int \<Rightarrow> transfer_row list \<Rightarrow> time option" where
  "next_cursor l rs = (if length rs = nat (clamp_limit l) then Some (rCreatedAt (last rs)) else None)"

lemma last_nth: "xs \<noteq> [] \<Longrightarrow> xs ! (length xs - 1) = last xs"
  by (simp add: last_conv_nth)

lemma ListTransfers_quiet:
  assumes "faults w = []" and "others w = []" and "i \<noteq> ''''" and "text_ok i"
  shows "TransferService_ListTransfersByWallet i l before w =
    (Ok (map scan_transfer (page i l before (disk w)), next_cursor l (page i l before (disk w))), w)"
proof -
  let ?rs = "page i l before (disk w)"
  have "0 \<le> clamp_limit l" using clamp_limit_range(1) [of l] by simp
  moreover have "?rs \<noteq> []" if "int (length ?rs) = clamp_limit l"
    using that clamp_limit_range(1) [of l] by auto
  then have "int (length ?rs) = clamp_limit l \<Longrightarrow> map scan_transfer ?rs ! (length ?rs - 1) = scan_transfer (last ?rs)"
    using last_nth [of ?rs] by (metis diff_less length_greater_0_conv nth_map zero_less_one)
  ultimately show ?thesis
    using assms
    by (auto simp: TransferService_ListTransfersByWallet_def TransferRepo_ListByWallet_def Let_def
        bind_ok_def stmt_DB_def select_history_def map_err_def return_ok_def next_fault_def rows_Err_def
        history_matching page_def [symmetric] next_cursor_def scan_transfer_def)
qed

lemma ListTransfers_refused:
  assumes "faults w = []" and "others w = []" and "i \<noteq> ''''" and "\<not> text_ok i"
  shows "TransferService_ListTransfersByWallet i l before w = (Err (wrap ''list transfers by wallet'' invalid_text), w)"
  using assms
  by (simp add: TransferService_ListTransfersByWallet_def TransferRepo_ListByWallet_def Let_def
      bind_ok_def stmt_DB_def select_history_def map_err_def next_fault_def wrap_def)

text \<open>
  C22: a page holds the newest matching transfers older than the cursor and nothing else, newest
  first; it is at most the clamped limit long, never above 200; and a next cursor is returned
  exactly when the page is full. An id that is no valid text is an error, and no page.
\<close>

theorem list_page:
  assumes "faults w = []" and "others w = []" and "i \<noteq> ''''"
  shows "if text_ok i
    then \<exists>rs rest next. TransferService_ListTransfersByWallet i l before w = (Ok (map scan_transfer rs, next), w) \<and>
      mset (rs @ rest) = filter_mset (history_match i before) (mset (transfers (disk w))) \<and>
      sorted_wrt newer_first (rs @ rest) \<and>
      int (length rs) \<le> clamp_limit l \<and> clamp_limit l \<le> 200 \<and>
      (int (length rs) < clamp_limit l \<longrightarrow> rest = []) \<and>
      (next = None \<longleftrightarrow> int (length rs) < clamp_limit l)
    else TransferService_ListTransfersByWallet i l before w = (Err (wrap ''list transfers by wallet'' invalid_text), w)"
proof (cases "text_ok i")
  case True
  let ?all = "order_newer (filter (history_match i before) (transfers (disk w)))" and ?n = "nat (clamp_limit l)"
  have rs: "page i l before (disk w) = take ?n ?all"
    by (simp add: page_def history_matching)
  have "mset (take ?n ?all @ drop ?n ?all) = filter_mset (history_match i before) (mset (transfers (disk w)))"
    by (simp only: append_take_drop_id mset_order_newer mset_filter)
  moreover have "sorted_wrt newer_first (take ?n ?all @ drop ?n ?all)"
    by (simp only: append_take_drop_id sorted_order_newer)
  ultimately have "\<exists>rs rest next. TransferService_ListTransfersByWallet i l before w = (Ok (map scan_transfer rs, next), w) \<and>
      mset (rs @ rest) = filter_mset (history_match i before) (mset (transfers (disk w))) \<and>
      sorted_wrt newer_first (rs @ rest) \<and>
      int (length rs) \<le> clamp_limit l \<and> clamp_limit l \<le> 200 \<and>
      (int (length rs) < clamp_limit l \<longrightarrow> rest = []) \<and>
      (next = None \<longleftrightarrow> int (length rs) < clamp_limit l)"
    using ListTransfers_quiet [OF assms True, of l before] clamp_limit_range(1,2) [of l] rs
    by (intro exI [of _ "take ?n ?all"] exI [of _ "drop ?n ?all"] exI [of _ "next_cursor l (take ?n ?all)"])
      (auto simp: next_cursor_def)
  then show ?thesis using True by simp
next
  case False
  then show ?thesis using ListTransfers_refused [OF assms] by simp
qed

section \<open>Following the cursor\<close>

text \<open>
  A client that asks for pages until there is no next cursor, at most \<open>n\<close> times; \<open>None\<close> when
  it gives up or a call fails.
\<close>

fun follow :: "nat \<Rightarrow> string \<Rightarrow> int \<Rightarrow> time option \<Rightarrow> world \<Rightarrow> Transfer list option" where
  "follow 0 i l before w = None"
| "follow (Suc n) i l before w =
     (case TransferService_ListTransfersByWallet i l before w of
        (Ok (ts, None), w') \<Rightarrow> Some ts
      | (Ok (ts, Some c), w') \<Rightarrow> map_option (append ts) (follow n i l (Some c) w')
      | _ \<Rightarrow> None)"

lemma follow_step:
  assumes "faults w = []" and "others w = []" and "i \<noteq> ''''" and "text_ok i"
  shows "follow (Suc n) i l before w =
    (case next_cursor l (page i l before (disk w)) of
       None \<Rightarrow> Some (map scan_transfer (page i l before (disk w)))
     | Some c \<Rightarrow> map_option (append (map scan_transfer (page i l before (disk w)))) (follow n i l (Some c) w))"
  using ListTransfers_quiet [OF assms, of l before] by (simp split: option.splits)

lemma older_suffix:
  assumes "sorted_wrt (\<lambda>a b. rCreatedAt b < rCreatedAt a) (xs @ y # zs)"
  shows "filter (older (Some (rCreatedAt y))) (xs @ y # zs) = zs"
proof -
  have "filter (older (Some (rCreatedAt y))) xs = []" "filter (older (Some (rCreatedAt y))) zs = zs"
    using assms by (auto simp: sorted_wrt_append older_def filter_empty_conv filter_id_conv)
  then show ?thesis by (simp add: older_def)
qed

lemma older_nth:
  assumes "sorted_wrt (\<lambda>a b. rCreatedAt b < rCreatedAt a) H" and "m < length H"
  shows "filter (older (Some (rCreatedAt (H ! m)))) H = drop (Suc m) H"
  using older_suffix [of "take m H" "H ! m" "drop (Suc m) H"] assms(1) id_take_nth_drop [OF assms(2)]
  by metis

lemma history_strict:
  assumes "distinct (map rCreatedAt (history i d))"
  shows "sorted_wrt (\<lambda>a b. rCreatedAt b < rCreatedAt a) (history i d)"
proof -
  have "sorted_wrt newer_first (history i d)"
    by (simp add: history_def sorted_order_newer)
  then show ?thesis
    using assms
    by (induction "history i d" rule: rev_induct) (auto simp: newer_first_def sorted_wrt_iff_nth_less distinct_conv_nth)
qed

lemma follow_remaining:
  assumes q: "faults w = []" "others w = []" "i \<noteq> ''''" "text_ok i"
    and strict: "sorted_wrt (\<lambda>a b. rCreatedAt b < rCreatedAt a) (history i (disk w))"
  shows "filter (older before) (history i (disk w)) = drop k (history i (disk w)) \<Longrightarrow>
    length (history i (disk w)) - k < n \<Longrightarrow>
    follow n i l before w = Some (map scan_transfer (drop k (history i (disk w))))"
proof (induction n arbitrary: before k)
  case (Suc n)
  let ?H = "history i (disk w)" and ?N = "nat (clamp_limit l)"
  have N: "1 \<le> ?N" using clamp_limit_range(1) [of l] by simp
  have pg: "page i l before (disk w) = take ?N (drop k ?H)"
    using Suc.prems(1) by (simp add: page_def)
  show ?case
  proof (cases "?N \<le> length ?H - k")
    case False
    then show ?thesis
      using follow_step [OF q, of n l before] pg by (simp add: next_cursor_def)
  next
    case True
    let ?m = "k + ?N - 1"
    have m: "?m < length ?H" "Suc ?m = k + ?N" using True N by auto
    have "take ?N (drop k ?H) \<noteq> []" using True N by auto
    then have "last (take ?N (drop k ?H)) = ?H ! ?m"
      using True N by (simp add: last_conv_nth min_def)
    then have nc: "next_cursor l (page i l before (disk w)) = Some (rCreatedAt (?H ! ?m))"
      using True by (simp add: next_cursor_def pg)
    have "filter (older (Some (rCreatedAt (?H ! ?m)))) ?H = drop (k + ?N) ?H"
      using older_nth [OF strict m(1)] m(2) by simp
    then have "follow n i l (Some (rCreatedAt (?H ! ?m))) w = Some (map scan_transfer (drop (k + ?N) ?H))"
      using Suc.IH Suc.prems(2) True N by simp
    moreover have "take ?N (drop k ?H) @ drop (k + ?N) ?H = drop k ?H"
      by (metis append_take_drop_id drop_drop add.commute)
    then have "map scan_transfer (take ?N (drop k ?H)) @ map scan_transfer (drop (k + ?N) ?H) = map scan_transfer (drop k ?H)"
      by (metis map_append)
    ultimately show ?thesis
      using follow_step [OF q, of n l before] nc pg by simp
  qed
qed simp

text \<open>
  C20: when no two transfers of the wallet share their \<open>created_at\<close>, following the cursor
  ends, and the pages together are the whole history of the wallet, each transfer once, newest
  first, for every page size a client may ask for.
\<close>

theorem pagination_complete:
  assumes "faults w = []" and "others w = []" and "i \<noteq> ''''" and "text_ok i"
    and "distinct (map rCreatedAt (filter (history_match i None) (transfers (disk w))))"
    and "length (transfers (disk w)) < n"
  shows "\<exists>rs. follow n i l None w = Some (map scan_transfer rs) \<and>
    mset rs = filter_mset (history_match i None) (mset (transfers (disk w))) \<and> sorted_wrt newer_first rs"
proof -
  let ?H = "history i (disk w)"
  have H: "mset ?H = filter_mset (history_match i None) (mset (transfers (disk w)))" "sorted_wrt newer_first ?H"
    by (simp_all add: history_def sorted_order_newer)
  have "mset (map rCreatedAt ?H) = mset (map rCreatedAt (filter (history_match i None) (transfers (disk w))))"
    using H(1) by simp
  then have "distinct (map rCreatedAt ?H)"
    using assms(5) mset_eq_imp_distinct_iff by blast
  then have strict: "sorted_wrt (\<lambda>a b. rCreatedAt b < rCreatedAt a) ?H"
    by (rule history_strict)
  have "length ?H \<le> length (transfers (disk w))"
    using H(1) by (metis size_mset size_filter_mset_lesseq)
  moreover have "filter (older None) ?H = drop 0 ?H"
    by (simp add: older_def)
  ultimately have "follow n i l None w = Some (map scan_transfer (drop 0 ?H))"
    using follow_remaining [OF assms(1-4) strict, of None 0 n l] assms(6) by simp
  then show ?thesis using H by auto
qed

section \<open>Equal timestamps\<close>

lemma follow_older:
  assumes q: "faults w = []" "others w = []" "i \<noteq> ''''" "text_ok i"
  shows "follow n i l (Some c) w = Some ts \<Longrightarrow> t \<in> set ts \<Longrightarrow> tCreatedAt t < c"
proof (induction n arbitrary: c ts)
  case (Suc n)
  let ?p = "page i l (Some c) (disk w)"
  have old: "rCreatedAt r < c" if "r \<in> set ?p" for r
    using that by (auto simp: page_def older_def dest: in_set_takeD)
  show ?case
  proof (cases "next_cursor l ?p")
    case None
    then show ?thesis
      using Suc.prems old follow_step [OF q, of n l "Some c"] by (auto simp: scan_transfer_def)
  next
    case (Some c')
    then have "?p \<noteq> []" "c' = rCreatedAt (last ?p)"
      using clamp_limit_range(1) [of l] by (auto simp: next_cursor_def split: if_splits)
    then have "c' < c" using old last_in_set by blast
    moreover obtain us where us: "follow n i l (Some c') w = Some us" "ts = map scan_transfer ?p @ us"
      using Suc.prems(1) Some follow_step [OF q, of n l "Some c"] by (cases "follow n i l (Some c') w") auto
    ultimately show ?thesis
      using Suc.prems(2) Suc.IH [OF us(1)] old by (auto simp: scan_transfer_def)
  qed
qed simp

text \<open>Each page moves the cursor past at least one row, so following it ends, ties or not.\<close>

lemma follow_returns:
  assumes q: "faults w = []" "others w = []" "i \<noteq> ''''" "text_ok i"
  shows "length (filter (older before) (history i (disk w))) < n \<Longrightarrow> \<exists>ts. follow n i l before w = Some ts"
proof (induction n arbitrary: before)
  case (Suc n)
  let ?H = "history i (disk w)" and ?p = "page i l before (disk w)"
  show ?case
  proof (cases "next_cursor l ?p")
    case None
    then show ?thesis using follow_step [OF q, of n l before] by simp
  next
    case (Some c)
    then have "?p \<noteq> []" and c: "c = rCreatedAt (last ?p)"
      using clamp_limit_range(1) [of l] by (auto simp: next_cursor_def split: if_splits)
    then have last: "last ?p \<in> set (filter (older before) ?H)"
      using in_set_takeD [of "last ?p"] last_in_set unfolding page_def by blast
    then have "older (Some c) r \<Longrightarrow> older before r" for r
      using c by (auto simp: older_def split: option.splits)
    then have "filter (older (Some c)) ?H = filter (older (Some c)) (filter (older before) ?H)"
      by (auto intro: filter_cong)
    moreover have "length (filter (older (Some c)) (filter (older before) ?H)) < length (filter (older before) ?H)"
      by (rule length_filter_less [OF last]) (simp add: c older_def)
    ultimately obtain us where "follow n i l (Some c) w = Some us"
      using Suc by fastforce
    then show ?thesis
      using follow_step [OF q, of n l before] Some by simp
  qed
qed simp

text \<open>
  C21: the cursor is the \<open>created_at\<close> of the last row alone. A client that follows it gets to the
  end, within as many pages as there are transfers and one more; but every transfer that shares
  \<open>created_at\<close> with the last row of the first page and comes after that row is on no page at all.
\<close>

theorem tied_transfer_is_skipped:
  assumes "faults w = []" and "others w = []" and "i \<noteq> ''''" and "text_ok i"
    and "distinct (map rID (transfers (disk w)))"
    and "history i (disk w) = xs @ y # zs" and "int (length xs) + 1 = clamp_limit l"
    and "length (transfers (disk w)) < n"
  shows "\<exists>ts. follow n i l None w = Some ts \<and>
    (\<forall>z\<in>set zs. rCreatedAt z = rCreatedAt y \<longrightarrow> scan_transfer z \<notin> set ts)"
proof -
  let ?H = "history i (disk w)"
  note q = assms(1-4)
  have H: "mset ?H = filter_mset (history_match i None) (mset (transfers (disk w)))"
    by (simp add: history_def)
  have "length ?H \<le> length (transfers (disk w))"
    using H by (metis size_mset size_filter_mset_lesseq)
  then obtain ts where ts: "follow n i l None w = Some ts"
    using follow_returns [OF q, of None n l] assms(8) by (auto simp: older_def)
  have "mset (map rID ?H) = mset (map rID (filter (history_match i None) (transfers (disk w))))"
    using H by simp
  moreover have "distinct (map rID (filter (history_match i None) (transfers (disk w))))"
    using assms(5) by (rule distinct_map_filter)
  ultimately have "distinct (map rID ?H)"
    using mset_eq_imp_distinct_iff by blast
  then have fresh: "rID z \<notin> rID ` set (xs @ [y])" if "z \<in> set zs" for z
    using imageI [OF that, of rID] assms(6) by auto
  obtain m where m: "n = Suc m" using assms(8) by (cases n) auto
  have N: "nat (clamp_limit l) = Suc (length xs)" using assms(7) by simp
  then have pg: "page i l None (disk w) = xs @ [y]"
    using assms(6) by (simp add: page_def older_def)
  then have "next_cursor l (xs @ [y]) = Some (rCreatedAt y)"
    using N by (simp add: next_cursor_def)
  then obtain us where us: "follow m i l (Some (rCreatedAt y)) w = Some us" "ts = map scan_transfer (xs @ [y]) @ us"
    using ts m follow_step [OF q, of m l None] pg
    by (cases "follow m i l (Some (rCreatedAt y)) w") auto
  have "scan_transfer z \<notin> set ts" if z: "z \<in> set zs" "rCreatedAt z = rCreatedAt y" for z
  proof -
    have "scan_transfer z \<notin> set (map scan_transfer (xs @ [y]))"
      using fresh [OF z(1)] by (auto simp: scan_transfer_def)
    moreover have "scan_transfer z \<notin> set us"
      using follow_older [OF q us(1)] z(2) by (fastforce simp: scan_transfer_def)
    ultimately show ?thesis using us(2) by simp
  qed
  then show ?thesis using ts by blast
qed

section \<open>Examples\<close>

definition ex_row :: "uuid \<Rightarrow> time \<Rightarrow> transfer_row" where
  "ex_row u c = \<lparr>rID = u, rFromWalletID = ''a'', rToWalletID = ''b'', rAmount = 1, rState = StateProcessed,
     rFailureReason = None, rCreatedAt = c, rUpdatedAt = c\<rparr>"

definition ex_history :: "(uuid \<times> time) list \<Rightarrow> world" where
  "ex_history us = quiet_world (empty_db\<lparr>transfers := map (\<lambda>(u, c). ex_row u c) us\<rparr>) 50"

lemma ex_history_sel [simp]:
  "faults (ex_history us) = []" "others (ex_history us) = []"
  "transfers (disk (ex_history us)) = map (\<lambda>(u, c). ex_row u c) us"
  by (simp_all add: ex_history_def)

lemma ex_row_match [simp]: "history_match ''a'' None (ex_row u c)"
  by (simp add: history_match_def ex_row_def)

lemma ex_history_all: "filter (history_match ''a'' None) (map (\<lambda>(u, c). ex_row u c) us) = map (\<lambda>(u, c). ex_row u c) us"
  by (auto simp: filter_id_conv history_match_def ex_row_def)

theorem list_page_witness:
  "\<exists>rs rest next. TransferService_ListTransfersByWallet ''a'' 2 (Some 9) (ex_history [(1, 5), (2, 6), (3, 7)])
      = (Ok (map scan_transfer rs, next), ex_history [(1, 5), (2, 6), (3, 7)]) \<and> int (length rs) \<le> 2"
  using list_page [of "ex_history [(1, 5), (2, 6), (3, 7)]" "''a''" 2 "Some 9"] clamp_limit_range(3) [of 2]
  by auto

theorem pagination_complete_witness:
  "\<exists>rs. follow 4 ''a'' 2 None (ex_history [(1, 5), (2, 6), (3, 7)]) = Some (map scan_transfer rs) \<and>
     mset rs = {#ex_row 1 5, ex_row 2 6, ex_row 3 7#} \<and> sorted_wrt newer_first rs"
proof -
  have "distinct (map rCreatedAt [ex_row 1 5, ex_row 2 6, ex_row 3 7])"
    by (simp add: ex_row_def)
  then show ?thesis
    using pagination_complete [of "ex_history [(1, 5), (2, 6), (3, 7)]" "''a''" 4 2] by simp
qed

theorem tied_transfer_is_skipped_witness:
  "\<exists>ts. follow 4 ''a'' 1 None (ex_history [(1, 5), (2, 5), (3, 5)]) = Some ts \<and>
     scan_transfer (ex_row 1 5) \<notin> set ts \<and> scan_transfer (ex_row 2 5) \<notin> set ts"
proof -
  let ?w = "ex_history [(1, 5), (2, 5), (3, 5)]"
  have "history ''a'' (disk ?w) = order_newer [ex_row 1 5, ex_row 2 5, ex_row 3 5]"
    using ex_history_all [of "[(1, 5), (2, 5), (3, 5)]"] by (simp add: history_def)
  then have H: "history ''a'' (disk ?w) = [] @ ex_row 3 5 # [ex_row 2 5, ex_row 1 5]"
    by (simp add: order_newer_def newer_first_def ex_row_def word_le_nat_alt)
  have c: "clamp_limit 1 = 1" by (rule clamp_limit_range(3)) simp_all
  have "\<exists>ts. follow 4 ''a'' 1 None ?w = Some ts \<and>
      (\<forall>z\<in>set [ex_row 2 5, ex_row 1 5]. rCreatedAt z = rCreatedAt (ex_row 3 5) \<longrightarrow> scan_transfer z \<notin> set ts)"
    by (rule tied_transfer_is_skipped [OF _ _ _ _ _ H]) (simp_all add: c ex_row_def)
  then show ?thesis by (auto simp: ex_row_def)
qed

end
