(* ===== verification/Concurrency.thy ===== *)
theory Concurrency
  imports Transfer_Props "HOL-Library.Multiset"
begin

text \<open>
  Many calls of \<open>executeTransfer\<close> at once, statement by statement. A session is one open
  transaction: the wallets it has locked, the key it has inserted and not yet committed, what it
  read, and the sequence values it drew; its writes stay private until it commits. A session waits
  for a row lock, and for the unique index on the idempotency key while another open transaction
  has inserted the same key. The theorems say that the calls never wait for each other in a
  circle, that all of them can finish, and that what they commit is what they would have committed
  one after the other, which is the atomic effect \<open>book\<close> that the sequential theories work with.
  The ids of ledger entries are exempt: the sequence is drawn outside of any transaction.

  Three groups of statements are one step each, because no other session can wait for them or see
  them apart: the two reads under the locks, the two balance updates of the locked rows, and the
  last update of the state together with the commit. Wallets are not opened meanwhile.
\<close>

section \<open>Sessions\<close>

text \<open>What the next statement of the session is.\<close>

datatype stage =
    Begun | LockedFirst | LockedBoth | Fetched | Inserted | Claimed | Paid | Debited | Credited
  | Committed | RolledBack

record session =
  sReq :: CreateTransferRequest
  sID :: uuid
  sNow :: time
  sStage :: stage
  sSrc :: Wallet
  sDst :: Wallet
  sDebitID :: nat
  sCreditID :: nat

definition firstID :: "session \<Rightarrow> string" where
  "firstID s = fst (orderedPair (qFromWalletID (sReq s)) (qToWalletID (sReq s)))"

definition secondID :: "session \<Rightarrow> string" where
  "secondID s = snd (orderedPair (qFromWalletID (sReq s)) (qToWalletID (sReq s)))"

definition held :: "session \<Rightarrow> string set" where
  "held s =
     (if sStage s \<in> {Begun, Committed, RolledBack} then {}
      else if sStage s = LockedFirst then {firstID s}
      else {firstID s, secondID s})"

definition key_held :: "session \<Rightarrow> string set" where
  "key_held s =
     (if sStage s \<in> {Claimed, Paid, Debited, Credited} then {qIdempotencyKey (sReq s)} else {})"

definition finished :: "session \<Rightarrow> bool" where
  "finished s \<longleftrightarrow> sStage s = Committed \<or> sStage s = RolledBack"

record conc =
  base :: db
  sessions :: "session list"

definition free_wallet :: "string \<Rightarrow> conc \<Rightarrow> nat \<Rightarrow> bool" where
  "free_wallet w c i \<longleftrightarrow> (\<forall>j<length (sessions c). j \<noteq> i \<longrightarrow> w \<notin> held (sessions c ! j))"

definition free_key :: "string \<Rightarrow> conc \<Rightarrow> nat \<Rightarrow> bool" where
  "free_key k c i \<longleftrightarrow> (\<forall>j<length (sessions c). j \<noteq> i \<longrightarrow> k \<notin> key_held (sessions c ! j))"

section \<open>Statements\<close>

definition covers :: "session \<Rightarrow> bool" where
  "covers s \<longleftrightarrow> sint (qAmount (sReq s)) \<le> sint (wBalance (sSrc s))"

text \<open>The private writes of a paid transfer, applied when it commits.\<close>

definition write_balances :: "session \<Rightarrow> Wallet \<Rightarrow> Wallet" where
  "write_balances s w =
     (if wID w = qFromWalletID (sReq s)
      then w\<lparr>wBalance := wBalance (sSrc s) - qAmount (sReq s), wUpdatedAt := sNow s\<rparr>
      else if wID w = qToWalletID (sReq s)
      then w\<lparr>wBalance := wBalance (sDst s) + qAmount (sReq s), wUpdatedAt := sNow s\<rparr>
      else w)"

definition publish :: "session \<Rightarrow> db \<Rightarrow> db" where
  "publish s d =
     (let req = sReq s; u = sID s; now = sNow s;
          d' = d\<lparr>idempotency_records := idempotency_records d @ [claim_row req (hash req) u now]\<rparr>
      in if sStage s = Credited then
           d'\<lparr>wallets := map (write_balances s) (wallets d),
              transfers := transfers d @ [booked_row req u now StateProcessed None],
              ledger_entries := ledger_entries d @
                [booked_entry req u now (sDebitID s) (qFromWalletID req) EntryDebit,
                 booked_entry req u now (sCreditID s) (qToWalletID req) EntryCredit]\<rparr>
         else
           d'\<lparr>transfers := transfers d @ [booked_row req u now StateFailed (Some ''insufficient funds'')]\<rparr>)"

text \<open>A session moves to its next stage; some statements also change it or draw from the sequence.\<close>

definition put :: "conc \<Rightarrow> nat \<Rightarrow> session \<Rightarrow> conc" where
  "put c i s = c\<lparr>sessions := (sessions c)[i := s]\<rparr>"

definition draw :: "conc \<Rightarrow> conc" where
  "draw c = c\<lparr>base := (base c)\<lparr>ledger_seq := Suc (ledger_seq (base c))\<rparr>\<rparr>"

text \<open>A statement that the database refuses aborts the transaction.\<close>

definition refused :: "session \<Rightarrow> db \<Rightarrow> bool" where
  "refused s d \<longleftrightarrow>
     (case sStage s of
        Begun \<Rightarrow> firstID s \<notin> wallet_ids d
      | LockedFirst \<Rightarrow> secondID s \<notin> wallet_ids d
      | Fetched \<Rightarrow> sID s \<in> transfer_ids d
      | Inserted \<Rightarrow> qIdempotencyKey (sReq s) \<in> idem_keys d \<or> \<not> text_ok (qIdempotencyKey (sReq s))
      | Claimed \<Rightarrow> covers s \<and> sint (wBalance (sDst s) + qAmount (sReq s)) < 0
      | Paid \<Rightarrow> ledger_seq d + 1 \<ge> 2 ^ 63
      | Debited \<Rightarrow> ledger_seq d + 1 \<ge> 2 ^ 63
      | _ \<Rightarrow> False)"

text \<open>
  \<open>advance i c c'\<close>: session \<open>i\<close> executes its next statement. \<open>conc_step\<close> adds that a session may
  be killed at any time: a lost connection, a cancelled context, a failed commit.
\<close>

inductive advance :: "nat \<Rightarrow> conc \<Rightarrow> conc \<Rightarrow> bool" for i c where
  lock_first: "i < length (sessions c) \<Longrightarrow> s = sessions c ! i \<Longrightarrow> sStage s = Begun \<Longrightarrow>
    \<not> refused s (base c) \<Longrightarrow> free_wallet (firstID s) c i \<Longrightarrow>
    advance i c (put c i (s\<lparr>sStage := LockedFirst\<rparr>))"
| lock_second: "i < length (sessions c) \<Longrightarrow> s = sessions c ! i \<Longrightarrow> sStage s = LockedFirst \<Longrightarrow>
    \<not> refused s (base c) \<Longrightarrow> free_wallet (secondID s) c i \<Longrightarrow>
    advance i c (put c i (s\<lparr>sStage := LockedBoth\<rparr>))"
| fetch: "i < length (sessions c) \<Longrightarrow> s = sessions c ! i \<Longrightarrow> sStage s = LockedBoth \<Longrightarrow>
    find_wallet (qFromWalletID (sReq s)) (base c) = Some src \<Longrightarrow>
    find_wallet (qToWalletID (sReq s)) (base c) = Some dst \<Longrightarrow>
    advance i c (put c i (s\<lparr>sStage := Fetched, sSrc := src, sDst := dst\<rparr>))"
| insert_transfer: "i < length (sessions c) \<Longrightarrow> s = sessions c ! i \<Longrightarrow> sStage s = Fetched \<Longrightarrow>
    \<not> refused s (base c) \<Longrightarrow> advance i c (put c i (s\<lparr>sStage := Inserted\<rparr>))"
| claim_key: "i < length (sessions c) \<Longrightarrow> s = sessions c ! i \<Longrightarrow> sStage s = Inserted \<Longrightarrow>
    \<not> refused s (base c) \<Longrightarrow> free_key (qIdempotencyKey (sReq s)) c i \<Longrightarrow>
    advance i c (put c i (s\<lparr>sStage := Claimed\<rparr>))"
| pay: "i < length (sessions c) \<Longrightarrow> s = sessions c ! i \<Longrightarrow> sStage s = Claimed \<Longrightarrow> covers s \<Longrightarrow>
    \<not> refused s (base c) \<Longrightarrow> advance i c (put c i (s\<lparr>sStage := Paid\<rparr>))"
| debit: "i < length (sessions c) \<Longrightarrow> s = sessions c ! i \<Longrightarrow> sStage s = Paid \<Longrightarrow>
    \<not> refused s (base c) \<Longrightarrow>
    advance i c (put (draw c) i (s\<lparr>sStage := Debited, sDebitID := ledger_seq (base c) + 1\<rparr>))"
| credit: "i < length (sessions c) \<Longrightarrow> s = sessions c ! i \<Longrightarrow> sStage s = Debited \<Longrightarrow>
    \<not> refused s (base c) \<Longrightarrow>
    advance i c (put (draw c) i (s\<lparr>sStage := Credited, sCreditID := ledger_seq (base c) + 1\<rparr>))"
| commit: "i < length (sessions c) \<Longrightarrow> s = sessions c ! i \<Longrightarrow>
    sStage s = Credited \<or> sStage s = Claimed \<and> \<not> covers s \<Longrightarrow>
    advance i c ((put c i (s\<lparr>sStage := Committed\<rparr>))\<lparr>base := publish s (base c)\<rparr>)"
| refuse: "i < length (sessions c) \<Longrightarrow> s = sessions c ! i \<Longrightarrow> refused s (base c) \<Longrightarrow>
    advance i c (put c i (s\<lparr>sStage := RolledBack\<rparr>))"

inductive conc_step :: "conc \<Rightarrow> conc \<Rightarrow> bool" where
  advanced: "advance i c c' \<Longrightarrow> conc_step c c'"
| killed: "i < length (sessions c) \<Longrightarrow> \<not> finished (sessions c ! i) \<Longrightarrow>
    conc_step c (put c i ((sessions c ! i)\<lparr>sStage := RolledBack\<rparr>))"

inductive_cases advanceE: "advance i c c'"
inductive_cases conc_stepE: "conc_step c c'"

text \<open>A start: valid requests with distinct transfer ids on a database that satisfies the schema.\<close>

definition start :: "conc \<Rightarrow> bool" where
  "start c \<longleftrightarrow> schema_ok (base c) \<and> distinct (map sID (sessions c)) \<and>
     (\<forall>s\<in>set (sessions c). sStage s = Begun \<and> Validate (sReq s) = None)"


section \<open>The invariant\<close>

definition session_ok :: "db \<Rightarrow> session \<Rightarrow> bool" where
  "session_ok d s \<longleftrightarrow>
     Validate (sReq s) = None \<and>
     (sStage s \<notin> {Begun, Committed, RolledBack} \<longrightarrow> firstID s \<in> wallet_ids d) \<and>
     (sStage s \<notin> {Begun, LockedFirst, Committed, RolledBack} \<longrightarrow> secondID s \<in> wallet_ids d) \<and>
     (sStage s \<in> {Fetched, Inserted, Claimed, Paid, Debited, Credited} \<longrightarrow>
        find_wallet (qFromWalletID (sReq s)) d = Some (sSrc s) \<and>
        find_wallet (qToWalletID (sReq s)) d = Some (sDst s)) \<and>
     (sStage s \<in> {Inserted, Claimed, Paid, Debited, Credited} \<longrightarrow> sID s \<notin> transfer_ids d) \<and>
     (sStage s \<in> {Claimed, Paid, Debited, Credited} \<longrightarrow>
        qIdempotencyKey (sReq s) \<notin> idem_keys d \<and> text_ok (qIdempotencyKey (sReq s))) \<and>
     (sStage s \<in> {Paid, Debited, Credited} \<longrightarrow>
        covers s \<and> 0 \<le> sint (wBalance (sDst s) + qAmount (sReq s)))"

definition apart :: "session \<Rightarrow> session \<Rightarrow> bool" where
  "apart s t \<longleftrightarrow> held s \<inter> held t = {} \<and> key_held s \<inter> key_held t = {} \<and> sID s \<noteq> sID t"

definition conc_inv :: "conc \<Rightarrow> bool" where
  "conc_inv c \<longleftrightarrow> wallets_ok (base c) \<and>
     (\<forall>i<length (sessions c). session_ok (base c) (sessions c ! i)) \<and>
     (\<forall>i<length (sessions c). \<forall>j<length (sessions c). i \<noteq> j \<longrightarrow> apart (sessions c ! i) (sessions c ! j))"

lemma apart_sym: "apart s t \<Longrightarrow> apart t s"
  by (auto simp: apart_def)

lemma put_sel [simp]:
  "base (put c i s) = base c" "sessions (put c i s) = (sessions c)[i := s]"
  "base (draw c) = (base c)\<lparr>ledger_seq := Suc (ledger_seq (base c))\<rparr>" "sessions (draw c) = sessions c"
  by (simp_all add: put_def draw_def)

lemma seq_irrelevant [simp]:
  "wallets_ok (d\<lparr>ledger_seq := n\<rparr>) = wallets_ok d" "session_ok (d\<lparr>ledger_seq := n\<rparr>) s = session_ok d s"
  by (simp_all add: wallets_ok_def session_ok_def wallet_ids_def find_wallet_def transfer_ids_def idem_keys_def)

text \<open>Replacing one session keeps the invariant if the new one is in order and apart from the rest.\<close>

lemma conc_inv_put:
  assumes "conc_inv c" and "i < length (sessions c)" and "wallets_ok d"
    and "session_ok d s'"
    and "\<And>j. j < length (sessions c) \<Longrightarrow> j \<noteq> i \<Longrightarrow> apart s' (sessions c ! j) \<and> session_ok d (sessions c ! j)"
  shows "conc_inv \<lparr>base = d, sessions = (sessions c)[i := s']\<rparr>"
  using assms apart_sym by (auto simp: conc_inv_def nth_list_update)

lemma conc_eta: "put c i s = \<lparr>base = base c, sessions = (sessions c)[i := s]\<rparr>"
  by (simp add: put_def)

lemma conc_inv_at:
  assumes "conc_inv c" and "i < length (sessions c)"
  shows "session_ok (base c) (sessions c ! i)"
    and "j < length (sessions c) \<Longrightarrow> j \<noteq> i \<Longrightarrow> apart (sessions c ! i) (sessions c ! j) \<and> session_ok (base c) (sessions c ! j)"
  using assms by (auto simp: conc_inv_def)

text \<open>A session that holds no more than before, or only what is free, stays apart.\<close>

lemma apart_fewer:
  "apart s t \<Longrightarrow> held s' \<subseteq> held s \<Longrightarrow> key_held s' \<subseteq> key_held s \<Longrightarrow> sID s' = sID s \<Longrightarrow> apart s' t"
  by (auto simp: apart_def)

lemma free_walletD: "free_wallet w c i \<Longrightarrow> j < length (sessions c) \<Longrightarrow> j \<noteq> i \<Longrightarrow> w \<notin> held (sessions c ! j)"
  by (simp add: free_wallet_def)

lemma free_keyD: "free_key w c i \<Longrightarrow> j < length (sessions c) \<Longrightarrow> j \<noteq> i \<Longrightarrow> w \<notin> key_held (sessions c ! j)"
  by (simp add: free_key_def)

section \<open>What a commit publishes\<close>

definition strip :: "db \<Rightarrow> db" where
  "strip d = d\<lparr>ledger_entries := map (\<lambda>e. e\<lparr>eID := 0\<rparr>) (ledger_entries d), ledger_seq := 0\<rparr>"

lemma strip_sel [simp]:
  "wallets (strip d) = wallets d" "transfers (strip d) = transfers d"
  "idempotency_records (strip d) = idempotency_records d" "ledger_seq (strip d) = 0"
  "find_wallet i (strip d) = find_wallet i d" "wallet_ids (strip d) = wallet_ids d"
  "transfer_ids (strip d) = transfer_ids d" "idem_keys (strip d) = idem_keys d"
  "strip (d\<lparr>ledger_seq := n\<rparr>) = strip d" "funded req (strip d) = funded req d"
  by (simp_all add: strip_def find_wallet_def wallet_ids_def transfer_ids_def idem_keys_def funded_def)

lemma write_balances_moved:
  assumes "wallets_ok d" and "w \<in> set (wallets d)"
    and "find_wallet (qFromWalletID (sReq s)) d = Some (sSrc s)"
    and "find_wallet (qToWalletID (sReq s)) d = Some (sDst s)"
  shows "write_balances s w = moved (sReq s) (sNow s) w"
proof -
  have "find_wallet (wID w) d = Some w"
    using assms(1,2) by (simp add: wallet_tbl.lookup_unique wallets_ok_def)
  then show ?thesis
    using assms(3,4) by (auto simp: write_balances_def moved_def)
qed

definition committing :: "session \<Rightarrow> bool" where
  "committing s \<longleftrightarrow> sStage s = Credited \<or> sStage s = Claimed \<and> \<not> covers s"

lemma publish_books:
  assumes ok: "session_ok d s" and w: "wallets_ok d" and c: "committing s"
  shows "strip (publish s d) = strip (book (sReq s) (hash (sReq s)) (sID s) (sNow s) (strip d)) \<and>
    can_book (sReq s) (sID s) (strip d)"
proof -
  let ?req = "sReq s"
  have v: "Validate ?req = None" and st: "sStage s = Credited \<or> sStage s = Claimed"
    and find: "find_wallet (qFromWalletID ?req) d = Some (sSrc s)" "find_wallet (qToWalletID ?req) d = Some (sDst s)"
    and fresh: "sID s \<notin> transfer_ids d" "qIdempotencyKey ?req \<notin> idem_keys d" "text_ok (qIdempotencyKey ?req)"
    using ok c by (auto simp: session_ok_def committing_def)
  have texts: "texts_ok ?req"
    using fresh(3) w find_walletD [OF find(1)] find_walletD [OF find(2)] by (auto simp: texts_ok_def wallets_ok_def)
  have valid: "qFromWalletID ?req \<noteq> qToWalletID ?req" "0 < sint (qAmount ?req)"
    using v by (auto simp: Validate_def split: if_splits)
  have fd: "funded ?req d \<longleftrightarrow> covers s"
    using find(1) by (simp add: funded_def covers_def)
  have "0 \<le> sint (wBalance (sDst s))"
    using w find_walletD [OF find(2)] by (simp add: wallets_ok_def)
  then have "has_room ?req (strip d)" if "covers s"
    using ok c that find(2) valid(2) sint_add_nonneg_iff [of "wBalance (sDst s)" "qAmount ?req"]
    by (auto simp: has_room_def session_ok_def committing_def)
  then have "can_book ?req (sID s) (strip d)"
    using valid fresh texts find find_wallet_ids fd by (auto simp: can_book_def)
  moreover have "strip (publish s d) = strip (book ?req (hash ?req) (sID s) (sNow s) (strip d))"
  proof (cases "covers s")
    case True
    then have "sStage s = Credited" using c by (auto simp: committing_def)
    moreover have "map (write_balances s) (wallets d) = map (moved ?req (sNow s)) (wallets d)"
      using write_balances_moved [OF w _ find] by simp
    ultimately show ?thesis
      using True fd by (simp add: strip_def publish_def book_def Let_def outcome_row_def booked_entry_def funded_def find(1) covers_def find_wallet_def)
  next
    case False
    then have "sStage s \<noteq> Credited" using ok by (auto simp: session_ok_def)
    then show ?thesis
      using False fd by (simp add: strip_def publish_def book_def Let_def outcome_row_def funded_def find(1) covers_def find_wallet_def)
  qed
  ultimately show ?thesis by simp
qed


section \<open>Every step keeps the invariant\<close>

lemma pair_ids: "{firstID s, secondID s} = {qFromWalletID (sReq s), qToWalletID (sReq s)}"
  by (auto simp: firstID_def secondID_def orderedPair_def)

lemma committing_held:
  "committing s \<Longrightarrow> held s = {qFromWalletID (sReq s), qToWalletID (sReq s)} \<and> key_held s = {qIdempotencyKey (sReq s)}"
  using pair_ids [of s] by (auto simp: committing_def held_def key_held_def)

lemma write_balances_wID [simp]: "wID (write_balances s w) = wID w" "wID \<circ> write_balances s = wID"
  by (auto simp: write_balances_def)

lemma publish_sel [simp]:
  "wallet_ids (publish s d) = wallet_ids d" "transfer_ids (publish s d) = insert (sID s) (transfer_ids d)"
  "idem_keys (publish s d) = insert (qIdempotencyKey (sReq s)) (idem_keys d)"
  by (simp_all add: publish_def Let_def wallet_ids_def transfer_ids_def idem_keys_def booked_row_def claim_row_def
      image_image)

lemma find_wallet_publish:
  assumes "i \<notin> {qFromWalletID (sReq s), qToWalletID (sReq s)}"
  shows "find_wallet i (publish s d) = find_wallet i d"
proof -
  have "List.find (\<lambda>w. wID w = i) (map (write_balances s) ws) = List.find (\<lambda>w. wID w = i) ws" for ws
    using assms by (induction ws) (auto simp: write_balances_def)
  then show ?thesis by (simp add: publish_def Let_def find_wallet_def)
qed

lemma wallets_ok_publish:
  assumes "session_ok d s" and "wallets_ok d" and "committing s"
  shows "wallets_ok (publish s d)"
proof -
  have nn: "0 \<le> sint (wBalance (write_balances s w))" if "w \<in> set (wallets d)" "sStage s = Credited" for w
  proof -
    have "covers s" "0 \<le> sint (wBalance (sDst s) + qAmount (sReq s))" "0 < sint (qAmount (sReq s))"
      using assms(1) that(2) by (auto simp: session_ok_def Validate_def split: if_splits)
    moreover have "0 \<le> sint (wBalance w)" using assms(2) that(1) by (simp add: wallets_ok_def)
    ultimately show ?thesis
      by (auto simp: write_balances_def covers_def int64_arith)
  qed
  show ?thesis
    using assms(2) nn by (auto simp: wallets_ok_def publish_def Let_def)
qed

lemma session_ok_publish:
  assumes "session_ok d t" and "apart s t" and "committing s"
  shows "session_ok (publish s d) t"
proof -
  have d: "{qFromWalletID (sReq s), qToWalletID (sReq s)} \<inter> held t = {}" "qIdempotencyKey (sReq s) \<notin> key_held t"
    "sID t \<noteq> sID s"
    using assms(2) committing_held [OF assms(3)] by (auto simp: apart_def)
  have "find_wallet i (publish s d) = find_wallet i d" if "i \<in> held t" for i
    using find_wallet_publish d(1) that by blast
  moreover have "{qFromWalletID (sReq t), qToWalletID (sReq t)} \<subseteq> held t"
    if "sStage t \<in> {Fetched, Inserted, Claimed, Paid, Debited, Credited}"
    using that pair_ids [of t] by (auto simp: held_def)
  moreover have "qIdempotencyKey (sReq t) \<noteq> qIdempotencyKey (sReq s)"
    if "sStage t \<in> {Claimed, Paid, Debited, Credited}"
    using that d(2) by (auto simp: key_held_def)
  ultimately show ?thesis
    using assms(1) d(3) by (auto simp: session_ok_def)
qed

lemmas session_ids = firstID_def secondID_def

lemma session_simps:
  "firstID (s\<lparr>sStage := st\<rparr>) = firstID s" "secondID (s\<lparr>sStage := st\<rparr>) = secondID s"
  "firstID (s\<lparr>sStage := st, sSrc := x, sDst := y\<rparr>) = firstID s"
  "secondID (s\<lparr>sStage := st, sSrc := x, sDst := y\<rparr>) = secondID s"
  "firstID (s\<lparr>sStage := st, sDebitID := n\<rparr>) = firstID s" "secondID (s\<lparr>sStage := st, sDebitID := n\<rparr>) = secondID s"
  "firstID (s\<lparr>sStage := st, sCreditID := n\<rparr>) = firstID s" "secondID (s\<lparr>sStage := st, sCreditID := n\<rparr>) = secondID s"
  "covers (s\<lparr>sStage := st\<rparr>) = covers s" "covers (s\<lparr>sStage := st, sDebitID := n\<rparr>) = covers s"
  "covers (s\<lparr>sStage := st, sCreditID := n\<rparr>) = covers s"
  by (simp_all add: session_ids covers_def)

text \<open>A step that takes at most what is free, and draws at most from the sequence.\<close>

lemma conc_inv_move:
  assumes inv: "conc_inv c" and i: "i < length (sessions c)" and s: "s = sessions c ! i"
    and held: "held s' \<subseteq> held s \<union> W" "\<And>w. w \<in> W \<Longrightarrow> free_wallet w c i"
    and keys: "key_held s' \<subseteq> key_held s \<union> K" "\<And>k. k \<in> K \<Longrightarrow> free_key k c i"
    and ok: "sID s' = sID s" "session_ok (base c) s \<Longrightarrow> session_ok (base c) s'"
    and c': "c' = \<lparr>base = (base c)\<lparr>ledger_seq := n\<rparr>, sessions = (sessions c)[i := s']\<rparr>"
  shows "conc_inv c'"
  unfolding c'
proof (rule conc_inv_put [OF inv i])
  show "wallets_ok ((base c)\<lparr>ledger_seq := n\<rparr>)"
    using inv by (simp add: conc_inv_def)
  show "session_ok ((base c)\<lparr>ledger_seq := n\<rparr>) s'"
    using conc_inv_at(1) [OF inv i] ok(2) s by simp
  fix j assume j: "j < length (sessions c)" "j \<noteq> i"
  have "W \<inter> held (sessions c ! j) = {}" "K \<inter> key_held (sessions c ! j) = {}"
    using held(2) keys(2) j by (auto simp: free_wallet_def free_key_def)
  moreover have "apart s (sessions c ! j)" "session_ok (base c) (sessions c ! j)"
    using conc_inv_at(2) [OF inv i j] s by simp_all
  ultimately show "apart s' (sessions c ! j) \<and> session_ok ((base c)\<lparr>ledger_seq := n\<rparr>) (sessions c ! j)"
    using held(1) keys(1) ok(1) by (auto simp: apart_def)
qed

lemma put_conc: "put c i s' = \<lparr>base = (base c)\<lparr>ledger_seq := ledger_seq (base c)\<rparr>, sessions = (sessions c)[i := s']\<rparr>"
  by (simp add: put_def)

lemma put_draw_conc:
  "put (draw c) i s' = \<lparr>base = (base c)\<lparr>ledger_seq := Suc (ledger_seq (base c))\<rparr>, sessions = (sessions c)[i := s']\<rparr>"
  by (simp add: put_def draw_def)

lemmas step_simps = session_ok_def refused_def session_simps held_def key_held_def

lemma conc_inv_advance:
  assumes "advance i c c'" and inv: "conc_inv c"
  shows "conc_inv c'"
  using assms(1)
proof cases
  case (lock_first s)
  show ?thesis
    by (rule conc_inv_move [OF inv lock_first(2,3), where W = "{firstID s}" and K = "{}", OF _ _ _ _ _ _ lock_first(1) [unfolded put_conc]])
      (use lock_first(4-) in \<open>auto simp: step_simps\<close>)
next
  case (lock_second s)
  show ?thesis
    by (rule conc_inv_move [OF inv lock_second(2,3), where W = "{secondID s}" and K = "{}", OF _ _ _ _ _ _ lock_second(1) [unfolded put_conc]])
      (use lock_second(4-) in \<open>auto simp: step_simps\<close>)
next
  case (claim_key s)
  show ?thesis
    by (rule conc_inv_move [OF inv claim_key(2,3), where W = "{}" and K = "{qIdempotencyKey (sReq s)}", OF _ _ _ _ _ _ claim_key(1) [unfolded put_conc]])
      (use claim_key(4-) in \<open>auto simp: step_simps\<close>)
next
  case (commit s)
  then have cm: "committing s" and i: "i < length (sessions c)" by (simp_all add: committing_def)
  note here = conc_inv_at [OF inv i]
  have w: "wallets_ok (base c)" using inv by (simp add: conc_inv_def)
  have "apart (s\<lparr>sStage := Committed\<rparr>) (sessions c ! j) \<and> session_ok (publish s (base c)) (sessions c ! j)"
    if "j < length (sessions c)" "j \<noteq> i" for j
    using here(2) [OF that] session_ok_publish [OF _ _ cm, of "base c" "sessions c ! j"] commit(3)
    by (auto simp: apart_def held_def key_held_def)
  moreover have "session_ok (publish s (base c)) (s\<lparr>sStage := Committed\<rparr>)"
    using here(1) commit(3) by (simp add: session_ok_def)
  ultimately have "conc_inv \<lparr>base = publish s (base c), sessions = (sessions c)[i := s\<lparr>sStage := Committed\<rparr>]\<rparr>"
    using wallets_ok_publish [OF _ w cm] here(1) commit(3) by (intro conc_inv_put [OF inv i]) auto
  moreover have "c' = \<lparr>base = publish s (base c), sessions = (sessions c)[i := s\<lparr>sStage := Committed\<rparr>]\<rparr>"
    using commit(1) by (cases c) (simp add: put_def)
  ultimately show ?thesis by simp
next
  case (fetch s src dst)
  show ?thesis
    by (rule conc_inv_move [OF inv fetch(2,3), where W = "{}" and K = "{}", OF _ _ _ _ _ _ fetch(1) [unfolded put_conc]])
      (use fetch(4-) in \<open>auto simp: step_simps\<close>)
next
  case (insert_transfer s)
  show ?thesis
    by (rule conc_inv_move [OF inv insert_transfer(2,3), where W = "{}" and K = "{}", OF _ _ _ _ _ _ insert_transfer(1) [unfolded put_conc]])
      (use insert_transfer(4-) in \<open>auto simp: step_simps\<close>)
next
  case (pay s)
  show ?thesis
    by (rule conc_inv_move [OF inv pay(2,3), where W = "{}" and K = "{}", OF _ _ _ _ _ _ pay(1) [unfolded put_conc]])
      (use pay(4-) in \<open>auto simp: step_simps\<close>)
next
  case (debit s)
  show ?thesis
    by (rule conc_inv_move [OF inv debit(2,3), where W = "{}" and K = "{}", OF _ _ _ _ _ _ debit(1) [unfolded put_draw_conc]])
      (use debit(4-) in \<open>auto simp: step_simps\<close>)
next
  case (credit s)
  show ?thesis
    by (rule conc_inv_move [OF inv credit(2,3), where W = "{}" and K = "{}", OF _ _ _ _ _ _ credit(1) [unfolded put_draw_conc]])
      (use credit(4-) in \<open>auto simp: step_simps\<close>)
next
  case (refuse s)
  show ?thesis
    by (rule conc_inv_move [OF inv refuse(2,3), where W = "{}" and K = "{}", OF _ _ _ _ _ _ refuse(1) [unfolded put_conc]])
      (use refuse(4-) in \<open>auto simp: step_simps\<close>)
qed


lemma conc_inv_start: "start c \<Longrightarrow> conc_inv c"
  by (auto simp: start_def conc_inv_def session_ok_def apart_def held_def key_held_def schema_ok_def
      distinct_conv_nth)

lemma conc_inv_step: "conc_step c c' \<Longrightarrow> conc_inv c \<Longrightarrow> conc_inv c'"
proof (erule conc_stepE)
  fix i assume inv: "conc_inv c" and "advance i c c'"
  then show "conc_inv c'" by (rule conc_inv_advance [rotated])
next
  fix i assume inv: "conc_inv c" and i: "i < length (sessions c)"
    and c': "c' = put c i ((sessions c ! i)\<lparr>sStage := RolledBack\<rparr>)"
  show "conc_inv c'"
    by (rule conc_inv_move [OF inv i refl, where W = "{}" and K = "{}", OF _ _ _ _ _ _ c' [unfolded put_conc]])
      (auto simp: step_simps)
qed

lemma conc_inv_steps: "conc_step\<^sup>*\<^sup>* c c' \<Longrightarrow> conc_inv c \<Longrightarrow> conc_inv c'"
  by (induction rule: rtranclp_induct) (auto intro: conc_inv_step)

section \<open>No deadlock\<close>

lemma ordered_ids: "Validate (sReq s) = None \<Longrightarrow> firstID s < secondID s"
  by (auto simp: session_ids orderedPair_def Validate_def split: if_splits)

text \<open>Past its locks, a session never waits, except for a key that another open transaction inserted.\<close>

lemma unblocked:
  assumes inv: "conc_inv c" and i: "i < length (sessions c)"
    and st: "sStage (sessions c ! i) \<in> {LockedBoth, Fetched, Claimed, Paid, Debited, Credited}"
  shows "\<exists>c'. advance i c c'"
proof -
  let ?s = "sessions c ! i"
  note ok = conc_inv_at(1) [OF inv i]
  have "\<exists>src dst. find_wallet (qFromWalletID (sReq ?s)) (base c) = Some src \<and>
      find_wallet (qToWalletID (sReq ?s)) (base c) = Some dst" if "sStage ?s = LockedBoth"
  proof -
    have "{firstID ?s, secondID ?s} \<subseteq> wallet_ids (base c)"
      using ok that by (simp add: session_ok_def)
    then show ?thesis
      unfolding pair_ids by (metis find_wallet_None_iff insert_subset not_None_eq)
  qed
  moreover have "refused ?s (base c) \<Longrightarrow> \<exists>c'. advance i c c'"
    using refuse [OF i refl] by blast
  ultimately show ?thesis
    using st fetch [OF i refl] insert_transfer [OF i refl] pay [OF i refl] debit [OF i refl] credit [OF i refl]
      commit [OF i refl] by blast
qed

lemma no_deadlock:
  assumes inv: "conc_inv c" and u: "i0 < length (sessions c)" "\<not> finished (sessions c ! i0)"
  shows "\<exists>i c'. advance i c c'"
proof (rule ccontr)
  assume stuck: "\<not> ?thesis"
  let ?n = "length (sessions c)" and ?s = "\<lambda>i. sessions c ! i"
  have early: "sStage (?s j) \<in> {Begun, LockedFirst, Inserted, Committed, RolledBack}" if "j < ?n" for j
  proof -
    have "sStage (?s j) \<notin> {LockedBoth, Fetched, Claimed, Paid, Debited, Credited}"
      using unblocked [OF inv that] stuck by blast
    then show ?thesis by (cases "sStage (?s j)") simp_all
  qed
  have ref: "\<not> refused (?s j) (base c)" if "j < ?n" for j
    using refuse [OF that refl] stuck by blast
  have "key_held (?s j) = {}" if "j < ?n" for j
    using early [OF that] by (auto simp: key_held_def)
  then have "free_key k c j" for k j
    by (simp add: free_key_def)
  then have "sStage (?s j) \<noteq> Inserted" if "j < ?n" for j
    using claim_key [OF that refl _ ref [OF that]] stuck by blast
  then have early': "sStage (?s j) \<in> {Begun, LockedFirst, Committed, RolledBack}" if "j < ?n" for j
    using early [OF that] that by blast
  have held: "sStage (?s j) = LockedFirst \<and> w = firstID (?s j)" if "j < ?n" "w \<in> held (?s j)" for j w
    using early' [OF that(1)] that(2) by (auto simp: held_def split: if_splits)
  define A where "A = {j. j < ?n \<and> sStage (?s j) = LockedFirst}"
  show False
  proof (cases "A = {}")
    case True
    then have "free_wallet w c j" for w j
      using held by (auto simp: A_def free_wallet_def)
    moreover have "sStage (?s i0) = Begun"
      using u early' [OF u(1)] True by (auto simp: A_def finished_def)
    ultimately show False
      using lock_first [OF u(1) refl _ ref [OF u(1)]] stuck by blast
  next
    case False
    define F where "F = (\<lambda>j. firstID (?s j)) ` A"
    have F: "finite F" "F \<noteq> {}" using False by (simp_all add: A_def F_def)
    have "Max F \<in> F" by (rule Max_in [OF F])
    then obtain i where i: "i \<in> A" "firstID (?s i) = Max F"
      unfolding F_def by (metis (no_types, lifting) image_iff)
    have max: "firstID (?s j) \<le> firstID (?s i)" if "j \<in> A" for j
      using Max_ge [OF F(1)] i(2) that by (simp add: F_def)
    have n: "i < ?n" "sStage (?s i) = LockedFirst" using i(1) by (simp_all add: A_def)
    have "firstID (?s i) < secondID (?s i)"
      using conc_inv_at(1) [OF inv n(1)] by (simp add: session_ok_def ordered_ids)
    then have "secondID (?s i) \<notin> held (?s j)" if "j < ?n" for j
      using held [OF that] max [of j] that by (auto simp: A_def)
    then have "free_wallet (secondID (?s i)) c i" by (simp add: free_wallet_def)
    then show False
      using lock_second [OF n(1) refl n(2) ref [OF n(1)]] stuck by blast
  qed
qed

text \<open>Every step of a session brings it nearer to its end.\<close>

fun stages_left :: "stage \<Rightarrow> nat" where
  "stages_left Begun = 9"
| "stages_left LockedFirst = 8"
| "stages_left LockedBoth = 7"
| "stages_left Fetched = 6"
| "stages_left Inserted = 5"
| "stages_left Claimed = 4"
| "stages_left Paid = 3"
| "stages_left Debited = 2"
| "stages_left Credited = 1"
| "stages_left Committed = 0"
| "stages_left RolledBack = 0"

definition work_left :: "conc \<Rightarrow> nat" where
  "work_left c = sum_list (map (\<lambda>s. stages_left (sStage s)) (sessions c))"

lemma sum_list_update_less:
  fixes f :: "'a \<Rightarrow> nat"
  shows "i < length xs \<Longrightarrow> f y < f (xs ! i) \<Longrightarrow> sum_list (map f (xs[i := y])) < sum_list (map f xs)"
  by (induction xs arbitrary: i) (auto split: nat.splits)

lemma advance_shape:
  assumes "advance i c c'"
  shows "i < length (sessions c)" and "\<exists>s'. sessions c' = (sessions c)[i := s'] \<and> sStage s' \<noteq> Begun \<and>
    stages_left (sStage s') < stages_left (sStage (sessions c ! i))"
  using assms by (cases rule: advance.cases; auto simp: refused_def split: stage.splits)+

lemma advance_work: "advance i c c' \<Longrightarrow> work_left c' < work_left c"
  using advance_shape [of i c c'] sum_list_update_less [of i "sessions c" "\<lambda>s. stages_left (sStage s)"]
  by (auto simp: work_left_def)


section \<open>Serializability\<close>

text \<open>The sessions' transfers one after the other, up to the ids of ledger entries.\<close>

fun serial :: "session list \<Rightarrow> db \<Rightarrow> db option" where
  "serial [] d = Some d"
| "serial (s # ss) d =
     (if Validate (sReq s) = None \<and> can_book (sReq s) (sID s) d
      then serial ss (strip (book (sReq s) (hash (sReq s)) (sID s) (sNow s) d))
      else None)"

lemma serial_append: "serial (ss @ ts) d = Option.bind (serial ss d) (serial ts)"
  by (induction ss arbitrary: d) auto

definition committed :: "conc \<Rightarrow> session multiset" where
  "committed c = filter_mset (\<lambda>s. sStage s = Committed) (mset (sessions c))"

lemma committed_update:
  assumes "i < length (sessions c)" and "sStage (sessions c ! i) \<noteq> Committed" and "sessions c' = (sessions c)[i := s']"
  shows "committed c' = (if sStage s' = Committed then add_mset s' (committed c) else committed c)"
  using assms by (auto simp: committed_def mset_update multiset_eq_iff)

text \<open>What one step does to the committed database: nothing but draws, or one commit.\<close>

lemma advance_effect:
  assumes "advance i c c'"
  shows "strip (base c') = strip (base c) \<and> committed c' = committed c \<or>
    committing (sessions c ! i) \<and> base c' = publish (sessions c ! i) (base c) \<and>
      committed c' = add_mset ((sessions c ! i)\<lparr>sStage := Committed\<rparr>) (committed c)"
proof -
  have i: "i < length (sessions c)" using advance_shape(1) [OF assms] .
  show ?thesis
    using assms
  proof cases
    case (commit s)
    then have "committed c' = add_mset (s\<lparr>sStage := Committed\<rparr>) (committed c)"
      using committed_update [OF i, of c' "s\<lparr>sStage := Committed\<rparr>"] by auto
    then show ?thesis using commit by (auto simp: committing_def)
  next
    case (refuse s)
    then have "sStage s \<noteq> Committed" by (auto simp: refused_def)
    then show ?thesis using committed_update [OF i, of c' "s\<lparr>sStage := RolledBack\<rparr>"] refuse by simp
  qed (use committed_update [OF i, of c'] in auto)
qed

lemma advance_base:
  assumes "advance i c c'" and inv: "conc_inv c"
  shows "strip (base c') = strip (base c) \<and> committed c' = committed c \<or>
    (\<exists>s. committed c' = add_mset s (committed c) \<and> serial [s] (strip (base c)) = Some (strip (base c')))"
  using advance_effect [OF assms(1)]
proof
  let ?s = "sessions c ! i"
  assume c: "committing ?s \<and> base c' = publish ?s (base c) \<and>
      committed c' = add_mset (?s\<lparr>sStage := Committed\<rparr>) (committed c)"
  have "wallets_ok (base c)" and ok: "session_ok (base c) ?s"
    using inv conc_inv_at(1) [OF inv advance_shape(1) [OF assms(1)]] by (simp_all add: conc_inv_def)
  then have "serial [?s\<lparr>sStage := Committed\<rparr>] (strip (base c)) = Some (strip (base c'))"
    using publish_books [OF ok] c by (simp add: session_ok_def)
  then show ?thesis using c by blast
qed simp

lemma conc_step_base:
  assumes "conc_step c c'" and "conc_inv c"
  shows "strip (base c') = strip (base c) \<and> committed c' = committed c \<or>
    (\<exists>s. committed c' = add_mset s (committed c) \<and> serial [s] (strip (base c)) = Some (strip (base c')))"
  using assms(1)
proof cases
  case (advanced i)
  then show ?thesis using advance_base assms(2) by blast
next
  case (killed i)
  then show ?thesis
    using committed_update [of i c c' "(sessions c ! i)\<lparr>sStage := RolledBack\<rparr>"] by (auto simp: finished_def)
qed

lemma serial_history:
  assumes "conc_step\<^sup>*\<^sup>* c0 c" and "start c0"
  shows "\<exists>order. mset order = committed c \<and> serial order (strip (base c0)) = Some (strip (base c))"
  using assms
proof (induction rule: rtranclp_induct)
  case base
  have "committed c0 = {#}" using base by (auto simp: start_def committed_def filter_mset_eq_conv)
  then show ?case by (intro exI [of _ "[]"]) simp
next
  case (step c c')
  then obtain order where o: "mset order = committed c" "serial order (strip (conc.base c0)) = Some (strip (conc.base c))"
    by blast
  have "conc_inv c" using conc_inv_steps [OF step(1) conc_inv_start [OF step.prems]] .
  from conc_step_base [OF step(2) this] show ?case
  proof
    assume "strip (conc.base c') = strip (conc.base c) \<and> committed c' = committed c"
    then show ?thesis using o by auto
  next
    assume "\<exists>s. committed c' = add_mset s (committed c) \<and> serial [s] (strip (conc.base c)) = Some (strip (conc.base c'))"
    then obtain s where s: "committed c' = add_mset s (committed c)" "serial [s] (strip (conc.base c)) = Some (strip (conc.base c'))"
      by blast
    then show ?thesis
      using o by (intro exI [of _ "order @ [s]"]) (simp add: serial_append del: serial.simps)
  qed
qed


section \<open>Properties\<close>

abbreviation advances :: "conc \<Rightarrow> conc \<Rightarrow> bool" where
  "advances \<equiv> (\<lambda>c c'. \<exists>i. advance i c c')\<^sup>*\<^sup>*"

lemma can_finish:
  "conc_inv c \<Longrightarrow> \<exists>c'. advances c c' \<and> (\<forall>s\<in>set (sessions c'). finished s)"
proof (induction "work_left c" arbitrary: c rule: less_induct)
  case less
  show ?case
  proof (cases "\<exists>s\<in>set (sessions c). \<not> finished s")
    case True
    then obtain i d where d: "advance i c d"
      using no_deadlock [OF less.prems] by (metis in_set_conv_nth)
    obtain c' where "advances d c'" "\<forall>s\<in>set (sessions c'). finished s"
      using less.hyps [OF advance_work [OF d] conc_inv_advance [OF d less.prems]] by blast
    moreover have "\<exists>i. advance i c d" using d ..
    ultimately show ?thesis
      using converse_rtranclp_into_rtranclp [of "\<lambda>c c'. \<exists>i. advance i c c'"] by blast
  qed blast
qed

text \<open>
  Concurrent transfers never deadlock. Any number of transactions with valid requests over any
  wallets, interleaved statement by statement and killed at any time: while one of them is open,
  some open one can execute its next statement, and all of them can be run to their end.
\<close>

theorem concurrent_transfers_finish:
  assumes "start c0" and "conc_step\<^sup>*\<^sup>* c0 c"
  shows "((\<exists>s\<in>set (sessions c). \<not> finished s) \<longrightarrow> (\<exists>i c'. advance i c c')) \<and>
    (\<exists>c'. advances c c' \<and> (\<forall>s\<in>set (sessions c'). finished s))"
proof -
  have inv: "conc_inv c" using conc_inv_steps [OF assms(2) conc_inv_start [OF assms(1)]] .
  then show ?thesis
    using can_finish no_deadlock [OF inv] by (metis in_set_conv_nth)
qed

text \<open>
  Concurrent transfers are serializable. Whatever the interleaving, the committed database is
  the result of running the committed sessions one after the other, in some order, each booked
  against the database its predecessors left, where it was allowed to be booked; only the ids of
  ledger entries may differ.
\<close>

theorem concurrent_transfers_serializable:
  assumes "start c0" and "conc_step\<^sup>*\<^sup>* c0 c"
  shows "\<exists>order. mset order = filter_mset (\<lambda>s. sStage s = Committed) (mset (sessions c)) \<and>
    serial order (strip (base c0)) = Some (strip (base c))"
  using serial_history [OF assms(2,1)] by (simp add: committed_def)

text \<open>An example: two transfers between the same wallets in opposite directions.\<close>

definition ex_session :: "string \<Rightarrow> string \<Rightarrow> string \<Rightarrow> uuid \<Rightarrow> session" where
  "ex_session k src dst u =
     \<lparr>sReq = \<lparr>qIdempotencyKey = k, qFromWalletID = src, qToWalletID = dst, qAmount = 30\<rparr>, sID = u, sNow = 8,
      sStage = Begun, sSrc = wallet_row src 0 0, sDst = wallet_row dst 0 0, sDebitID = 0, sCreditID = 0\<rparr>"

definition ex_conc :: conc where
  "ex_conc = \<lparr>base = ex_db, sessions = [ex_session ''k'' ''a'' ''b'' 1, ex_session ''l'' ''b'' ''a'' 2]\<rparr>"

lemma ex_conc_start: "start ex_conc"
  using ex_db_books by (simp add: start_def ex_conc_def ex_session_def Validate_def books_ok_def)

theorem concurrent_transfers_finish_witness:
  "\<exists>c. advances ex_conc c \<and> (\<forall>s\<in>set (sessions c). finished s)"
  using concurrent_transfers_finish [OF ex_conc_start rtranclp.rtrancl_refl] by blast

lemma advances_steps: "advances c c' \<Longrightarrow> conc_step\<^sup>*\<^sup>* c c'"
  by (induction rule: rtranclp_induct) (auto intro: rtranclp.rtrancl_into_rtrancl advanced)

theorem concurrent_transfers_serializable_witness:
  "\<exists>c order. conc_step\<^sup>*\<^sup>* ex_conc c \<and> (\<forall>s\<in>set (sessions c). finished s) \<and>
     serial order (strip ex_db) = Some (strip (base c))"
proof -
  obtain c where c: "advances ex_conc c" "\<forall>s\<in>set (sessions c). finished s"
    using can_finish [OF conc_inv_start [OF ex_conc_start]] by blast
  then show ?thesis
    using concurrent_transfers_serializable [OF ex_conc_start advances_steps [OF c(1)]] advances_steps
    by (auto simp: ex_conc_def)
qed

end
