(* ===== verification/Serial_Code.thy ===== *)
theory Serial_Code
  imports Concurrency
begin

text \<open>
  The step relation of \<open>Concurrency\<close> against the code of \<open>Service\<close>. Every history of interleaved
  transactions leaves, up to the ids of ledger entries, the database that \<open>RunInTx\<close> and
  \<open>executeTransfer\<close> themselves leave when they are run for the committed transactions one after the
  other, on a server where nothing else happens. The sequence of the ledger needs care: the
  concurrent run draws at least as many values as the serial one, so the serial one has room.
\<close>

section \<open>Running the code serially\<close>

fun run_serially :: "session list \<Rightarrow> db \<Rightarrow> db option" where
  "run_serially [] d = Some d"
| "run_serially (s # ss) d =
     (case RunInTx (executeTransfer Tx (sReq s) (hash (sReq s)) (sID s)) (quiet_world d (sNow s)) of
        (Ok _, w) \<Rightarrow> run_serially ss (disk w)
      | _ \<Rightarrow> None)"

lemma run_serially_append: "run_serially (ss @ ts) d = Option.bind (run_serially ss d) (run_serially ts)"
  by (induction ss arbitrary: d) (auto split: prod.splits res.splits)

lemma run_serially_one:
  assumes "schema_ok d" and "can_book (sReq s) (sID s) d"
  shows "run_serially [s] d = Some (book (sReq s) (hash (sReq s)) (sID s) (sNow s) d)"
  using slow_path_succeeds [of "quiet_world d (sNow s)" "sReq s" "sID s" "hash (sReq s)"] assms by auto

text \<open>Booking does not look at the ids of ledger entries.\<close>

lemma strip_book_cong:
  assumes "strip d = strip d'"
  shows "strip (book req h u now d) = strip (book req h u now d')"
proof -
  have sel: "wallets d = wallets d'" "transfers d = transfers d'" "idempotency_records d = idempotency_records d'"
    using assms strip_sel(1-3) by metis+
  have led: "map (\<lambda>e. e\<lparr>eID := 0\<rparr>) (ledger_entries d) = map (\<lambda>e. e\<lparr>eID := 0\<rparr>) (ledger_entries d')"
    using arg_cong [OF assms, of ledger_entries] by (simp add: strip_def)
  have "funded req d = funded req d'" "outcome_row req u now d = outcome_row req u now d'"
    using sel by (simp_all add: funded_def outcome_row_def find_wallet_def)
  then show ?thesis
    using sel led by (simp add: book_def strip_def Let_def booked_entry_def)
qed

lemma can_book_strip:
  "can_book req u d \<longleftrightarrow> can_book req u (strip d) \<and> (funded req d \<longrightarrow> ledger_seq d + 2 < 2 ^ 63)"
  by (auto simp: can_book_def has_room_def split: option.splits)


section \<open>Sequence values\<close>

definition drawn :: "session \<Rightarrow> nat" where
  "drawn s =
     (if sStage s = Debited then 1
      else if sStage s = Credited \<or> sStage s = Committed \<and> covers s then 2 else 0)"

definition all_drawn :: "session list \<Rightarrow> nat" where
  "all_drawn ss = sum_list (map drawn ss)"

definition draws_ok :: "nat \<Rightarrow> conc \<Rightarrow> bool" where
  "draws_ok n c \<longleftrightarrow> n + all_drawn (sessions c) \<le> ledger_seq (base c) \<and> ledger_seq (base c) < 2 ^ 63"

lemma all_drawn_update:
  assumes "i < length ss"
  shows "all_drawn (ss[i := s]) + drawn (ss ! i) = all_drawn ss + drawn s"
proof -
  have "drawn (ss ! i) \<le> all_drawn ss"
    using assms member_le_sum_list [of "drawn (ss ! i)" "map drawn ss"] by (simp add: all_drawn_def)
  then show ?thesis
    using sum_list_update [of i "map drawn ss" "drawn s"] assms by (simp add: all_drawn_def map_update)
qed

lemma draws_ok_put:
  assumes "draws_ok n c" and "i < length (sessions c)" and "sessions c' = (sessions c)[i := s]"
    and "ledger_seq (base c') + drawn (sessions c ! i) \<ge> ledger_seq (base c) + drawn s" and "ledger_seq (base c') < 2 ^ 63"
  shows "draws_ok n c'"
  using assms all_drawn_update [OF assms(2), of s] by (simp add: draws_ok_def)

lemma publish_seq [simp]: "ledger_seq (publish s d) = ledger_seq d"
  by (simp add: publish_def Let_def)

lemma not_refused_room: "\<not> refused s d \<Longrightarrow> sStage s = Paid \<or> sStage s = Debited \<Longrightarrow> ledger_seq d + 1 < 2 ^ 63"
  by (auto simp: refused_def)

lemma drawn_simps [simp]:
  "drawn (s\<lparr>sStage := LockedFirst\<rparr>) = 0" "drawn (s\<lparr>sStage := LockedBoth\<rparr>) = 0"
  "drawn (s\<lparr>sStage := Fetched, sSrc := x, sDst := y\<rparr>) = 0" "drawn (s\<lparr>sStage := Inserted\<rparr>) = 0"
  "drawn (s\<lparr>sStage := Claimed\<rparr>) = 0" "drawn (s\<lparr>sStage := Paid\<rparr>) = 0" "drawn (s\<lparr>sStage := RolledBack\<rparr>) = 0"
  "drawn (s\<lparr>sStage := Debited, sDebitID := k\<rparr>) = 1" "drawn (s\<lparr>sStage := Credited, sCreditID := k\<rparr>) = 2"
  "drawn (s\<lparr>sStage := Committed\<rparr>) = (if covers s then 2 else 0)"
  "sStage s = Debited \<Longrightarrow> drawn s = 1" "sStage s = Credited \<Longrightarrow> drawn s = 2" "sStage s = Claimed \<Longrightarrow> drawn s = 0"
  by (simp_all add: drawn_def session_simps)

lemma draws_ok_advance:
  assumes "advance i c c'" and "conc_inv c" and ok: "draws_ok n c"
  shows "draws_ok n c'"
proof -
  have i: "i < length (sessions c)" using advance_shape(1) [OF assms(1)] .
  have lt: "ledger_seq (base c) < 2 ^ 63" using ok by (simp add: draws_ok_def)
  have cov: "covers (sessions c ! i)" if "sStage (sessions c ! i) = Credited"
    using conc_inv_at(1) [OF assms(2) i] that by (simp add: session_ok_def)
  have "\<exists>s'. sessions c' = (sessions c)[i := s'] \<and> ledger_seq (base c) + drawn s' \<le> ledger_seq (base c') + drawn (sessions c ! i) \<and>
      ledger_seq (base c') < 2 ^ 63"
    using assms(1)
  proof cases
    case (debit s)
    then show ?thesis
      using not_refused_room [of s "base c"] by (intro exI [of _ "s\<lparr>sStage := Debited, sDebitID := ledger_seq (base c) + 1\<rparr>"]) simp
  next
    case (credit s)
    then show ?thesis
      using not_refused_room [of s "base c"] by (intro exI [of _ "s\<lparr>sStage := Credited, sCreditID := ledger_seq (base c) + 1\<rparr>"]) simp
  next
    case (commit s)
    then show ?thesis using lt by auto
  qed (use lt in auto)
  then show ?thesis
    using draws_ok_put [OF ok i] by blast
qed

lemma draws_ok_step:
  assumes "conc_step c c'" and "conc_inv c" and "draws_ok n c"
  shows "draws_ok n c'"
  using assms(1)
proof cases
  case (advanced i)
  then show ?thesis using draws_ok_advance assms(2,3) by blast
next
  case (killed i)
  then show ?thesis
    using assms(3) by (intro draws_ok_put [OF assms(3), of i]) (auto simp: drawn_def draws_ok_def)
qed

lemma draws_ok_start: "start c \<Longrightarrow> draws_ok (ledger_seq (base c)) c"
proof -
  assume c: "start c"
  then have "all_drawn (sessions c) = 0"
    by (auto simp: start_def all_drawn_def drawn_def)
  then show ?thesis
    using c by (simp add: draws_ok_def start_def schema_defs)
qed


section \<open>Histories\<close>

lemma committing_facts:
  assumes "session_ok d s" and "committing s"
  shows "find_wallet (qFromWalletID (sReq s)) d = Some (sSrc s)" and "drawn s = (if covers s then 2 else 0)"
proof -
  from assms(2) consider "sStage s = Credited" | "sStage s = Claimed" "\<not> covers s"
    by (auto simp: committing_def)
  then show "find_wallet (qFromWalletID (sReq s)) d = Some (sSrc s)" "drawn s = (if covers s then 2 else 0)"
    by (cases; use assms(1) in \<open>simp add: session_ok_def\<close>)+
qed

text \<open>A session about to commit, and a serial state that agrees with the database up to ledger ids.\<close>

lemma committing_bookable:
  assumes inv: "conc_inv c" and i: "i < length (sessions c)" and s: "s = sessions c ! i" and cm: "committing s"
    and draws: "draws_ok n c" and d: "schema_ok d" "strip d = strip (base c)"
    and seq: "ledger_seq d + drawn s \<le> n + all_drawn (sessions c)"
  defines "b \<equiv> book (sReq s) (hash (sReq s)) (sID s) (sNow s) d"
  shows "can_book (sReq s) (sID s) d" and "funded (sReq s) d \<longleftrightarrow> covers s" and "schema_ok b"
    and "strip b = strip (publish s (base c))" and "ledger_seq b = ledger_seq d + drawn s"
proof -
  have ok: "session_ok (base c) s" and w: "wallets_ok (base c)"
    using inv conc_inv_at(1) [OF inv i] s by (simp_all add: conc_inv_def)
  note pb = publish_books [OF ok w cm]
  note found = committing_facts(1) [OF ok cm] and dr = committing_facts(2) [OF ok cm]
  have "funded (sReq s) d = funded (sReq s) (base c)" using d(2) strip_sel(10) by metis
  then show fd: "funded (sReq s) d \<longleftrightarrow> covers s"
    using found by (simp add: funded_def covers_def)
  show cb: "can_book (sReq s) (sID s) d"
    using pb d(2) fd dr seq draws by (auto simp: can_book_strip [of "sReq s" "sID s" d] draws_ok_def)
  show "schema_ok b" using schema_ok_book [OF d(1) cb] by (simp add: b_def)
  have "strip b = strip (book (sReq s) (hash (sReq s)) (sID s) (sNow s) (strip (base c)))"
    unfolding b_def using d(2) by (intro strip_book_cong) (simp add: strip_def)
  then show "strip b = strip (publish s (base c))" using pb by simp
  show "ledger_seq b = ledger_seq d + drawn s"
    using fd dr by (simp add: b_def book_def Let_def)
qed

lemma commit_serially:
  assumes "conc_inv c" and "i < length (sessions c)" and "s = sessions c ! i" and "committing s"
    and "draws_ok n c" and "schema_ok d" "strip d = strip (base c)" and "ledger_seq d + drawn s \<le> n + all_drawn (sessions c)"
  shows "\<exists>d'. run_serially [s] d = Some d' \<and> schema_ok d' \<and> strip d' = strip (publish s (base c)) \<and>
    ledger_seq d' = ledger_seq d + drawn s"
  using committing_bookable [OF assms] run_serially_one [OF assms(6)] by blast

text \<open>The invariant of a history: the serial run of what is committed so far.\<close>

definition replica :: "db \<Rightarrow> conc \<Rightarrow> session list \<Rightarrow> db \<Rightarrow> bool" where
  "replica d0 c order d \<longleftrightarrow>
     mset order = committed c \<and> run_serially order d0 = Some d \<and> schema_ok d \<and>
     strip d = strip (base c) \<and> ledger_seq d = ledger_seq d0 + all_drawn order"

lemma all_drawn_mset: "all_drawn ss = sum_mset (image_mset drawn (mset ss))"
  by (simp add: all_drawn_def flip: sum_mset_sum_list)

lemma committed_drawn:
  assumes "i < length (sessions c)" and "sStage (sessions c ! i) \<noteq> Committed"
  shows "sum_mset (image_mset drawn (committed c)) + drawn (sessions c ! i) \<le> all_drawn (sessions c)"
proof -
  let ?rest = "filter_mset (\<lambda>s. sStage s \<noteq> Committed) (mset (sessions c))"
  have "mset (sessions c) = committed c + ?rest"
    by (simp add: committed_def multiset_partition)
  then have "all_drawn (sessions c) = sum_mset (image_mset drawn (committed c)) + sum_mset (image_mset drawn ?rest)"
    unfolding all_drawn_mset by (metis image_mset_union sum_mset.union)
  moreover have "sessions c ! i \<in># ?rest" using assms by simp
  then obtain m where "?rest = add_mset (sessions c ! i) m" by (meson mset_add)
  ultimately show ?thesis by simp
qed

lemma replica_advance:
  assumes adv: "advance i c c'" and inv: "conc_inv c" and draws: "draws_ok (ledger_seq d0) c"
    and rep: "replica d0 c order d"
  shows "\<exists>order' d'. replica d0 c' order' d'"
  using advance_effect [OF adv]
proof
  let ?s = "sessions c ! i"
  assume cm: "committing ?s \<and> base c' = publish ?s (base c) \<and>
      committed c' = add_mset (?s\<lparr>sStage := Committed\<rparr>) (committed c)"
  have i: "i < length (sessions c)" using advance_shape(1) [OF adv] .
  have "sStage ?s \<noteq> Committed" using cm by (auto simp: committing_def)
  then have seq: "ledger_seq d + drawn ?s \<le> ledger_seq d0 + all_drawn (sessions c)"
    using committed_drawn [OF i] rep by (simp add: replica_def all_drawn_mset)
  obtain d' where d': "run_serially [?s] d = Some d'" "schema_ok d'" "strip d' = strip (publish ?s (base c))"
      "ledger_seq d' = ledger_seq d + drawn ?s"
    using commit_serially [OF inv i refl _ draws _ _ seq] cm rep by (auto simp: replica_def)
  have "drawn (?s\<lparr>sStage := Committed\<rparr>) = drawn ?s"
    using cm committing_facts(2) [OF conc_inv_at(1) [OF inv i]] by simp
  then have "replica d0 c' (order @ [?s\<lparr>sStage := Committed\<rparr>]) d'"
    using rep cm d' by (simp add: replica_def run_serially_append all_drawn_def)
  then show ?thesis by blast
qed (use rep in \<open>auto simp: replica_def\<close>)

lemma replica_step:
  assumes "conc_step c c'" and "conc_inv c" and "draws_ok (ledger_seq d0) c" and "replica d0 c order d"
  shows "\<exists>order' d'. replica d0 c' order' d'"
  using assms(1)
proof cases
  case (advanced i)
  then show ?thesis using replica_advance assms(2-) by blast
next
  case (killed i)
  then show ?thesis
    using committed_update [of i c c' "(sessions c ! i)\<lparr>sStage := RolledBack\<rparr>"] assms(4)
    by (auto simp: replica_def finished_def)
qed

lemma replica_steps:
  assumes "conc_step\<^sup>*\<^sup>* c0 c" and "start c0"
  shows "conc_inv c \<and> draws_ok (ledger_seq (base c0)) c \<and> (\<exists>order d. replica (base c0) c order d)"
  using assms(1)
proof (induction rule: rtranclp_induct)
  case base
  have "committed c0 = {#}" "schema_ok (conc.base c0)"
    using assms(2) by (auto simp: start_def committed_def filter_mset_eq_conv)
  then have "replica (conc.base c0) c0 [] (conc.base c0)"
    by (simp add: replica_def all_drawn_def)
  then show ?case using conc_inv_start draws_ok_start assms(2) by blast
next
  case (step c c')
  then show ?case
    using conc_inv_step draws_ok_step replica_step by blast
qed


section \<open>Property\<close>

text \<open>
  Concurrent transfers are serializable, as the code runs. Whatever the interleaving of the
  statements, and whichever transactions are killed, there is an order of the committed ones in
  which \<open>RunInTx\<close> with \<open>executeTransfer\<close>, run for one after the other on a server where nothing else
  happens, commits each of them and leaves the same database; only the ids of ledger entries may
  differ.
\<close>

theorem concurrent_transfers_run_the_code:
  assumes "start c0" and "conc_step\<^sup>*\<^sup>* c0 c"
  shows "\<exists>order d. mset order = filter_mset (\<lambda>s. sStage s = Committed) (mset (sessions c)) \<and>
    run_serially order (base c0) = Some d \<and> strip d = strip (base c)"
  using replica_steps [OF assms(2,1)] by (auto simp: replica_def committed_def)

theorem concurrent_transfers_run_the_code_witness:
  "\<exists>c order d. conc_step\<^sup>*\<^sup>* ex_conc c \<and> (\<forall>s\<in>set (sessions c). finished s) \<and>
     run_serially order ex_db = Some d \<and> strip d = strip (base c)"
proof -
  obtain c where c: "advances ex_conc c" "\<forall>s\<in>set (sessions c). finished s"
    using can_finish [OF conc_inv_start [OF ex_conc_start]] by blast
  then show ?thesis
    using concurrent_transfers_run_the_code [OF ex_conc_start advances_steps [OF c(1)]] advances_steps
    by (auto simp: ex_conc_def)
qed

end
