(* ===== verification/Requests.thy ===== *)
theory Requests
  imports Serial_Code
begin

text \<open>
  Many calls of \<open>Create\<close> at once. A call first looks for its key outside of any transaction, which
  the database refuses when the key is not a text it can hold; a call that finds no record opens a
  session of \<open>Concurrency\<close>; a session that is refused at its key makes the
  call look again. In between, other calls commit. The theorems say that the second look always
  finds the record, so that no call returns a nil transfer without an error; that all successful
  calls with one key return the same transfer; that at most one of them commits; and that every call
  can be answered.
\<close>

section \<open>Calls\<close>

datatype phase = Asking | Running | Replaying | Answered "(error, Transfer option) res"

record server =
  store :: conc
  phases :: "phase list"

abbreviation session_at :: "server \<Rightarrow> nat \<Rightarrow> session" where
  "session_at S i \<equiv> sessions (store S) ! i"

abbreviation committed_db :: "server \<Rightarrow> db" where
  "committed_db S \<equiv> base (store S)"

definition claim_for :: "session \<Rightarrow> db \<Rightarrow> (string \<times> Transfer) option" where
  "claim_for s d = claim_of (qIdempotencyKey (sReq s)) d"

text \<open>
  What a look at the key answers. The record and its transfer are two reads; rows that are
  committed never change, so they are one here.
\<close>

definition replay_answer :: "session \<Rightarrow> (string \<times> Transfer) option \<Rightarrow> (error, Transfer option) res" where
  "replay_answer s c =
     (case c of
        None \<Rightarrow> Ok None
      | Some (h, t) \<Rightarrow> if h \<noteq> hash (sReq s) then Err ErrIdempotencyConflict else Ok (Some t))"

text \<open>The transfer that \<open>executeTransfer\<close> returns when its transaction is about to commit.\<close>

definition returned :: "session \<Rightarrow> Transfer" where
  "returned s = scan_transfer
     (if sStage s = Credited then booked_row (sReq s) (sID s) (sNow s) StateProcessed None
      else booked_row (sReq s) (sID s) (sNow s) StateFailed (Some ''insufficient funds''))"

definition move :: "nat \<Rightarrow> conc \<Rightarrow> phase \<Rightarrow> server \<Rightarrow> server" where
  "move i c p S = \<lparr>store = c, phases = (phases S)[i := p]\<rparr>"

text \<open>A call that opens no transaction, or whose transaction is gone.\<close>

definition close :: "nat \<Rightarrow> conc \<Rightarrow> conc" where
  "close i c = put c i ((sessions c ! i)\<lparr>sStage := RolledBack\<rparr>)"

inductive call_step :: "server \<Rightarrow> server \<Rightarrow> bool" where
  key_free: "i < length (phases S) \<Longrightarrow> phases S ! i = Asking \<Longrightarrow>
    text_ok (qIdempotencyKey (sReq (session_at S i))) \<Longrightarrow>
    claim_for (session_at S i) (committed_db S) = None \<Longrightarrow> call_step S (move i (store S) Running S)"
| key_refused: "i < length (phases S) \<Longrightarrow> phases S ! i = Asking \<Longrightarrow>
    \<not> text_ok (qIdempotencyKey (sReq (session_at S i))) \<Longrightarrow> clean e \<Longrightarrow>
    call_step S (move i (close i (store S)) (Answered (Err e)) S)"
| key_taken: "i < length (phases S) \<Longrightarrow> phases S ! i = Asking \<Longrightarrow>
    claim_for (session_at S i) (committed_db S) = Some x \<Longrightarrow>
    call_step S (move i (close i (store S)) (Answered (replay_answer (session_at S i) (Some x))) S)"
| worked: "i < length (phases S) \<Longrightarrow> phases S ! i = Running \<Longrightarrow> advance i (store S) c \<Longrightarrow>
    \<not> finished (sessions c ! i) \<Longrightarrow> call_step S (move i c Running S)"
| committed: "i < length (phases S) \<Longrightarrow> phases S ! i = Running \<Longrightarrow> advance i (store S) c \<Longrightarrow>
    sStage (sessions c ! i) = Committed \<Longrightarrow>
    call_step S (move i c (Answered (Ok (Some (returned (session_at S i))))) S)"
| race_lost: "i < length (phases S) \<Longrightarrow> phases S ! i = Running \<Longrightarrow> advance i (store S) c \<Longrightarrow>
    sStage (sessions c ! i) = RolledBack \<Longrightarrow> sStage (session_at S i) = Inserted \<Longrightarrow>
    call_step S (move i c Replaying S)"
| failed: "i < length (phases S) \<Longrightarrow> phases S ! i = Running \<Longrightarrow> advance i (store S) c \<Longrightarrow>
    sStage (sessions c ! i) = RolledBack \<Longrightarrow> sStage (session_at S i) \<noteq> Inserted \<Longrightarrow> clean e \<Longrightarrow>
    call_step S (move i c (Answered (Err e)) S)"
| replayed: "i < length (phases S) \<Longrightarrow> phases S ! i = Replaying \<Longrightarrow>
    call_step S (move i (store S)
      (Answered (replay_answer (session_at S i) (claim_for (session_at S i) (committed_db S)))) S)"

text \<open>
  Faults: a read fails, a transaction dies at any statement, or a commit takes effect and its
  acknowledgement is lost.
\<close>

inductive serve_step :: "server \<Rightarrow> server \<Rightarrow> bool" where
  called: "call_step S S' \<Longrightarrow> serve_step S S'"
| read_failed: "i < length (phases S) \<Longrightarrow> phases S ! i = Asking \<or> phases S ! i = Replaying \<Longrightarrow> clean e \<Longrightarrow>
    serve_step S (move i (close i (store S)) (Answered (Err e)) S)"
| died: "i < length (phases S) \<Longrightarrow> phases S ! i = Running \<Longrightarrow> clean e \<Longrightarrow>
    serve_step S (move i (close i (store S)) (Answered (Err e)) S)"
| unacknowledged: "i < length (phases S) \<Longrightarrow> phases S ! i = Running \<Longrightarrow> advance i (store S) c \<Longrightarrow>
    sStage (sessions c ! i) = Committed \<Longrightarrow> clean e \<Longrightarrow> serve_step S (move i c (Answered (Err e)) S)"

inductive_cases call_stepE: "call_step S S'"
inductive_cases serve_stepE: "serve_step S S'"

text \<open>Callers that have just arrived, at a server whose database is in order.\<close>

definition arrivals :: "server \<Rightarrow> bool" where
  "arrivals S \<longleftrightarrow> start (store S) \<and> phases S = replicate (length (sessions (store S))) Asking"

section \<open>Claims only grow\<close>

definition grows :: "db \<Rightarrow> db \<Rightarrow> bool" where
  "grows d d' \<longleftrightarrow> (\<forall>k x. claim_of k d = Some x \<longrightarrow> claim_of k d' = Some x) \<and> idem_keys d \<subseteq> idem_keys d'"

definition linked :: "db \<Rightarrow> bool" where
  "linked d \<longleftrightarrow> irTransferID ` set (idempotency_records d) \<subseteq> transfer_ids d"

lemma claim_of_linked: "linked d \<Longrightarrow> k \<in> idem_keys d \<Longrightarrow> text_ok k \<Longrightarrow> claim_of k d \<noteq> None"
proof -
  assume d: "linked d" "k \<in> idem_keys d" "text_ok k"
  then obtain i where i: "find_idem k d = Some i"
    using find_idem_None_iff by (metis option.exhaust)
  then have "irTransferID i \<in> transfer_ids d"
    using d(1) idem_tbl.lookup_SomeD [OF i] by (auto simp: linked_def)
  then obtain r where "find_transfer (irTransferID i) d = Some r"
    using find_transfer_None_iff by (metis option.exhaust)
  with i d(3) show ?thesis by (simp add: claim_of_def)
qed

lemma grows_refl [simp]: "grows d d"
  by (simp add: grows_def)

lemma claim_of_strip [simp]: "claim_of k (strip d) = claim_of k d"
  using idem_tbl.lookup_cong [of "strip d" d] transfer_tbl.lookup_cong [of "strip d" d]
  by (simp add: claim_of_def split: option.split)

lemma strip_grows:
  assumes "strip d' = strip d"
  shows "grows d d'" and "linked d \<Longrightarrow> linked d'"
proof -
  have "claim_of k d' = claim_of k d" "idem_keys d' = idem_keys d" for k
    using assms claim_of_strip strip_sel(8) by metis+
  then show "grows d d'" by (simp add: grows_def)
  show "linked d \<Longrightarrow> linked d'"
    using assms strip_sel(3,7) unfolding linked_def by metis
qed

lemma publish_rows:
  "idempotency_records (publish s d) = idempotency_records d @ [claim_row (sReq s) (hash (sReq s)) (sID s) (sNow s)]"
  "\<exists>r. transfers (publish s d) = transfers d @ [r] \<and> rID r = sID s \<and> scan_transfer r = returned s"
  by (simp_all add: publish_def Let_def returned_def booked_row_def)

lemma publish_grows: "grows d (publish s d)"
proof -
  obtain r where r: "transfers (publish s d) = transfers d @ [r]"
    using publish_rows(2) by blast
  have "claim_of k (publish s d) = Some (h, t)" if "claim_of k d = Some (h, t)" for k h t
    using that idem_tbl.lookup_append [OF publish_rows(1)] transfer_tbl.lookup_append [OF r]
    by (auto simp: claim_of_Some)
  then show ?thesis by (auto simp: grows_def)
qed

lemma publish_linked: "linked d \<Longrightarrow> linked (publish s d)"
  unfolding linked_def publish_rows(1) by (auto simp: claim_row_def)

lemma publish_claims:
  assumes "sID s \<notin> transfer_ids d" and "qIdempotencyKey (sReq s) \<notin> idem_keys d"
    and "text_ok (qIdempotencyKey (sReq s))"
  shows "claim_for s (publish s d) = Some (hash (sReq s), returned s)"
proof -
  let ?i = "claim_row (sReq s) (hash (sReq s)) (sID s) (sNow s)"
  obtain r where r: "transfers (publish s d) = transfers d @ [r]" "rID r = sID s" "scan_transfer r = returned s"
    using publish_rows(2) by blast
  have "find_idem (irKey ?i) (publish s d) = Some ?i"
    using idem_tbl.lookup_snoc_fresh [OF publish_rows(1)] assms(2) by (simp add: idem_keys_def claim_row_def)
  moreover have "find_transfer (rID r) (publish s d) = Some r"
    using transfer_tbl.lookup_snoc_fresh [OF r(1)] assms(1) r(2) by (simp add: transfer_ids_def)
  ultimately show ?thesis
    using r(2,3) assms(3) by (auto simp: claim_for_def claim_of_Some claim_row_def)
qed

text \<open>What a step of a session does to the claims, and to the session itself.\<close>

lemma advance_grows:
  assumes "advance i c c'"
  shows "grows (base c) (base c') \<and> (linked (base c) \<longrightarrow> linked (base c'))"
  using advance_effect [OF assms] strip_grows publish_grows publish_linked by metis

lemma refused_unfinished: "refused s d \<Longrightarrow> \<not> finished s"
  by (auto simp: refused_def finished_def)

lemma advance_session:
  assumes "advance i c c'"
  shows "sessions c' = (sessions c)[i := sessions c' ! i]" and "sReq (sessions c' ! i) = sReq (sessions c ! i)"
    and "sID (sessions c' ! i) = sID (sessions c ! i)" and "\<not> finished (sessions c ! i)"
    and "sStage (sessions c' ! i) \<noteq> Begun"
  using assms by (cases; auto simp: finished_def dest: refused_unfinished)+

lemma advance_commits:
  assumes "advance i c c'" and "conc_inv c" and "sStage (sessions c' ! i) = Committed"
  shows "claim_for (sessions c ! i) (base c') = Some (hash (sReq (sessions c ! i)), returned (sessions c ! i))"
proof -
  let ?s = "sessions c ! i"
  have i: "i < length (sessions c)" using advance_shape(1) [OF assms(1)] .
  have "committing ?s \<and> base c' = publish ?s (base c)"
    using assms(1,3) i by cases (auto simp: committing_def)
  moreover from this have "sID ?s \<notin> transfer_ids (base c)" "qIdempotencyKey (sReq ?s) \<notin> idem_keys (base c)"
    "text_ok (qIdempotencyKey (sReq ?s))"
    using conc_inv_at(1) [OF assms(2) i] by (auto simp: session_ok_def committing_def)
  ultimately show ?thesis using publish_claims by simp
qed

lemma advance_loses:
  assumes "advance i c c'" and "sStage (sessions c' ! i) = RolledBack" and "sStage (sessions c ! i) = Inserted"
    and "text_ok (qIdempotencyKey (sReq (sessions c ! i)))"
  shows "qIdempotencyKey (sReq (sessions c ! i)) \<in> idem_keys (base c')"
proof -
  have "i < length (sessions c)" using advance_shape(1) [OF assms(1)] .
  with assms(1) show ?thesis
    using assms(2-) by cases (auto simp: refused_def)
qed

section \<open>The invariant\<close>

definition answer_ok :: "db \<Rightarrow> session \<Rightarrow> (error, Transfer option) res \<Rightarrow> bool" where
  "answer_ok d s r \<longleftrightarrow>
     (case r of
        Ok (Some t) \<Rightarrow> claim_for s d = Some (hash (sReq s), t)
      | Ok None \<Rightarrow> False
      | Err e \<Rightarrow> e = ErrIdempotencyConflict \<longrightarrow> (\<exists>h t. claim_for s d = Some (h, t) \<and> h \<noteq> hash (sReq s))
      | Panic p \<Rightarrow> False)"

definition call_ok :: "db \<Rightarrow> session \<Rightarrow> phase \<Rightarrow> bool" where
  "call_ok d s p \<longleftrightarrow>
     (case p of
        Asking \<Rightarrow> sStage s = Begun
      | Running \<Rightarrow> \<not> finished s \<and> text_ok (qIdempotencyKey (sReq s))
      | Replaying \<Rightarrow> sStage s = RolledBack \<and> qIdempotencyKey (sReq s) \<in> idem_keys d \<and> text_ok (qIdempotencyKey (sReq s))
      | Answered r \<Rightarrow> finished s \<and> answer_ok d s r) \<and>
     (sStage s = Committed \<longrightarrow> (\<exists>h t. claim_for s d = Some (h, t) \<and> tID t = sID s))"

definition server_inv :: "server \<Rightarrow> bool" where
  "server_inv S \<longleftrightarrow>
     conc_inv (store S) \<and> linked (committed_db S) \<and> length (phases S) = length (sessions (store S)) \<and>
     (\<forall>i<length (phases S). call_ok (committed_db S) (session_at S i) (phases S ! i))"

lemma call_ok_grows: "grows d d' \<Longrightarrow> call_ok d s p \<Longrightarrow> call_ok d' s p"
  by (auto simp: call_ok_def answer_ok_def claim_for_def grows_def split: phase.splits res.splits option.splits)

lemma server_inv_move:
  assumes inv: "server_inv S" and c: "conc_inv c" "sessions c = (sessions (store S))[i := s]"
    and g: "grows (committed_db S) (base c)" "linked (base c)" and ok: "call_ok (base c) s p"
  shows "server_inv (move i c p S)"
proof -
  have "call_ok (base c) (sessions c ! j) ((phases S)[i := p] ! j)" if "j < length (phases S)" for j
    using that inv c(2) ok call_ok_grows [OF g(1)] by (cases "j = i") (auto simp: server_inv_def)
  then show ?thesis
    using inv c g(2) by (simp add: server_inv_def move_def)
qed

lemma server_inv_advance:
  assumes inv: "server_inv S" and i: "i < length (phases S)" and adv: "advance i (store S) c"
    and ok: "call_ok (base c) (sessions c ! i) p"
  shows "server_inv (move i c p S)"
  using inv conc_inv_advance [OF adv] advance_grows [OF adv] ok
  by (intro server_inv_move [OF inv _ advance_session(1) [OF adv]]) (auto simp: server_inv_def)

lemma server_inv_close:
  assumes inv: "server_inv S" and i: "i < length (phases S)" and st: "sStage (session_at S i) \<noteq> Committed"
    and ok: "answer_ok (committed_db S) (session_at S i) r"
  shows "server_inv (move i (close i (store S)) (Answered r) S)"
proof -
  let ?s = "(session_at S i)\<lparr>sStage := RolledBack\<rparr>"
  have j: "i < length (sessions (store S))" and ci: "conc_inv (store S)"
    using inv i by (simp_all add: server_inv_def)
  have "conc_inv (close i (store S))"
    by (rule conc_inv_move [OF ci j refl, where W = "{}" and K = "{}", OF _ _ _ _ _ _ close_def [unfolded put_conc]])
      (auto simp: step_simps)
  moreover have "call_ok (committed_db S) ?s (Answered r)"
    using ok by (auto simp: call_ok_def answer_ok_def claim_for_def finished_def split: res.splits option.splits)
  ultimately show ?thesis
    using inv by (intro server_inv_move [OF inv, of _ i ?s]) (auto simp: close_def server_inv_def)
qed

lemma answer_ok_replay:
  assumes "claim_for s d \<noteq> None"
  shows "answer_ok d s (replay_answer s (claim_for s d))"
  using assms by (auto simp: answer_ok_def replay_answer_def)

lemma answer_ok_clean: "clean e \<Longrightarrow> answer_ok d s (Err e)"
  by (auto simp: answer_ok_def)

lemma server_inv_phase:
  assumes inv: "server_inv S" and i: "i < length (phases S)" and ok: "call_ok (committed_db S) (session_at S i) p"
  shows "server_inv (move i (store S) p S)"
  using inv by (intro server_inv_move [OF inv, of _ i "session_at S i"]) (auto simp: server_inv_def ok)

text \<open>The answer of a committed transaction, acknowledged or not.\<close>

lemma server_inv_committed:
  assumes inv: "server_inv S" and i: "i < length (phases S)" and adv: "advance i (store S) c"
    and st: "sStage (sessions c ! i) = Committed"
    and r: "r = Ok (Some (returned (session_at S i))) \<or> (\<exists>e. r = Err e \<and> clean e)"
  shows "server_inv (move i c (Answered r) S)"
proof (rule server_inv_advance [OF inv i adv])
  let ?s = "sessions c ! i"
  have cl: "claim_for ?s (base c) = Some (hash (sReq ?s), returned (session_at S i))"
    using advance_commits [OF adv _ st] inv advance_session(2) [OF adv] by (simp add: claim_for_def server_inv_def)
  moreover have "tID (returned (session_at S i)) = sID ?s"
    using advance_session(3) [OF adv] by (simp add: returned_def scan_transfer_def booked_row_def)
  moreover have "answer_ok (base c) ?s r"
    using r cl answer_ok_clean by (auto simp: answer_ok_def)
  ultimately show "call_ok (base c) ?s (Answered r)"
    using st by (simp add: call_ok_def finished_def)
qed

lemma server_inv_call:
  assumes "call_step S S'" and inv: "server_inv S"
  shows "server_inv S'"
proof -
  have ok: "call_ok (committed_db S) (session_at S i) (phases S ! i)" if "i < length (phases S)" for i
    using inv that by (simp add: server_inv_def)
  show ?thesis
    using assms(1)
  proof cases
    case (key_free i)
    then show ?thesis
      using ok [of i] server_inv_phase [OF inv, of i Running] by (simp add: call_ok_def finished_def)
  next
    case (key_taken i x)
    then show ?thesis
      using ok [of i] answer_ok_replay [of "session_at S i" "committed_db S"] server_inv_close [OF inv]
      by (simp add: call_ok_def)
  next
    case (key_refused i e)
    then show ?thesis
      using ok [of i] server_inv_close [OF inv key_refused(2)] answer_ok_clean by (simp add: call_ok_def)
  next
    case (worked i c)
    then show ?thesis
      using ok [OF worked(2)] advance_session(2) [OF worked(4)] server_inv_advance [OF inv worked(2,4), of Running] by (simp add: call_ok_def finished_def)
  next
    case (committed i c)
    then show ?thesis using server_inv_committed [OF inv] by blast
  next
    case (race_lost i c)
    then show ?thesis
      using ok [OF race_lost(2)] server_inv_advance [OF inv race_lost(2,4), of Replaying] advance_loses [OF race_lost(4-6)]
        advance_session(2) [OF race_lost(4)]
      by (simp add: call_ok_def finished_def)
  next
    case (failed i c e)
    then show ?thesis
      using server_inv_advance [OF inv failed(2,4), of "Answered (Err e)"] answer_ok_clean [OF failed(7)]
      by (simp add: call_ok_def finished_def)
  next
    case (replayed i)
    have "claim_for (session_at S i) (committed_db S) \<noteq> None"
      using ok [OF replayed(2)] replayed(3) inv claim_of_linked by (simp add: call_ok_def claim_for_def server_inv_def)
    then show ?thesis
      unfolding replayed(1)
      using ok [OF replayed(2)] replayed(3) answer_ok_replay
      by (intro server_inv_phase [OF inv replayed(2)]) (simp add: call_ok_def finished_def)
  qed
qed

lemma server_inv_serve:
  assumes "serve_step S S'" and inv: "server_inv S"
  shows "server_inv S'"
  using assms(1)
proof cases
  case called
  then show ?thesis using server_inv_call inv by blast
next
  case (read_failed i e)
  have "call_ok (committed_db S) (session_at S i) (phases S ! i)"
    using inv read_failed(2) by (simp add: server_inv_def)
  then show ?thesis
    using read_failed server_inv_close [OF inv read_failed(2)] answer_ok_clean by (auto simp: call_ok_def)
next
  case (died i e)
  have "call_ok (committed_db S) (session_at S i) (phases S ! i)"
    using inv died(2) by (simp add: server_inv_def)
  then show ?thesis
    using died server_inv_close [OF inv died(2)] answer_ok_clean by (simp add: call_ok_def finished_def)
next
  case (unacknowledged i c e)
  then show ?thesis using server_inv_committed [OF inv] by blast
qed

lemma server_inv_arrivals:
  assumes "arrivals S"
  shows "server_inv S"
proof -
  have st: "start (store S)" and p: "phases S = replicate (length (sessions (store S))) Asking"
    using assms by (simp_all add: arrivals_def)
  have "linked (committed_db S)"
    using st by (auto simp: start_def schema_defs linked_def)
  moreover have "call_ok (committed_db S) (session_at S i) Asking" if "i < length (sessions (store S))" for i
    using st that by (simp add: start_def call_ok_def)
  ultimately show ?thesis
    using conc_inv_start [OF st] p by (simp add: server_inv_def)
qed

lemma server_inv_reachable:
  "serve_step\<^sup>*\<^sup>* S0 S \<Longrightarrow> arrivals S0 \<Longrightarrow> server_inv S"
  by (induction rule: rtranclp_induct) (auto intro: server_inv_arrivals server_inv_serve)

text \<open>Requests and ids stay with their calls.\<close>

definition request_at :: "server \<Rightarrow> nat \<Rightarrow> CreateTransferRequest" where
  "request_at S i = sReq (session_at S i)"

lemma advance_request:
  "advance i c c' \<Longrightarrow> sReq (sessions c' ! j) = sReq (sessions c ! j)"
  using advance_session(1,2) [of i c c'] advance_shape(1) [of i c c'] by (metis nth_list_update)

lemma close_request [simp]: "sReq (sessions (close i c) ! j) = sReq (sessions c ! j)"
  by (cases "i < length (sessions c)") (auto simp: close_def nth_list_update list_update_beyond)

lemma serve_request: "serve_step S S' \<Longrightarrow> request_at S' j = request_at S j \<and> length (phases S') = length (phases S)"
  by (auto simp: request_at_def move_def advance_request elim!: serve_stepE call_stepE)

lemma serve_requests:
  "serve_step\<^sup>*\<^sup>* S0 S \<Longrightarrow> request_at S j = request_at S0 j \<and> length (phases S) = length (phases S0)"
  by (induction rule: rtranclp_induct) (auto simp: serve_request)


section \<open>Every call can be answered\<close>

fun phase_left :: "phase \<Rightarrow> nat" where
  "phase_left Asking = 2"
| "phase_left Running = 1"
| "phase_left Replaying = 1"
| "phase_left (Answered r) = 0"

definition calls_left :: "server \<Rightarrow> nat" where
  "calls_left S = work_left (store S) + sum_list (map phase_left (phases S))"

definition answered :: "server \<Rightarrow> bool" where
  "answered S \<longleftrightarrow> (\<forall>p\<in>set (phases S). \<exists>r. p = Answered r)"

lemma sum_list_update_le:
  fixes f :: "'a \<Rightarrow> nat"
  shows "i < length xs \<Longrightarrow> f y \<le> f (xs ! i) \<Longrightarrow> sum_list (map f (xs[i := y])) \<le> sum_list (map f xs)"
  by (induction xs arbitrary: i) (auto split: nat.splits)

lemma work_left_close:
  "i < length (sessions c) \<Longrightarrow> work_left (close i c) \<le> work_left c"
  unfolding work_left_def close_def put_sel by (rule sum_list_update_le) simp_all

lemma calls_left_move:
  assumes "i < length (phases S)" and "work_left c + phase_left p < work_left (store S) + phase_left (phases S ! i)"
  shows "calls_left (move i c p S) < calls_left S"
proof -
  have "phase_left (phases S ! i) \<le> sum_list (map phase_left (phases S))"
    using assms(1) member_le_sum_list [of "phase_left (phases S ! i)" "map phase_left (phases S)"] by simp
  then show ?thesis
    using assms sum_list_update [of i "map phase_left (phases S)" "phase_left p"]
    by (simp add: calls_left_def move_def map_update)
qed

lemma call_step_nearer:
  assumes "call_step S S'" and inv: "server_inv S"
  shows "calls_left S' < calls_left S"
proof -
  have len: "length (phases S) = length (sessions (store S))" using inv by (simp add: server_inv_def)
  show ?thesis
    using assms(1)
  proof cases
    case (key_taken i x)
    then show ?thesis
      using work_left_close [of i "store S"] by (auto intro!: calls_left_move simp: len)
  next
    case (key_refused i e)
    then show ?thesis
      using work_left_close [of i "store S"] by (auto intro!: calls_left_move simp: len)
  qed (use advance_work in \<open>fastforce intro!: calls_left_move\<close>)+
qed

lemma call_enabled:
  assumes inv: "server_inv S" and "\<not> answered S"
  shows "\<exists>S'. call_step S S'"
proof -
  have ok: "call_ok (committed_db S) (session_at S i) (phases S ! i)" if "i < length (phases S)" for i
    using inv that by (simp add: server_inv_def)
  have asking: ?thesis if "i < length (phases S)" "phases S ! i = Asking" for i
    using that call_step.key_free [of i S] call_step.key_taken [of i S] call_step.key_refused [of i S ErrNotFound] clean_simps
    by (cases "claim_for (session_at S i) (committed_db S)") blast+
  have running: ?thesis if "i < length (phases S)" "phases S ! i = Running" "advance i (store S) c" for i c
  proof -
    have "clean ErrNotFound" by simp
    with that show ?thesis
      using call_step.worked call_step.committed call_step.race_lost call_step.failed
      unfolding finished_def by metis
  qed
  obtain i where i: "i < length (phases S)" "\<nexists>r. phases S ! i = Answered r"
    using assms(2) by (auto simp: answered_def in_set_conv_nth)
  show ?thesis
  proof (cases "phases S ! i")
    case Running
    then have "\<not> finished (session_at S i)" using ok [OF i(1)] by (simp add: call_ok_def)
    then obtain j c where j: "advance j (store S) c"
      using no_deadlock [of "store S" i] inv i(1) by (auto simp: server_inv_def)
    then have jl: "j < length (phases S)"
      using advance_shape(1) inv by (auto simp: server_inv_def)
    have "phases S ! j = Asking \<or> phases S ! j = Running"
      using advance_session(4) [OF j] ok [OF jl] by (auto simp: call_ok_def finished_def split: phase.splits)
    then show ?thesis using asking running jl j by blast
  qed (use i asking call_step.replayed in blast)+
qed

lemma calls_can_end:
  "server_inv S \<Longrightarrow> \<exists>S'. call_step\<^sup>*\<^sup>* S S' \<and> answered S'"
proof (induction "calls_left S" arbitrary: S rule: less_induct)
  case less
  show ?case
  proof (cases "answered S")
    case False
    then obtain S1 where S1: "call_step S S1" using call_enabled [OF less.prems] by blast
    then obtain S' where "call_step\<^sup>*\<^sup>* S1 S'" "answered S'"
      using less.hyps call_step_nearer server_inv_call less.prems by blast
    then show ?thesis using S1 converse_rtranclp_into_rtranclp by metis
  qed blast
qed

end
