(* ===== verification/Schedule.thy ===== *)
theory Schedule
  imports Requests
begin

text \<open>
  The step relations of \<open>Concurrency\<close> and \<open>Requests\<close> as functions: what the next statement of a given
  session, and the next step of a given call, is. A schedule, a list of calls, can so be evaluated.
\<close>

definition step_session :: "nat \<Rightarrow> conc \<Rightarrow> conc option" where
  "step_session i c =
     (if \<not> i < length (sessions c) then None
      else
        (let s = sessions c ! i in
         if refused s (base c) then Some (put c i (s\<lparr>sStage := RolledBack\<rparr>))
         else case sStage s of
           Begun \<Rightarrow> if free_wallet (firstID s) c i then Some (put c i (s\<lparr>sStage := LockedFirst\<rparr>)) else None
         | LockedFirst \<Rightarrow> if free_wallet (secondID s) c i then Some (put c i (s\<lparr>sStage := LockedBoth\<rparr>)) else None
         | LockedBoth \<Rightarrow>
             (case (find_wallet (qFromWalletID (sReq s)) (base c), find_wallet (qToWalletID (sReq s)) (base c)) of
                (Some src, Some dst) \<Rightarrow> Some (put c i (s\<lparr>sStage := Fetched, sSrc := src, sDst := dst\<rparr>))
              | _ \<Rightarrow> None)
         | Fetched \<Rightarrow> Some (put c i (s\<lparr>sStage := Inserted\<rparr>))
         | Inserted \<Rightarrow>
             if free_key (qIdempotencyKey (sReq s)) c i then Some (put c i (s\<lparr>sStage := Claimed\<rparr>)) else None
         | Claimed \<Rightarrow>
             if covers s then Some (put c i (s\<lparr>sStage := Paid\<rparr>))
             else Some ((put c i (s\<lparr>sStage := Committed\<rparr>))\<lparr>base := publish s (base c)\<rparr>)
         | Paid \<Rightarrow> Some (put (draw c) i (s\<lparr>sStage := Debited, sDebitID := ledger_seq (base c) + 1\<rparr>))
         | Debited \<Rightarrow> Some (put (draw c) i (s\<lparr>sStage := Credited, sCreditID := ledger_seq (base c) + 1\<rparr>))
         | Credited \<Rightarrow> Some ((put c i (s\<lparr>sStage := Committed\<rparr>))\<lparr>base := publish s (base c)\<rparr>)
         | _ \<Rightarrow> None))"

lemma step_session_sound:
  assumes "step_session i c = Some c'"
  shows "advance i c c'"
proof -
  let ?s = "sessions c ! i"
  have i: "i < length (sessions c)"
    using assms by (auto simp: step_session_def split: if_splits)
  note rules = advance.intros [OF i refl]
  show ?thesis
  proof (cases "refused ?s (base c)")
    case True
    then show ?thesis using assms rules(10) by (simp add: step_session_def i)
  next
    case False
    then show ?thesis
      using assms rules by (cases "sStage ?s") (auto simp: step_session_def i Let_def split: if_splits option.splits)
  qed
qed

lemma step_session_complete:
  assumes "advance i c c'"
  shows "step_session i c = Some c'"
proof -
  have nr: "\<not> refused s d" if "sStage s = LockedBoth \<or> sStage s = Credited \<or> sStage s = Claimed \<and> \<not> covers s" for s d
    using that by (auto simp: refused_def)
  from assms show ?thesis
    by cases (auto simp: step_session_def Let_def nr)
qed

theorem step_session_iff: "step_session i c = Some c' \<longleftrightarrow> advance i c c'"
  using step_session_sound step_session_complete by blast

definition call_next :: "nat \<Rightarrow> server \<Rightarrow> server option" where
  "call_next i S =
     (if \<not> i < length (phases S) then None
      else case phases S ! i of
        Asking \<Rightarrow>
          if \<not> text_ok (qIdempotencyKey (sReq (session_at S i)))
          then Some (move i (close i (store S)) (Answered (Err (wrap ''scan idempotency'' invalid_text))) S)
          else
          (case claim_for (session_at S i) (committed_db S) of
             None \<Rightarrow> Some (move i (store S) Running S)
           | Some x \<Rightarrow> Some (move i (close i (store S)) (Answered (replay_answer (session_at S i) (Some x))) S))
      | Running \<Rightarrow>
          (case step_session i (store S) of
             None \<Rightarrow> None
           | Some c \<Rightarrow>
               Some (move i c
                 (if sStage (sessions c ! i) = Committed then Answered (Ok (Some (returned (session_at S i))))
                  else if sStage (sessions c ! i) \<noteq> RolledBack then Running
                  else if sStage (session_at S i) = Inserted then Replaying
                  else Answered (Err ErrNotFound)) S))
      | Replaying \<Rightarrow>
          Some (move i (store S) (Answered (replay_answer (session_at S i) (claim_for (session_at S i) (committed_db S)))) S)
      | Answered r \<Rightarrow> None)"

lemma call_next_step: "call_next i S = Some S' \<Longrightarrow> call_step S S'"
  by (auto simp: call_next_def finished_def intro: call_step.intros dest!: step_session_sound
      split: if_splits phase.splits option.splits)

fun run_calls :: "nat list \<Rightarrow> server \<Rightarrow> server option" where
  "run_calls [] S = Some S"
| "run_calls (i # is) S = Option.bind (call_next i S) (run_calls is)"

lemma run_calls_steps: "run_calls is S = Some S' \<Longrightarrow> call_step\<^sup>*\<^sup>* S S'"
  by (induction "is" arbitrary: S)
    (auto simp: bind_eq_Some_conv intro: converse_rtranclp_into_rtranclp dest: call_next_step)

text \<open>Two calls with one key race: both find it free, one commits, the other one loses and replays.\<close>

definition ex_race :: server where
  "ex_race =
     \<lparr>store = \<lparr>base = ex_db, sessions = [ex_session ''k'' ''a'' ''b'' 1, ex_session ''k'' ''a'' ''b'' 2]\<rparr>, phases = [Asking, Asking]\<rparr>"

definition ex_schedule :: "nat list" where
  "ex_schedule = [0, 1, 0, 0, 0, 0, 0, 0, 0, 0, 0, 1, 1, 1, 1, 1, 1]"

lemmas schedule_simps = ex_schedule_def ex_race_def ex_session_def ex_db_def empty_db_def wallet_row_def
  call_next_def step_session_def Let_def refused_def firstID_def secondID_def orderedPair_def put_def draw_def
  move_def close_def free_wallet_def free_key_def held_def key_held_def All_less_Suc find_wallet_def covers_def
  wallet_ids_def transfer_ids_def idem_keys_def claim_for_def claim_of_def find_idem_def find_transfer_def
  publish_def returned_def replay_answer_def booked_row_def claim_row_def scan_transfer_def write_balances_def

definition ex_transfer :: Transfer where
  "ex_transfer = scan_transfer (booked_row (ex_req 30) 1 8 StateProcessed None)"

lemma ex_race_lost: "map_option (\<lambda>S. phases S) (run_calls (butlast ex_schedule) ex_race) = Some [Answered (Ok (Some ex_transfer)), Replaying]"
  by (simp add: schedule_simps ex_transfer_def ex_req_def)

lemma ex_race_runs:
  "map_option (\<lambda>S. phases S) (run_calls ex_schedule ex_race)
     = Some [Answered (Ok (Some ex_transfer)), Answered (Ok (Some ex_transfer))]"
  by (simp add: schedule_simps ex_transfer_def ex_req_def)

lemma ex_race_arrivals: "arrivals ex_race"
  using ex_db_books by (simp add: arrivals_def start_def ex_race_def ex_session_def Validate_def books_ok_def numeral_eq_Suc)

lemma call_serve: "call_step\<^sup>*\<^sup>* S S' \<Longrightarrow> serve_step\<^sup>*\<^sup>* S S'"
  by (induction rule: rtranclp_induct) (auto intro: rtranclp.rtrancl_into_rtrancl called)

lemmas run_calls_serve = call_serve [OF run_calls_steps]

section \<open>Properties\<close>

text \<open>
  C7: a lost race always finds its winner. While many calls of \<open>Create\<close> run at once, under any
  faults: whenever a call has lost the race for its key, the record it looks up again is committed,
  with its transfer; so no call ever returns a nil transfer without an error, and a call that
  returns a conflict was preceded by a committed record with another hash.
\<close>

theorem lost_race_finds_the_winner:
  assumes "arrivals S0" and "serve_step\<^sup>*\<^sup>* S0 S" and "i < length (phases S)"
  shows "(phases S ! i = Replaying \<longrightarrow> claim_of (qIdempotencyKey (request_at S0 i)) (committed_db S) \<noteq> None) \<and>
    phases S ! i \<noteq> Answered (Ok None) \<and>
    (phases S ! i = Answered (Err ErrIdempotencyConflict) \<longrightarrow>
       (\<exists>h t. claim_of (qIdempotencyKey (request_at S0 i)) (committed_db S) = Some (h, t) \<and> h \<noteq> hash (request_at S0 i)))"
proof -
  have inv: "server_inv S" using server_inv_reachable [OF assms(2,1)] .
  then have "call_ok (committed_db S) (session_at S i) (phases S ! i)" "linked (committed_db S)"
    using assms(3) by (simp_all add: server_inv_def)
  then show ?thesis
    using claim_of_linked serve_requests [OF assms(2), of i]
    by (auto simp: call_ok_def answer_ok_def claim_for_def request_at_def)
qed

text \<open>
  C6: concurrent calls of \<open>Create\<close> with one key have one outcome. However their statements
  interleave and fail: all that return a transfer return the same one, it is the committed one, for
  their hash; and of the calls with one key at most one commits a transaction, the unacknowledged
  ones included.
\<close>

theorem concurrent_creates_agree:
  assumes "arrivals S0" and "serve_step\<^sup>*\<^sup>* S0 S" and "i < length (phases S)" and "j < length (phases S)"
    and key: "qIdempotencyKey (request_at S0 i) = qIdempotencyKey (request_at S0 j)"
  shows "(phases S ! i = Answered (Ok (Some t)) \<longrightarrow>
      claim_of (qIdempotencyKey (request_at S0 i)) (committed_db S) = Some (hash (request_at S0 i), t)) \<and>
    (phases S ! i = Answered (Ok (Some t)) \<longrightarrow> phases S ! j = Answered (Ok (Some t')) \<longrightarrow> t = t') \<and>
    (sStage (session_at S i) = Committed \<longrightarrow> sStage (session_at S j) = Committed \<longrightarrow> i = j)"
proof -
  have inv: "server_inv S" using server_inv_reachable [OF assms(2,1)] .
  then have ok: "call_ok (committed_db S) (session_at S i) (phases S ! i)"
      "call_ok (committed_db S) (session_at S j) (phases S ! j)"
    using assms(3,4) by (simp_all add: server_inv_def)
  have req: "sReq (session_at S i) = request_at S0 i" "sReq (session_at S j) = request_at S0 j"
    using serve_requests [OF assms(2)] by (simp_all add: request_at_def)
  have "i = j" if "sID (session_at S i) = sID (session_at S j)"
    using that inv assms(3,4) by (auto simp: server_inv_def conc_inv_def apart_def)
  then show ?thesis
    using ok key by (auto simp: call_ok_def answer_ok_def claim_for_def req)
qed

text \<open>
  C8: every call of \<open>Create\<close> can be answered. In every state that many calls and faults can reach,
  some unanswered call can take its next step without any fault, every such step brings the server
  nearer to an end, and there is a way to answer them all.
\<close>

theorem concurrent_creates_answered:
  assumes "arrivals S0" and "serve_step\<^sup>*\<^sup>* S0 S"
  shows "(answered S \<or> (\<exists>S'. call_step S S')) \<and> (\<forall>S'. call_step S S' \<longrightarrow> calls_left S' < calls_left S) \<and>
    (\<exists>S'. call_step\<^sup>*\<^sup>* S S' \<and> answered S')"
  using server_inv_reachable [OF assms(2,1)] call_enabled call_step_nearer calls_can_end by blast

theorem lost_race_finds_the_winner_witness:
  "\<exists>S. run_calls (butlast ex_schedule) ex_race = Some S \<and> phases S ! 1 = Replaying \<and>
     claim_of ''k'' (committed_db S) \<noteq> None"
proof -
  obtain S where S: "run_calls (butlast ex_schedule) ex_race = Some S" "phases S = [Answered (Ok (Some ex_transfer)), Replaying]"
    using ex_race_lost by auto
  have "qIdempotencyKey (request_at ex_race 1) = ''k''"
    by (simp add: request_at_def ex_race_def ex_session_def)
  then show ?thesis
    using lost_race_finds_the_winner [OF ex_race_arrivals run_calls_serve [OF S(1)], of 1] S by auto
qed

theorem concurrent_creates_agree_witness:
  "\<exists>S. run_calls ex_schedule ex_race = Some S \<and> phases S ! 1 = Answered (Ok (Some ex_transfer)) \<and>
     claim_of ''k'' (committed_db S) = Some (hash (ex_req 30), ex_transfer)"
proof -
  obtain S where S: "run_calls ex_schedule ex_race = Some S"
      "phases S = [Answered (Ok (Some ex_transfer)), Answered (Ok (Some ex_transfer))]"
    using ex_race_runs by auto
  have "request_at ex_race 1 = ex_req 30" "request_at ex_race 0 = ex_req 30"
    by (simp_all add: request_at_def ex_race_def ex_session_def ex_req_def)
  then show ?thesis
    using concurrent_creates_agree [OF ex_race_arrivals run_calls_serve [OF S(1)], of 1 0 ex_transfer] S
    by (auto simp: ex_req_def)
qed

theorem concurrent_creates_answered_witness:
  "\<exists>S S'. run_calls (butlast ex_schedule) ex_race = Some S \<and> call_step\<^sup>*\<^sup>* S S' \<and> answered S'"
proof -
  obtain S where S: "run_calls (butlast ex_schedule) ex_race = Some S"
    using ex_race_lost by auto
  then show ?thesis
    using concurrent_creates_answered [OF ex_race_arrivals run_calls_serve [OF S]] by blast
qed

end
