(* ===== verification/Linearizable.thy ===== *)
theory Linearizable
  imports Schedule
begin

text \<open>
  Many calls of \<open>Create\<close> at once against the code of \<open>Create\<close>. Every history of \<open>Requests\<close> has an order
  of the calls that took effect in which \<open>TransferService_Create\<close> itself, called for one after the
  other on a server where nothing else happens, gives each of them the answer it got and leaves the
  same database, up to the ids of ledger entries. A call takes effect between its start and its
  answer: the order of what was answered earlier is kept when the history goes on. Calls that fail
  are not in the order, except those whose commit took effect and whose acknowledgement was lost.
\<close>

section \<open>Calling the code serially\<close>

type_synonym call = "CreateTransferRequest \<times> uuid \<times> time"
type_synonym answer = "(error, Transfer option) res"

fun creates_serially :: "(call \<times> answer) list \<Rightarrow> db \<Rightarrow> db option" where
  "creates_serially [] d = Some d"
| "creates_serially (((req, u, now), r) # cs) d =
     (let (r', w) = TransferService_Create req u (quiet_world d now)
      in if r' = r then creates_serially cs (disk w) else None)"

lemma creates_serially_append:
  "creates_serially (xs @ ys) d = Option.bind (creates_serially xs d) (creates_serially ys)"
  by (induction xs d rule: creates_serially.induct) (auto split: prod.split)

definition call_at :: "server \<Rightarrow> nat \<Rightarrow> call" where
  "call_at S i = (sReq (session_at S i), sID (session_at S i), sNow (session_at S i))"

text \<open>Answers that tell the outcome: a transfer, or the conflict.\<close>

fun settled :: "answer \<Rightarrow> bool" where
  "settled (Ok x) \<longleftrightarrow> True"
| "settled (Err e) \<longleftrightarrow> e = ErrIdempotencyConflict"
| "settled (Panic p) \<longleftrightarrow> True"

text \<open>
  A history records every settled answer and every committed transaction, each call once, and
  nothing else.
\<close>

definition records :: "server \<Rightarrow> (nat \<times> answer) list \<Rightarrow> bool" where
  "records S h \<longleftrightarrow>
     distinct (map fst h) \<and>
     (\<forall>(i, r)\<in>set h. i < length (phases S) \<and>
        (phases S ! i = Answered r \<or>
         sStage (session_at S i) = Committed \<and> (\<exists>e. phases S ! i = Answered (Err e)))) \<and>
     (\<forall>i<length (phases S).
        (sStage (session_at S i) = Committed \<longrightarrow> i \<in> fst ` set h) \<and>
        (case phases S ! i of Answered r \<Rightarrow> settled r \<longrightarrow> (i, r) \<in> set h | _ \<Rightarrow> True))"

definition linearizes :: "server \<Rightarrow> server \<Rightarrow> (nat \<times> answer) list \<Rightarrow> bool" where
  "linearizes S0 S h \<longleftrightarrow> records S h \<and>
     map_option strip (creates_serially (map (\<lambda>(i, r). (call_at S0 i, r)) h) (committed_db S0))
       = Some (strip (committed_db S))"

section \<open>One call, run alone\<close>

lemma Create_replays_alone:
  assumes "Validate (sReq s) = None" and "claim_for s d = Some x"
  shows "\<exists>w. TransferService_Create (sReq s) u (quiet_world d now) = (replay_answer s (Some x), w) \<and> disk w = d"
  using Create_replay_quiet [of "quiet_world d now" "sReq s" "fst x" "snd x" u] assms
  by (cases x) (auto simp: replay_answer_def claim_for_def observe_def)

lemma Create_commits_alone:
  assumes cb: "can_book (sReq s) (sID s) d" and "schema_ok d" and "Validate (sReq s) = None"
    and cm: "committing s" "funded (sReq s) d \<longleftrightarrow> covers s" and cv: "sStage s = Credited \<Longrightarrow> covers s"
  shows "\<exists>w. TransferService_Create (sReq s) (sID s) (quiet_world d (sNow s)) = (Ok (Some (returned s)), w) \<and>
    disk w = book (sReq s) (hash (sReq s)) (sID s) (sNow s) d"
proof -
  have "returned s = scan_transfer (outcome_row (sReq s) (sID s) (sNow s) d)"
    using cm cv by (auto simp: returned_def outcome_row_def committing_def)
  moreover have "qIdempotencyKey (sReq s) \<notin> idem_keys d" "text_ok (qIdempotencyKey (sReq s))"
    using cb by (simp_all add: can_book_def texts_ok_def)
  ultimately show ?thesis
    using slow_path_succeeds [of "quiet_world d (sNow s)" "sReq s" "sID s" "hash (sReq s)"]
      first_request [of "quiet_world d (sNow s)" "sReq s" "sID s"] assms(1-3)
    by (auto simp: observe_def)
qed

section \<open>Recording a step\<close>

lemma unanswered_unrecorded:
  "records S h \<Longrightarrow> \<forall>r. phases S ! i \<noteq> Answered r \<Longrightarrow> i \<notin> fst ` set h"
  by (fastforce simp: records_def)

text \<open>A step of an unanswered call either goes unrecorded or adds the call's answer to the history.\<close>

lemma recordsI:
  assumes "distinct (map fst h)"
    and "\<And>j r. (j, r) \<in> set h \<Longrightarrow> j < length (phases S) \<and>
        (phases S ! j = Answered r \<or> sStage (session_at S j) = Committed \<and> (\<exists>e. phases S ! j = Answered (Err e)))"
    and "\<And>j. j < length (phases S) \<Longrightarrow> sStage (session_at S j) = Committed \<Longrightarrow> j \<in> fst ` set h"
    and "\<And>j r. j < length (phases S) \<Longrightarrow> phases S ! j = Answered r \<Longrightarrow> settled r \<Longrightarrow> (j, r) \<in> set h"
  shows "records S h"
  using assms unfolding records_def by (auto split: phase.split)

lemma recordsD:
  assumes "records S h"
  shows "distinct (map fst h)"
    and "(j, r) \<in> set h \<Longrightarrow> j < length (phases S) \<and>
        (phases S ! j = Answered r \<or> sStage (session_at S j) = Committed \<and> (\<exists>e. phases S ! j = Answered (Err e)))"
    and "j < length (phases S) \<Longrightarrow> sStage (session_at S j) = Committed \<Longrightarrow> j \<in> fst ` set h"
    and "j < length (phases S) \<Longrightarrow> phases S ! j = Answered r \<Longrightarrow> settled r \<Longrightarrow> (j, r) \<in> set h"
  using assms by (auto simp: records_def split: phase.splits)

lemma move_sel [simp]: "phases (move i c p S) = (phases S)[i := p]" "store (move i c p S) = c"
  by (simp_all add: move_def)

lemma records_silent:
  assumes rec: "records S h" and i: "i < length (phases S)" "\<forall>r. phases S ! i \<noteq> Answered r"
    and other: "\<And>j. j \<noteq> i \<Longrightarrow> sessions c ! j = session_at S j"
    and new: "sStage (sessions c ! i) \<noteq> Committed" "\<And>r. p = Answered r \<Longrightarrow> \<not> settled r"
  shows "records (move i c p S) h"
proof (rule recordsI)
  show "distinct (map fst h)" using recordsD(1) [OF rec] .
next
  fix j r assume j: "(j, r) \<in> set h"
  then have "j \<noteq> i" using unanswered_unrecorded [OF rec i(2)] by force
  then show "j < length (phases (move i c p S)) \<and> (phases (move i c p S) ! j = Answered r \<or>
      sStage (session_at (move i c p S) j) = Committed \<and> (\<exists>e. phases (move i c p S) ! j = Answered (Err e)))"
    using recordsD(2) [OF rec j] other by simp
next
  fix j assume "j < length (phases (move i c p S))" "sStage (session_at (move i c p S) j) = Committed"
  then show "j \<in> fst ` set h"
    using recordsD(3) [OF rec, of j] other [of j] new(1) by (cases "j = i") auto
next
  fix j r assume "j < length (phases (move i c p S))" "phases (move i c p S) ! j = Answered r" "settled r"
  then show "(j, r) \<in> set h"
    using recordsD(4) [OF rec, of j r] new(2) by (cases "j = i") auto
qed

lemma records_answer:
  assumes rec: "records S h" and i: "i < length (phases S)" "\<forall>r. phases S ! i \<noteq> Answered r"
    and other: "\<And>j. j \<noteq> i \<Longrightarrow> sessions c ! j = session_at S j"
    and new: "p = Answered r \<or> sStage (sessions c ! i) = Committed \<and> (\<exists>e. p = Answered (Err e) \<and> \<not> settled (Err e))"
  shows "records (move i c p S) (h @ [(i, r)])"
proof (rule recordsI)
  show "distinct (map fst (h @ [(i, r)]))"
    using recordsD(1) [OF rec] unanswered_unrecorded [OF rec i(2)] by simp
next
  fix j q assume "(j, q) \<in> set (h @ [(i, r)])"
  then consider (old) "(j, q) \<in> set h" "j \<noteq> i" | (new) "j = i" "q = r"
    using unanswered_unrecorded [OF rec i(2)] by force
  then show "j < length (phases (move i c p S)) \<and> (phases (move i c p S) ! j = Answered q \<or>
      sStage (session_at (move i c p S) j) = Committed \<and> (\<exists>e. phases (move i c p S) ! j = Answered (Err e)))"
    using recordsD(2) [OF rec] other i(1) assms(5) by cases auto
next
  fix j assume "j < length (phases (move i c p S))" "sStage (session_at (move i c p S) j) = Committed"
  then show "j \<in> fst ` set (h @ [(i, r)])"
    using recordsD(3) [OF rec, of j] other [of j] by (cases "j = i") auto
next
  fix j q assume "j < length (phases (move i c p S))" "phases (move i c p S) ! j = Answered q" "settled q"
  then show "(j, q) \<in> set (h @ [(i, r)])"
    using recordsD(4) [OF rec, of j q] new by (cases "j = i") auto
qed

section \<open>Steps of sessions\<close>

lemma advance_others: "advance i c c' \<Longrightarrow> j \<noteq> i \<Longrightarrow> sessions c' ! j = sessions c ! j"
  using advance_session(1) [of i c c'] by (metis nth_list_update_neq)

lemma advance_call:
  "advance i c c' \<Longrightarrow> sID (sessions c' ! j) = sID (sessions c ! j) \<and> sNow (sessions c' ! j) = sNow (sessions c ! j)"
  by (cases "j = i") (auto simp: advance_others elim!: advanceE)

lemma advance_uncommitted:
  assumes adv: "advance i c c'" and "sStage (sessions c' ! i) \<noteq> Committed"
  shows "strip (base c') = strip (base c) \<and> committed c' = committed c"
proof -
  have "committed c' = committed c"
    using committed_update [OF advance_shape(1) [OF adv] _ advance_session(1) [OF adv]] assms(2) advance_session(4) [OF adv]
    by (auto simp: finished_def)
  then show ?thesis using advance_effect [OF adv] by auto
qed

lemma advance_committed:
  assumes adv: "advance i c c'" and "sStage (sessions c' ! i) = Committed"
  shows "committing (sessions c ! i) \<and> base c' = publish (sessions c ! i) (base c) \<and>
    committed c' = add_mset ((sessions c ! i)\<lparr>sStage := Committed\<rparr>) (committed c)"
proof -
  have "committed c' \<noteq> committed c"
    using committed_update [OF advance_shape(1) [OF adv] _ advance_session(1) [OF adv]] assms(2) advance_session(4) [OF adv]
    by (auto simp: finished_def)
  then show ?thesis using advance_effect [OF adv] by auto
qed

lemma close_facts:
  assumes i: "i < length (sessions c)" and st: "sStage (sessions c ! i) \<noteq> Committed"
  shows "base (close i c) = base c" "committed (close i c) = committed c" "draws_ok n c \<Longrightarrow> draws_ok n (close i c)"
    "sStage (sessions (close i c) ! i) = RolledBack" "j \<noteq> i \<Longrightarrow> sessions (close i c) ! j = sessions c ! j"
    "sID (sessions (close i c) ! k) = sID (sessions c ! k) \<and> sNow (sessions (close i c) ! k) = sNow (sessions c ! k)"
proof -
  show "base (close i c) = base c" "sStage (sessions (close i c) ! i) = RolledBack"
    using i by (simp_all add: close_def)
  show "committed (close i c) = committed c"
    using committed_update [OF i st, of "close i c" "(sessions c ! i)\<lparr>sStage := RolledBack\<rparr>"] by (simp add: close_def)
  show "draws_ok n (close i c)" if "draws_ok n c"
    using that by (intro draws_ok_put [OF that i]) (auto simp: close_def draws_ok_def)
  show "sessions (close i c) ! j = sessions c ! j" if "j \<noteq> i"
    using that by (simp add: close_def)
  show "sID (sessions (close i c) ! k) = sID (sessions c ! k) \<and> sNow (sessions (close i c) ! k) = sNow (sessions c ! k)"
    using i by (cases "k = i") (simp_all add: close_def)
qed

section \<open>Histories of servers\<close>

text \<open>What every reachable server has kept: its invariant, the room of its sequence, and its calls.\<close>

definition in_order :: "server \<Rightarrow> server \<Rightarrow> bool" where
  "in_order S0 S \<longleftrightarrow> server_inv S \<and> draws_ok (ledger_seq (committed_db S0)) (store S) \<and> (\<forall>i. call_at S i = call_at S0 i)"

lemma in_order_step:
  assumes "serve_step S S'" and inv: "in_order S0 S"
  shows "in_order S0 S'"
proof -
  let ?n = "ledger_seq (committed_db S0)"
  have si: "server_inv S" "conc_inv (store S)" "draws_ok ?n (store S)" "length (phases S) = length (sessions (store S))"
    using inv by (simp_all add: in_order_def server_inv_def)
  have ok: "call_ok (committed_db S) (session_at S i) (phases S ! i)" if "i < length (phases S)" for i
    using si(1) that by (simp add: server_inv_def)
  have st: "sStage (session_at S i) \<noteq> Committed" if "i < length (phases S)" "\<forall>r. phases S ! i \<noteq> Answered r" for i
    using ok [OF that(1)] that(2) by (cases "phases S ! i") (auto simp: call_ok_def finished_def)
  have adv: "draws_ok ?n c \<and> (\<forall>j. sID (sessions c ! j) = sID (session_at S j) \<and> sNow (sessions c ! j) = sNow (session_at S j))"
    if "advance i (store S) c" for i c
    using draws_ok_advance [OF that si(2,3)] advance_call [OF that] by blast
  have cl: "draws_ok ?n (close i (store S)) \<and> (\<forall>j. sID (sessions (close i (store S)) ! j) = sID (session_at S j) \<and>
      sNow (sessions (close i (store S)) ! j) = sNow (session_at S j))"
    if "i < length (phases S)" "\<forall>r. phases S ! i \<noteq> Answered r" for i
    using close_facts [of i "store S"] st [OF that] that si(3,4) by simp
  have "draws_ok ?n (store S') \<and> (\<forall>j. sID (session_at S' j) = sID (session_at S j) \<and> sNow (session_at S' j) = sNow (session_at S j))"
    using assms(1)
  proof cases
    case called
    then show ?thesis
      by cases (use si(3) adv cl in auto)
  qed (use adv cl in auto)
  moreover have "sReq (session_at S' j) = sReq (session_at S j)" for j
    using serve_request [OF assms(1)] by (simp add: request_at_def)
  ultimately show ?thesis
    using inv server_inv_serve [OF assms(1) si(1)] by (simp add: in_order_def call_at_def)
qed

definition serial_state :: "server \<Rightarrow> server \<Rightarrow> (nat \<times> answer) list \<Rightarrow> db \<Rightarrow> bool" where
  "serial_state S0 S h d \<longleftrightarrow>
     creates_serially (map (\<lambda>(i, r). (call_at S0 i, r)) h) (committed_db S0) = Some d \<and> schema_ok d \<and>
     strip d = strip (committed_db S) \<and>
     ledger_seq d = ledger_seq (committed_db S0) + sum_mset (image_mset drawn (committed (store S))) \<and> records S h"

lemma serial_state_append:
  assumes "serial_state S0 S h d" and "TransferService_Create req u (quiet_world d now) = (r, w)" and "call_at S0 i = (req, u, now)"
    and "schema_ok (disk w)" and "strip (disk w) = strip (committed_db S')"
    and "ledger_seq (disk w) = ledger_seq (committed_db S0) + sum_mset (image_mset drawn (committed (store S')))"
    and "records S' (h @ [(i, r)])"
  shows "serial_state S0 S' (h @ [(i, r)]) (disk w)"
  using assms by (simp add: serial_state_def creates_serially_append)

text \<open>A step that takes no effect and tells nothing.\<close>

lemma serial_silent:
  assumes st: "serial_state S0 S h d" and i: "i < length (phases S)" "\<forall>r. phases S ! i \<noteq> Answered r"
    and c: "strip (base c) = strip (committed_db S)" "committed c = committed (store S)"
    and other: "\<And>j. j \<noteq> i \<Longrightarrow> sessions c ! j = session_at S j"
    and new: "sStage (sessions c ! i) \<noteq> Committed" "\<And>r. p = Answered r \<Longrightarrow> \<not> settled r"
  shows "serial_state S0 (move i c p S) h d"
  using st c records_silent [OF _ i other new, of h] by (simp add: serial_state_def)

text \<open>A call that finds its key: the code, called on the serial database, finds the same.\<close>

lemma serial_replay:
  assumes st: "serial_state S0 S h d" and ord: "in_order S0 S" and i: "i < length (phases S)" "\<forall>r. phases S ! i \<noteq> Answered r"
    and x: "claim_for (session_at S i) (committed_db S) = Some x"
    and c: "base c = committed_db S" "committed c = committed (store S)"
    and other: "\<And>j. j \<noteq> i \<Longrightarrow> sessions c ! j = session_at S j"
  defines "r \<equiv> replay_answer (session_at S i) (Some x)"
  shows "serial_state S0 (move i c (Answered r) S) (h @ [(i, r)]) d"
proof -
  let ?s = "session_at S i"
  have "session_ok (committed_db S) ?s"
    using ord i(1) by (simp add: in_order_def server_inv_def conc_inv_def)
  then have v: "Validate (sReq ?s) = None" by (simp add: session_ok_def)
  have "claim_for ?s d = Some x"
    using st x claim_of_strip [of "qIdempotencyKey (sReq ?s)"] unfolding serial_state_def claim_for_def by metis
  then obtain w where w: "TransferService_Create (sReq ?s) (sID ?s) (quiet_world d (sNow ?s)) = (r, w)" "disk w = d"
    using Create_replays_alone [OF v] unfolding r_def by blast
  have "call_at S0 i = (sReq ?s, sID ?s, sNow ?s)"
    using ord by (simp add: in_order_def call_at_def)
  then show ?thesis
    using serial_state_append [OF st w(1), of i "move i c (Answered r) S"] st w(2) c
      records_answer [OF _ i other, of h "Answered r" r]
    by (simp add: serial_state_def)
qed

text \<open>A call that commits, acknowledged or not: the code, called on the serial database, books it.\<close>

lemma serial_commit:
  assumes st: "serial_state S0 S h d" and ord: "in_order S0 S" and i: "i < length (phases S)" "\<forall>r. phases S ! i \<noteq> Answered r"
    and adv: "advance i (store S) c" and cm: "sStage (sessions c ! i) = Committed"
    and p: "p = Answered (Ok (Some (returned (session_at S i)))) \<or> (\<exists>e. p = Answered (Err e) \<and> \<not> settled (Err e))"
  shows "\<exists>d'. serial_state S0 (move i c p S) (h @ [(i, Ok (Some (returned (session_at S i))))]) d'"
proof -
  let ?s = "session_at S i" and ?n = "ledger_seq (committed_db S0)"
  have inv: "conc_inv (store S)" and len: "i < length (sessions (store S))" and dr: "draws_ok ?n (store S)"
    using ord i(1) by (simp_all add: in_order_def server_inv_def)
  have ok: "session_ok (committed_db S) ?s" using conc_inv_at(1) [OF inv len] .
  then have v: "Validate (sReq ?s) = None" and cv: "sStage ?s = Credited \<Longrightarrow> covers ?s"
    by (simp_all add: session_ok_def)
  note eff = advance_committed [OF adv cm]
  have d: "schema_ok d" "strip d = strip (committed_db S)"
    and seq: "ledger_seq d = ?n + sum_mset (image_mset drawn (committed (store S)))" and rec: "records S h"
    using st by (simp_all add: serial_state_def)
  have "sStage ?s \<noteq> Committed" using eff by (auto simp: committing_def)
  then have room: "ledger_seq d + drawn ?s \<le> ?n + all_drawn (sessions (store S))"
    using committed_drawn [OF len] seq by simp
  note b = committing_bookable [OF inv len refl conjunct1 [OF eff] dr d room]
  obtain w where w: "TransferService_Create (sReq ?s) (sID ?s) (quiet_world d (sNow ?s)) = (Ok (Some (returned ?s)), w)"
      "disk w = book (sReq ?s) (hash (sReq ?s)) (sID ?s) (sNow ?s) d"
    using Create_commits_alone [OF b(1) d(1) v conjunct1 [OF eff] b(2) cv] by blast
  have "drawn (?s\<lparr>sStage := Committed\<rparr>) = drawn ?s"
    using committing_facts(2) [OF ok] eff by simp
  then have drawn: "ledger_seq (disk w) = ?n + sum_mset (image_mset drawn (committed (store (move i c p S))))"
    unfolding w(2) b(5) seq using eff by simp
  have "p = Answered (Ok (Some (returned ?s))) \<or> sStage (sessions c ! i) = Committed \<and> (\<exists>e. p = Answered (Err e) \<and> \<not> settled (Err e))"
    using p cm by blast
  then have rec': "records (move i c p S) (h @ [(i, Ok (Some (returned ?s)))])"
    by (intro records_answer [OF rec i]) (simp_all add: advance_others [OF adv])
  have "serial_state S0 (move i c p S) (h @ [(i, Ok (Some (returned ?s)))]) (disk w)"
  proof (rule serial_state_append [OF st w(1) _ _ _ drawn rec'])
    show "call_at S0 i = (sReq ?s, sID ?s, sNow ?s)" using ord by (simp add: in_order_def call_at_def)
    show "schema_ok (disk w)" unfolding w(2) by (rule b(3))
    show "strip (disk w) = strip (committed_db (move i c p S))" unfolding w(2) b(4) using eff by simp
  qed
  then show ?thesis by blast
qed

lemma clean_unsettled: "clean e \<Longrightarrow> \<not> settled (Err e)"
  by auto

lemma serial_step:
  assumes "serve_step S S'" and st: "serial_state S0 S h d" and ord: "in_order S0 S"
  shows "\<exists>h' d'. serial_state S0 S' (h @ h') d'"
proof -
  have len: "length (phases S) = length (sessions (store S))" and inv: "linked (committed_db S)"
    using ord by (simp_all add: in_order_def server_inv_def)
  have ok: "call_ok (committed_db S) (session_at S i) (phases S ! i)" if "i < length (phases S)" for i
    using ord that by (simp add: in_order_def server_inv_def)
  have un: "sStage (session_at S i) \<noteq> Committed" if "i < length (phases S)" "\<forall>r. phases S ! i \<noteq> Answered r" for i
    using ok [OF that(1)] that(2) by (cases "phases S ! i") (auto simp: call_ok_def finished_def)
  have silent: ?thesis if "serial_state S0 S' h d"
    using that by (metis append_Nil2)
  have ran: ?thesis
    if "S' = move i c p S" "i < length (phases S)" "phases S ! i = Running" "advance i (store S) c"
      "sStage (sessions c ! i) \<noteq> Committed" "\<forall>r. p = Answered r \<longrightarrow> \<not> settled r" for i c p
    using that serial_silent [OF st that(2), of c p] advance_uncommitted [OF that(4,5)] advance_others [OF that(4)]
    by (intro silent) simp
  have shut: ?thesis
    if "S' = move i (close i (store S)) (Answered (Err e)) S" "i < length (phases S)" "\<forall>r. phases S ! i \<noteq> Answered r" "clean e" for i e
    using that serial_silent [OF st that(2,3), of "close i (store S)" "Answered (Err e)"] un [OF that(2,3)] len
      close_facts [of i "store S"] clean_unsettled [OF that(4)]
    by (intro silent) simp
  have took_effect: ?thesis
    if "S' = move i c p S" "i < length (phases S)" "phases S ! i = Running" "advance i (store S) c" "sStage (sessions c ! i) = Committed"
      "p = Answered (Ok (Some (returned (session_at S i)))) \<or> (\<exists>e. p = Answered (Err e) \<and> \<not> settled (Err e))" for i c p
    using serial_commit [OF st ord that(2) _ that(4-6)] that(1,3) by auto
  have call: ?thesis if "call_step S S'"
    using that
  proof cases
    case (key_free i)
    then show ?thesis
      using serial_silent [OF st key_free(2), of "store S" Running] un [OF key_free(2)] by (intro silent) simp
  next
    case (key_taken i x)
    then show ?thesis
      using serial_replay [OF st ord key_taken(2) _ key_taken(4), of "close i (store S)"] close_facts [of i "store S"]
        un [OF key_taken(2)] len
      by auto
  next
    case (key_refused i e)
    then show ?thesis using shut [OF key_refused(1,2) _ key_refused(5)] by simp
  next
    case (worked i c)
    then show ?thesis using ran [OF worked(1-4)] by (simp add: finished_def)
  next
    case (committed i c)
    then show ?thesis using took_effect [OF committed] by simp
  next
    case (race_lost i c)
    then show ?thesis using ran [OF race_lost(1-4)] by simp
  next
    case (failed i c e)
    then show ?thesis using ran [OF failed(1-4)] clean_unsettled [OF failed(7)] by simp
  next
    case (replayed i)
    have "claim_for (session_at S i) (committed_db S) \<noteq> None"
      using ok [OF replayed(2)] replayed(3) inv claim_of_linked by (simp add: call_ok_def claim_for_def)
    then obtain x where x: "claim_for (session_at S i) (committed_db S) = Some x" by blast
    show ?thesis
      using serial_replay [OF st ord replayed(2) _ x, of "store S"] replayed(1,3) x by auto
  qed
  show ?thesis
    using assms(1)
  proof cases
    case called
    then show ?thesis by (rule call)
  next
    case (read_failed i e)
    then show ?thesis using shut [OF read_failed(1,2)] by auto
  next
    case (died i e)
    then show ?thesis using shut [OF died(1,2)] by simp
  next
    case (unacknowledged i c e)
    then show ?thesis using took_effect [OF unacknowledged(1-5)] clean_unsettled [OF unacknowledged(6)] by blast
  qed
qed

lemma serial_start:
  assumes "arrivals S0"
  shows "in_order S0 S0 \<and> serial_state S0 S0 [] (committed_db S0)"
proof -
  have st: "start (store S0)" and ph: "phases S0 = replicate (length (sessions (store S0))) Asking"
    using assms by (simp_all add: arrivals_def)
  then have "committed (store S0) = {#}" "schema_ok (committed_db S0)"
    by (auto simp: start_def committed_def filter_mset_eq_conv)
  moreover have "records S0 []"
    using st ph by (auto simp: records_def start_def)
  ultimately show ?thesis
    using server_inv_arrivals [OF assms] draws_ok_start [OF st] by (simp add: in_order_def serial_state_def)
qed

lemma serial_steps:
  assumes "serve_step\<^sup>*\<^sup>* S S'" and "in_order S0 S" and "serial_state S0 S h d"
  shows "in_order S0 S' \<and> (\<exists>h' d'. serial_state S0 S' (h @ h') d')"
  using assms(1)
proof (induction rule: rtranclp_induct)
  case base
  then show ?case using assms(2,3) by (metis append_Nil2)
next
  case (step S1 S2)
  then obtain h1 d1 where "in_order S0 S1" "serial_state S0 S1 (h @ h1) d1" by blast
  then show ?case
    using in_order_step [OF step(2)] serial_step [OF step(2)] by (metis append_assoc)
qed

lemma serial_linearizes: "serial_state S0 S h d \<Longrightarrow> linearizes S0 S h"
  by (simp add: serial_state_def linearizes_def)

section \<open>Property\<close>

text \<open>
  C2: concurrent calls of \<open>Create\<close> are linearizable, as the code runs. However the statements of
  many calls interleave, and whatever fails, there is an order of the calls that were answered with
  a transfer or a conflict, and of those whose commit took effect unacknowledged, in which
  \<open>TransferService_Create\<close>, called for one after the other on a server where nothing else happens,
  gives each the answer it got and leaves the committed database, up to the ids of ledger entries.
  What was answered by some moment comes before what is answered later.
\<close>

theorem concurrent_creates_linearizable:
  assumes "arrivals S0" and "serve_step\<^sup>*\<^sup>* S0 S1" and "serve_step\<^sup>*\<^sup>* S1 S"
  shows "\<exists>h h'. linearizes S0 S1 h \<and> linearizes S0 S (h @ h')"
proof -
  obtain h d where h: "in_order S0 S1" "serial_state S0 S1 h d"
    using serial_steps [OF assms(2)] serial_start [OF assms(1)] by fastforce
  then obtain h' d' where "serial_state S0 S (h @ h') d'"
    using serial_steps [OF assms(3)] by blast
  then show ?thesis
    using h(2) serial_linearizes by blast
qed

theorem concurrent_creates_linearizable_witness:
  "\<exists>S h. run_calls ex_schedule ex_race = Some S \<and> linearizes ex_race S h \<and> length h = 2 \<and>
     (0, Ok (Some ex_transfer)) \<in> set h \<and> (1, Ok (Some ex_transfer)) \<in> set h"
proof -
  obtain S where S: "run_calls ex_schedule ex_race = Some S"
      "phases S = [Answered (Ok (Some ex_transfer)), Answered (Ok (Some ex_transfer))]"
    using ex_race_runs by auto
  obtain h where h: "linearizes ex_race S h"
    using concurrent_creates_linearizable [OF ex_race_arrivals run_calls_serve [OF S(1)] rtranclp.rtrancl_refl] by blast
  then have rec: "records S h" by (simp add: linearizes_def)
  have in_h: "(j, Ok (Some ex_transfer)) \<in> set h" if "j < 2" for j
    using recordsD(4) [OF rec, of j "Ok (Some ex_transfer)"] S(2) that by (cases j) auto
  have "fst ` set h = {0, 1}"
    using recordsD(2) [OF rec] in_h [of 0] in_h [of 1] S(2) by (force simp: less_2_cases_iff numeral_2_eq_2 less_Suc_eq)
  then have "card (set (map fst h)) = 2" by simp
  then have "length h = 2"
    using distinct_card [OF recordsD(1) [OF rec]] by simp
  then show ?thesis using S(1) h in_h by auto
qed

end
