(* ===== verification/Race.thy ===== *)
theory Race
  imports Transfer_Props
begin

text \<open>
  The branch of \<open>Create\<close> for a lost race: the key was free when the fast path read it, and taken
  when the transaction tries to claim it. The transaction fails on the primary key, is rolled back,
  and the record of the winner is replayed.
\<close>

section \<open>The losing transaction\<close>

definition loses :: "CreateTransferRequest \<Rightarrow> uuid \<Rightarrow> db \<Rightarrow> bool" where
  "loses req u d \<longleftrightarrow>
     qIdempotencyKey req \<in> idem_keys d \<and> u \<notin> transfer_ids d \<and> texts_ok req \<and>
     qFromWalletID req \<in> wallet_ids d \<and> qToWalletID req \<in> wallet_ids d"

lemma Insert_idem_taken:
  assumes "\<not> aborted t" and "k \<in> idem_keys (view t)" and "text_ok k"
  shows "IdempotencyRepo_Insert Tx k h i (in_tx w t []) = (Err ErrIdempotencyExists, in_tx w (t\<lparr>aborted := True\<rparr>) [])"
  using assms
  by (simp add: IdempotencyRepo_Insert_def map_err_def stmt_Tx_def next_fault_def drop_fault_def insert_idem_def
      idem_insert_err_def pgUniqueViolation_def unique_violation_def in_tx_def)

lemma insert_transfer_fresh:
  assumes "u \<notin> transfer_ids d" and "a \<in> wallet_ids d" and "b \<in> wallet_ids d" and "a \<noteq> b" and "0 < sint amt"
    and "text_ok a" and "text_ok b"
  shows "\<exists>d'. insert_transfer u a b amt StatePending now d = (Inr (now, now), d') \<and>
    idem_keys d' = idem_keys d \<and> ledger_seq d' = ledger_seq d"
  using assms by (simp add: insert_transfer_def idem_keys_def StatePending_def)

lemma executeTransfer_loses:
  assumes na: "\<not> aborted t" and l: "loses req u (view t)" and valid: "Validate req = None"
  shows "\<exists>t'. executeTransfer Tx req h u (in_tx w t []) = (Err ErrIdempotencyExists, in_tx w t' []) \<and>
    ledger_seq (view t') = ledger_seq (view t)"
proof -
  let ?d = "view t" and ?a = "qFromWalletID req" and ?b = "qToWalletID req"
  obtain src dst where find: "find_wallet ?a ?d = Some src" "find_wallet ?b ?d = Some dst"
    using l find_wallet_None_iff [of ?a ?d] find_wallet_None_iff [of ?b ?d] by (auto simp: loses_def)
  then have mm: "\<exists>y. find_wallet (min ?a ?b) ?d = Some y" "\<exists>y. find_wallet (max ?a ?b) ?d = Some y"
    by (simp_all add: min_def max_def)
  have "texts_ok req" using l by (simp add: loses_def)
  note utf = texts_okD [OF this]
  let ?t1 = "add_lock (min ?a ?b) t" and ?t2 = "add_lock (max ?a ?b) (add_lock (min ?a ?b) t)"
  obtain d where ins: "insert_transfer u ?a ?b (qAmount req) StatePending (tx_now t) ?d = (Inr (tx_now t, tx_now t), d)"
    and d: "idem_keys d = idem_keys ?d" "ledger_seq d = ledger_seq ?d"
    using insert_transfer_fresh [of u ?d ?a ?b "qAmount req"] l valid utf(1,2)
    by (auto simp: loses_def Validate_def split: if_splits)
  obtain y z where lock: "WalletRepo_LockForUpdate Tx (min ?a ?b) (in_tx w t []) = (Ok y, in_tx w ?t1 [])"
      "WalletRepo_LockForUpdate Tx (max ?a ?b) (in_tx w ?t1 []) = (Ok z, in_tx w ?t2 [])"
    using mm na utf(4,5) by (auto simp: LockForUpdate_tx_ok)
  have get: "WalletRepo_Get Tx ?a (in_tx w ?t2 []) = (Ok src, in_tx w ?t2 [])"
      "WalletRepo_Get Tx ?b (in_tx w ?t2 []) = (Ok dst, in_tx w ?t2 [])"
    using find na utf(1,2) by (simp_all add: Get_wallet_tx_ok)
  have insert: "\<exists>tr. tID tr = u \<and>
      TransferRepo_Insert Tx (new_transfer u req) (in_tx w ?t2 []) = (Ok tr, in_tx w (?t2\<lparr>view := d\<rparr>) [])"
    using ins na utf(1,2) by (auto simp: Insert_transfer_tx_ok new_transfer_def)
  have "IdempotencyRepo_Insert Tx (qIdempotencyKey req) h u (in_tx w (?t2\<lparr>view := d\<rparr>) []) =
      (Err ErrIdempotencyExists, in_tx w (?t2\<lparr>view := d, aborted := True\<rparr>) [])"
    using Insert_idem_taken [of "?t2\<lparr>view := d\<rparr>"] l d(1) na utf(3) by (simp add: loses_def)
  then show ?thesis
    using lock get insert d(2) by (auto simp: executeTransfer_def orderedPair_min_max bind_ok_def)
qed

section \<open>The whole call\<close>

lemma RunInTx_loses:
  assumes "faults w = []" and "tx w = None" and "loses req u (disk (interfere w))" and "Validate req = None"
  shows "RunInTx (executeTransfer Tx req h u) w = (Err ErrIdempotencyExists, interfere w)"
proof -
  let ?v = "interfere w"
  let ?t = "\<lparr>view = disk ?v, locks = [], tx_now = clock ?v, aborted = False\<rparr>"
  have b: "BeginTx w = (Ok (), in_tx ?v ?t [])"
    using assms(1) by (simp add: BeginTx_def in_tx_def next_fault_def Let_def)
  obtain t' where t': "executeTransfer Tx req h u (in_tx ?v ?t []) = (Err ErrIdempotencyExists, in_tx ?v t' [])"
      "ledger_seq (view t') = ledger_seq (disk ?v)"
    using executeTransfer_loses [of ?t req u h ?v] assms(3,4) by auto
  have "Rollback (in_tx ?v t' []) = (Ok (), ?v)"
    using t'(2) assms(1,2) by (simp add: Rollback_def in_tx_def next_fault_def discard_def Let_def)
  then show ?thesis
    using b t'(1) by (simp add: RunInTx_def)
qed

text \<open>The world after the winner's commit, at the time at which the loser's transaction begins.\<close>

definition after_winner :: "CreateTransferRequest \<Rightarrow> uuid \<Rightarrow> time \<Rightarrow> nat \<Rightarrow> world \<Rightarrow> world" where
  "after_winner req2 u2 now dt w =
     w\<lparr>disk := book req2 (hash req2) u2 now (disk w), clock := clock w + int dt, others := []\<rparr>"

lemma Create_loses:
  assumes w: "faults w = []" "tx w = None" "others w = [(0, \<lambda>d. d), (dt, f)]" and valid: "Validate req = None"
    and free: "qIdempotencyKey req \<notin> idem_keys (disk w)" and l: "loses req u (f (disk w))"
    and claim: "claim_of (qIdempotencyKey req) (f (disk w)) = Some (h, t)"
    and v: "v = w\<lparr>disk := f (disk w), clock := clock w + int dt, others := []\<rparr>"
  shows "TransferService_Create req u w =
    (if h = hash req then (Ok (Some t), observe (tState t) v) else (Err ErrIdempotencyConflict, v))"
proof -
  let ?w1 = "w\<lparr>others := [(dt, f)]\<rparr>"
  have "find_idem (qIdempotencyKey req) (disk w) = None" using free by (simp add: find_idem_None_iff)
  moreover have "text_ok (qIdempotencyKey req)" using l by (simp add: loses_def texts_ok_def)
  ultimately have fast: "replayIfExists DB (qIdempotencyKey req) (hash req) w = (Ok None, ?w1)"
    using w by (simp add: replayIfExists_def IdempotencyRepo_Get_def query_row_def bind_ok_def interfere_def
        stmt_DB_def select_idem_def map_err_def return_err_def scan_err_def next_fault_def drop_fault_def)
  have i: "interfere ?w1 = v" using v by (simp add: interfere_def)
  have tx: "RunInTx (executeTransfer Tx req (hash req) u) ?w1 = (Err ErrIdempotencyExists, v)"
    using RunInTx_loses [of ?w1 req u "hash req"] w l valid i v by simp
  have "replayIfExists DB (qIdempotencyKey req) (hash req) v = (if h = hash req then Ok (Some t) else Err ErrIdempotencyConflict, v)"
    using replay_quiet [of v "qIdempotencyKey req" h t "hash req"] w claim v by simp
  then show ?thesis
    using fast tx valid by (simp add: TransferService_Create_def Let_def)
qed

lemma book_ids:
  "idem_keys (book req h u now d) = insert (qIdempotencyKey req) (idem_keys d)"
  "transfer_ids (book req h u now d) = insert u (transfer_ids d)"
  "wallet_ids (book req h u now d) = wallet_ids d"
  by (simp_all add: idem_keys_def transfer_ids_def wallet_ids_def outcome_row_def booked_row_def claim_row_def
      image_image)

text \<open>
  C37: losing the race is the same as coming later. On wallets that satisfy the schema, a call of
  \<open>Create\<close> whose key another instance claims between its fast-path read and its transaction has exactly the result and leaves exactly
  the world, rows, clock and metrics, of the same call made after the winner committed.
\<close>

theorem race_loss_equals_late_replay:
  assumes w: "faults w = []" "tx w = None"
    and race: "others w = [(0, \<lambda>d. d), (dt, book req2 (hash req2) u2 now)]"
    and valid: "Validate req = None" and key: "qIdempotencyKey req2 = qIdempotencyKey req"
    and win: "can_book req2 u2 (disk w)" and u: "u \<notin> transfer_ids (disk w)" "u \<noteq> u2"
    and rows: "wallets_ok (disk w)"
    and known: "qFromWalletID req \<in> wallet_ids (disk w)" "qToWalletID req \<in> wallet_ids (disk w)"
  shows "TransferService_Create req u w = TransferService_Create req u (after_winner req2 u2 now dt w)"
proof -
  let ?d = "book req2 (hash req2) u2 now (disk w)" and ?v = "after_winner req2 u2 now dt w"
  define t where "t = scan_transfer (outcome_row req2 u2 now (disk w))"
  have claim: "claim_of (qIdempotencyKey req) ?d = Some (hash req2, t)"
    using claim_of_book [OF win] key by (simp add: t_def)
  have "texts_ok req"
    using win rows known key by (auto simp: can_book_def texts_ok_def wallets_ok_def wallet_ids_def)
  then have l: "loses req u ?d"
    using u known key by (simp add: loses_def book_ids)
  have "qIdempotencyKey req \<notin> idem_keys (disk w)" using win key by (simp add: can_book_def)
  then have "TransferService_Create req u w =
      (if hash req2 = hash req then (Ok (Some t), observe (tState t) ?v) else (Err ErrIdempotencyConflict, ?v))"
    using Create_loses [OF w(1,2) race valid _ l claim, of ?v] by (simp add: after_winner_def)
  also have "\<dots> = TransferService_Create req u ?v"
    using Create_replay_quiet [of ?v req "hash req2" t u] w(1) valid claim by (simp add: after_winner_def)
  finally show ?thesis .
qed

theorem race_loss_equals_late_replay_witness:
  "let w = ex_world [] [(0, \<lambda>d. d), (3, book (ex_req 30) (hash (ex_req 30)) 2 20)];
       v = after_winner (ex_req 30) 2 20 3 w
   in TransferService_Create (ex_req 30) 1 w = TransferService_Create (ex_req 30) 1 v \<and>
      (\<exists>t. TransferService_Create (ex_req 30) 1 v = (Ok (Some t), observe StateProcessed v) \<and> tID t = 2)"
proof -
  let ?r = "ex_req 30"
  let ?w = "ex_world [] [(0, \<lambda>d. d), (3, book ?r (hash ?r) 2 20)]"
  let ?v = "after_winner ?r 2 20 3 ?w"
  have w: "faults ?w = []" "tx ?w = None" "disk ?w = ex_db" "others ?w = [(0, \<lambda>d. d), (3, book ?r (hash ?r) 2 20)]"
    by (simp_all add: ex_world_def)
  have ids: "transfer_ids ex_db = {}" "wallet_ids ex_db = {''a'', ''b''}"
    by (simp_all add: ex_db_def empty_db_def transfer_ids_def wallet_ids_def wallet_row_def)
  have cb: "can_book ?r 2 ex_db" by (simp add: ex_can_book)
  define t where "t = scan_transfer (outcome_row ?r 2 20 ex_db)"
  have t: "tState t = StateProcessed" "tID t = 2"
    by (simp_all add: t_def scan_transfer_def outcome_row_def booked_row_def funded_def ex_req_def wallet_row_def)
  have v: "faults ?v = []" "others ?v = []" "disk ?v = book ?r (hash ?r) 2 20 ex_db"
    using w by (simp_all add: after_winner_def)
  have valid: "Validate ?r = None" by (rule ex_req_valid) simp
  have "TransferService_Create ?r 1 ?v = (Ok (Some t), observe StateProcessed ?v)"
    using Create_replay_quiet [OF v(1,2) valid, of "hash ?r" t 1] claim_of_book [OF cb] v(3) t(1) by (simp add: t_def)
  moreover have "TransferService_Create ?r 1 ?w = TransferService_Create ?r 1 ?v"
    by (rule race_loss_equals_late_replay [OF w(1,2,4) valid refl])
      (use cb ids w(3) ex_db_books in \<open>simp_all add: ex_req_def books_ok_def schema_ok_def\<close>)
  ultimately show ?thesis using t(2) by (simp add: Let_def)
qed

end
