(* ===== verification/Gotime.thy ===== *)
theory Gotime
  imports Strconv
begin

text \<open>
  What the handlers use of Go's \<open>time\<close> package: the proleptic Gregorian calendar, \<open>Format\<close>
  with the two layouts of the wire format, and \<open>Parse\<close> with \<open>time.RFC3339Nano\<close>. Instants
  are microseconds since the epoch, the resolution of the stored timestamps. The main result is
  that a printed cursor parses back to the same instant.
\<close>

section \<open>Calendar\<close>

text \<open>
  Years are counted from March, so that the leap day ends a year: 400-year, 100-year and 4-year
  blocks, then the year and the day in it.
\<close>

definition civil :: "int \<Rightarrow> int \<times> int \<times> int" where
  "civil z =
     (let s = z + 719468;
          n400 = s div 146097; r400 = s mod 146097;
          n100 = min 3 (r400 div 36524); r100 = r400 - 36524 * n100;
          n4 = r100 div 1461; r4 = r100 mod 1461;
          n1 = min 3 (r4 div 365); doy = r4 - 365 * n1;
          mp = (5 * doy + 2) div 153;
          m = (if mp < 10 then mp + 3 else mp - 9)
      in (400 * n400 + 100 * n100 + 4 * n4 + n1 + (if m \<le> 2 then 1 else 0),
          m, doy - (153 * mp + 2) div 5 + 1))"

definition days_of :: "int \<Rightarrow> int \<Rightarrow> int \<Rightarrow> int" where
  "days_of y m d =
     (let y' = (if m \<le> 2 then y - 1 else y); mp = (if m \<le> 2 then m + 9 else m - 3)
      in 365 * y' + y' div 4 - y' div 100 + y' div 400 + (153 * mp + 2) div 5 + d - 1 - 719468)"

definition is_leap :: "int \<Rightarrow> bool" where
  "is_leap y \<longleftrightarrow> y mod 4 = 0 \<and> (y mod 100 \<noteq> 0 \<or> y mod 400 = 0)"

definition days_in :: "int \<Rightarrow> int \<Rightarrow> int" where
  "days_in y m =
     (if m = 2 then (if is_leap y then 29 else 28)
      else if m \<in> {4, 6, 9, 11} then 30 else 31)"

section \<open>Printing\<close>

fun pad :: "nat \<Rightarrow> nat \<Rightarrow> string" where
  "pad 0 v = []"
| "pad (Suc w) v = pad w (v div 10) @ [digit_char (v mod 10)]"

definition year_text :: "int \<Rightarrow> string" where
  "year_text y = (if 0 \<le> y \<and> y < 10000 then pad 4 (nat y) else Itoa y)"

text \<open>The instant \<open>t\<close> as its day and its microsecond in the day.\<close>

definition day_us :: int where
  "day_us = 86400000000"

definition clock_text :: "int \<Rightarrow> string" where
  "clock_text us =
     (let sec = nat (us div 1000000)
      in pad 2 (sec div 3600) @ '':'' @ pad 2 (sec div 60 mod 60) @ '':'' @ pad 2 (sec mod 60))"

definition date_time_text :: "time \<Rightarrow> string" where
  "date_time_text t =
     (let (y, m, d) = civil (t div day_us)
      in year_text y @ ''-'' @ pad 2 (nat m) @ ''-'' @ pad 2 (nat d) @ ''T'' @ clock_text (t mod day_us))"

text \<open>Layout \<open>2006-01-02T15:04:05.000Z\<close> of a UTC time.\<close>

definition format_millis :: "time \<Rightarrow> string" where
  "format_millis t = date_time_text t @ ''.'' @ pad 3 (nat (t mod 1000000) div 1000) @ ''Z''"

text \<open>Layout \<open>time.RFC3339Nano\<close> of a UTC time: trailing zeros of the fraction are dropped.\<close>

definition trim_zeros :: "string \<Rightarrow> string" where
  "trim_zeros s = rev (dropWhile (\<lambda>c. c = CHR ''0'') (rev s))"

definition fraction_text :: "nat \<Rightarrow> string" where
  "fraction_text us = (let f = trim_zeros (pad 6 us) in if f = [] then [] else CHR ''.'' # f)"

definition format_nano :: "time \<Rightarrow> string" where
  "format_nano t = date_time_text t @ fraction_text (nat (t mod 1000000)) @ ''Z''"

section \<open>Parsing\<close>

definition getnum2 :: "string \<Rightarrow> (int \<times> string) option" where
  "getnum2 s =
     (case s of
        a # b # r \<Rightarrow> if is_digit a \<and> is_digit b then Some (int (10 * digit_val a + digit_val b), r) else None
      | _ \<Rightarrow> None)"

text \<open>The hour may also be a single digit.\<close>

definition getnum :: "string \<Rightarrow> (int \<times> string) option" where
  "getnum s =
     (case s of
        a # r \<Rightarrow>
          if \<not> is_digit a then None
          else if r \<noteq> [] \<and> is_digit (hd r) then getnum2 s
          else Some (int (digit_val a), r)
      | [] \<Rightarrow> None)"

definition getyear :: "string \<Rightarrow> (int \<times> string) option" where
  "getyear s =
     (if 4 \<le> length s \<and> list_all is_digit (take 4 s) then Some (int (dec_val (take 4 s)), drop 4 s) else None)"

definition expect :: "char \<Rightarrow> string \<Rightarrow> string option" where
  "expect c s = (case s of [] \<Rightarrow> None | x # r \<Rightarrow> if x = c then Some r else None)"

text \<open>The optional fraction: the nanoseconds of its first nine digits.\<close>

definition getfraction :: "string \<Rightarrow> int \<times> string" where
  "getfraction s =
     (case s of
        c # d # r \<Rightarrow>
          if (c = CHR ''.'' \<or> c = CHR '','') \<and> is_digit d then
            (let ds = takeWhile is_digit (d # r); v = take 9 ds
             in (int (dec_val v) * 10 ^ (9 - length v), dropWhile is_digit (d # r)))
          else (0, s)
      | _ \<Rightarrow> (0, s))"

text \<open>\<open>Z\<close> or a numeric offset, in minutes, which must end the text.\<close>

definition getzone :: "string \<Rightarrow> int option" where
  "getzone s =
     (if s = ''Z'' then Some 0
      else case s of
        sg # r \<Rightarrow>
          Option.bind (getnum2 r) (\<lambda>(h, r1).
          Option.bind (expect CHR '':'' r1) (\<lambda>r2.
          Option.bind (getnum2 r2) (\<lambda>(m, r3).
          if r3 \<noteq> [] \<or> 24 < h \<or> 60 < m then None
          else if sg = CHR ''+'' then Some (60 * h + m)
          else if sg = CHR ''-'' then Some (- (60 * h + m))
          else None)))
      | [] \<Rightarrow> None)"

definition parse_rfc3339 :: "string \<Rightarrow> time option" where
  "parse_rfc3339 s =
     Option.bind (getyear s) (\<lambda>(y, s1).
     Option.bind (expect CHR ''-'' s1) (\<lambda>s2.
     Option.bind (getnum2 s2) (\<lambda>(m, s3).
     Option.bind (expect CHR ''-'' s3) (\<lambda>s4.
     Option.bind (getnum2 s4) (\<lambda>(d, s5).
     Option.bind (expect CHR ''T'' s5) (\<lambda>s6.
     Option.bind (getnum s6) (\<lambda>(hh, s7).
     Option.bind (expect CHR '':'' s7) (\<lambda>s8.
     Option.bind (getnum2 s8) (\<lambda>(mi, s9).
     Option.bind (expect CHR '':'' s9) (\<lambda>s10.
     Option.bind (getnum2 s10) (\<lambda>(sec, s11).
     (let (ns, s12) = getfraction s11 in
     Option.bind (getzone s12) (\<lambda>off.
     if m < 1 \<or> 12 < m \<or> 24 \<le> hh \<or> 60 \<le> mi \<or> 60 \<le> sec \<or> d < 1 \<or> days_in y m < d then None
     else Some (days_of y m d * day_us
        + ((hh * 60 + mi - off) * 60 + sec) * 1000000 + ns div 1000))))))))))))))"

section \<open>The calendar round trip\<close>

text \<open>The day number as 400-year, 100-year and 4-year blocks, a year and a day \<open>e\<close> of that year.\<close>

definition block_day :: "int \<Rightarrow> int \<Rightarrow> int \<Rightarrow> int \<Rightarrow> int \<Rightarrow> int" where
  "block_day a b c k e = 146097 * a + 36524 * b + 1461 * c + 365 * k + e - 719468"

definition date_in :: "int \<Rightarrow> int \<Rightarrow> int \<times> int \<times> int" where
  "date_in Y e =
     (let mp = (5 * e + 2) div 153; m = (if mp < 10 then mp + 3 else mp - 9)
      in (Y + (if m \<le> 2 then 1 else 0), m, e - (153 * mp + 2) div 5 + 1))"

lemma civil_blocks:
  obtains a b c k e where "z = block_day a b c k e"
    and "civil z = date_in (400 * a + 100 * b + 4 * c + k) e"
    and "0 \<le> b" "b \<le> 3" "0 \<le> c" "c \<le> 24" "0 \<le> k" "k \<le> 3" "0 \<le> e" "e \<le> 365"
    and "e = 365 \<longrightarrow> k = 3" "e = 365 \<and> c = 24 \<longrightarrow> b = 3"
proof -
  define r where "r = (z + 719468) mod 146097"
  define a where "a = (z + 719468) div 146097"
  define b where "b = min 3 (r div 36524)"
  define r1 where "r1 = r - 36524 * b"
  define c where "c = r1 div 1461"
  define r2 where "r2 = r1 mod 1461"
  define k where "k = min 3 (r2 div 365)"
  define e where "e = r2 - 365 * k"
  have a: "z + 719468 = 146097 * a + r" "0 \<le> r" "r < 146097"
    by (simp_all add: a_def r_def)
  have b: "0 \<le> b" "b \<le> 3" "0 \<le> r1" "r1 \<le> 36524" "r = 36524 * b + r1" "b < 3 \<Longrightarrow> r1 < 36524"
    using a by (auto simp: b_def r1_def min_def)
  have c: "0 \<le> c" "c \<le> 24" "r1 = 1461 * c + r2" "0 \<le> r2" "r2 < 1461"
    using b by (auto simp: c_def r2_def)
  have k: "0 \<le> k" "k \<le> 3" "0 \<le> e" "e \<le> 365" "r2 = 365 * k + e" "k < 3 \<Longrightarrow> e < 365"
    using c by (auto simp: k_def e_def min_def)
  show ?thesis
  proof (rule that)
    show "z = block_day a b c k e" using a b c k by (simp add: block_day_def)
    show "civil z = date_in (400 * a + 100 * b + 4 * c + k) e"
      unfolding civil_def date_in_def Let_def r_def [symmetric] a_def [symmetric] b_def [symmetric]
        r1_def [symmetric] c_def [symmetric] r2_def [symmetric] k_def [symmetric] e_def [symmetric] ..
    show "e = 365 \<longrightarrow> k = 3" using k by linarith
    then show "e = 365 \<and> c = 24 \<longrightarrow> b = 3" using b c k by linarith
  qed (use b c k in auto)
qed

lemma month_day:
  assumes "0 \<le> e" "e \<le> (365 :: int)"
  defines "mp \<equiv> (5 * e + 2) div 153"
  shows "0 \<le> mp" "mp \<le> 11" "0 \<le> e - (153 * mp + 2) div 5" "e - (153 * mp + 2) div 5 \<le> 30"
    "mp \<in> {1, 3, 6, 8} \<Longrightarrow> e - (153 * mp + 2) div 5 \<le> 29"
    "mp = 11 \<Longrightarrow> e - (153 * mp + 2) div 5 = e - 337"
  using assms(1,2) unfolding mp_def by auto

theorem days_of_civil: "(case civil z of (y, m, d) \<Rightarrow> days_of y m d) = z"
proof -
  obtain a b c k e where z: "z = block_day a b c k e" "civil z = date_in (400 * a + 100 * b + 4 * c + k) e"
    and r: "0 \<le> b" "b \<le> 3" "0 \<le> c" "c \<le> 24" "0 \<le> k" "k \<le> 3" "0 \<le> e" "e \<le> 365"
    by (rule civil_blocks)
  define Y where "Y = 400 * a + 100 * b + 4 * c + k"
  have "Y div 4 = 100 * a + 25 * b + c" "Y div 100 = 4 * a + b" "Y div 400 = a"
    using r unfolding Y_def by linarith+
  then have "365 * Y + Y div 4 - Y div 100 + Y div 400 + e - 719468 = z"
    by (simp add: Y_def z(1) block_day_def)
  moreover define mp where "mp = (5 * e + 2) div 153"
  then have "0 \<le> mp" "mp \<le> 11"
    and "civil z = (Y + (if (if mp < 10 then mp + 3 else mp - 9) \<le> 2 then 1 else 0),
      if mp < 10 then mp + 3 else mp - 9, e - (153 * mp + 2) div 5 + 1)"
    using month_day(1,2) [OF r(7,8)] by (simp_all only: z(2) date_in_def Y_def Let_def)
  ultimately show ?thesis
    by (auto simp: days_of_def Let_def)
qed

lemma civil_valid:
  assumes "civil z = (y, m, d)"
  shows "1 \<le> m" "m \<le> 12" "1 \<le> d" "d \<le> days_in y m"
proof -
  obtain a b c k e where "z = block_day a b c k e" "civil z = date_in (400 * a + 100 * b + 4 * c + k) e"
    and r: "0 \<le> b" "b \<le> 3" "0 \<le> c" "c \<le> 24" "0 \<le> k" "k \<le> 3" "0 \<le> e" "e \<le> 365"
    and leap: "e = 365 \<longrightarrow> k = 3" "e = 365 \<and> c = 24 \<longrightarrow> b = 3"
    by (rule civil_blocks [of z])
  then have eq: "(y, m, d) = date_in (400 * a + 100 * b + 4 * c + k) e" using assms by simp
  define mp where "mp = (5 * e + 2) div 153"
  note md = month_day [OF r(7,8), folded mp_def]
  have ymd: "y = 400 * a + 100 * b + 4 * c + k + (if m \<le> 2 then 1 else 0)"
    "m = (if mp < 10 then mp + 3 else mp - 9)" "d = e - (153 * mp + 2) div 5 + 1"
    using eq by (simp_all add: date_in_def Let_def mp_def)
  show "1 \<le> m" "m \<le> 12" "1 \<le> d" using md(1-3) ymd by auto
  have "is_leap y" if "e = 365" "m = 2"
  proof -
    have "y = 4 * (100 * a + 25 * b + c + 1)" using ymd(1) leap(1) that by simp
    moreover have "y mod 400 = 0" if "c = 24"
      using ymd(1) leap \<open>e = 365\<close> \<open>m = 2\<close> that by simp
    moreover have "y mod 100 \<noteq> 0" if "c < 24"
    proof -
      have "y = (4 * c + 4) + (4 * a + b) * 100" using ymd(1) leap(1) \<open>e = 365\<close> \<open>m = 2\<close> by simp
      then have "y mod 100 = (4 * c + 4) mod 100" by (simp only: mod_mult_self1)
      also have "\<dots> = 4 * c + 4" using r that by (intro mod_pos_pos_trivial) auto
      finally show ?thesis using r by simp
    qed
    ultimately show ?thesis using r by (force simp: is_leap_def)
  qed
  then have "m = 2 \<Longrightarrow> e \<le> 364 \<or> is_leap y"
    using r(8) by (cases "e = 365") auto
  then show "d \<le> days_in y m"
    using md ymd(2,3) r by (auto simp: days_in_def split: if_splits)
qed

section \<open>Printed instants parse back\<close>

lemma length_pad [simp]: "length (pad w v) = w"
  by (induction w arbitrary: v) auto

lemma pad_digits: "list_all is_digit (pad w v)"
  by (induction w arbitrary: v) auto

lemma dec_val_snoc: "dec_val (s @ [c]) = 10 * dec_val s + digit_val c"
  by (simp add: dec_val_def)

lemma dec_val_pad: "v < 10 ^ w \<Longrightarrow> dec_val (pad w v) = v"
proof (induction w arbitrary: v)
  case (Suc w)
  then have "v div 10 < 10 ^ w" by auto
  then show ?case using Suc.IH by (simp add: dec_val_snoc)
qed (simp add: dec_val_def)

lemma pad2: "pad 2 v = [digit_char (v div 10 mod 10), digit_char (v mod 10)]"
  by (simp add: numeral_2_eq_2)

lemma getnum2_pad: "v < 100 \<Longrightarrow> getnum2 (pad 2 v @ r) = Some (int v, r)"
  by (simp add: pad2 getnum2_def)

lemma getnum_pad: "v < 100 \<Longrightarrow> getnum (pad 2 v @ r) = Some (int v, r)"
  using getnum2_pad [of v r] by (simp add: getnum_def pad2)

lemma getyear_pad: "v < 10000 \<Longrightarrow> getyear (pad 4 v @ r) = Some (int v, r)"
  using dec_val_pad [of v 4] pad_digits [of 4 v] by (simp add: getyear_def)

lemma expect_same [simp]: "expect c (c # r) = Some r"
  by (simp add: expect_def)

lemma trim_zeros_split: "\<exists>k. s = trim_zeros s @ replicate k CHR ''0''"
proof -
  have "rev s = takeWhile (\<lambda>c. c = CHR ''0'') (rev s) @ dropWhile (\<lambda>c. c = CHR ''0'') (rev s)"
    by simp
  moreover have "takeWhile (\<lambda>c. c = CHR ''0'') (rev s)
      = replicate (length (takeWhile (\<lambda>c. c = CHR ''0'') (rev s))) CHR ''0''"
    by (metis (full_types) replicate_length_same set_takeWhileD)
  ultimately have "s = rev (dropWhile (\<lambda>c. c = CHR ''0'') (rev s))
      @ replicate (length (takeWhile (\<lambda>c. c = CHR ''0'') (rev s))) CHR ''0''"
    by (metis rev_append rev_replicate rev_rev_ident)
  then show ?thesis unfolding trim_zeros_def by blast
qed

lemma dec_val_zeros: "dec_val (s @ replicate k CHR ''0'') = dec_val s * 10 ^ k"
proof (induction k)
  case (Suc k)
  have "s @ replicate (Suc k) CHR ''0'' = (s @ replicate k CHR ''0'') @ [CHR ''0'']"
    by (simp add: replicate_append_same)
  then show ?case
    using Suc by (simp add: dec_val_snoc digit_val_def del: append_assoc replicate.simps)
qed simp

lemma getfraction_text:
  assumes "us < 1000000"
  shows "getfraction (fraction_text us @ ''Z'') = (int us * 1000, ''Z'')"
proof -
  let ?f = "trim_zeros (pad 6 us)"
  obtain k where k: "pad 6 us = ?f @ replicate k CHR ''0''"
    using trim_zeros_split by blast
  have us: "us = dec_val ?f * 10 ^ k"
    using dec_val_pad [of us 6] assms dec_val_zeros [of ?f k] k by simp
  have len: "length ?f + k = 6"
    using arg_cong [OF k, of length] by simp
  have dig: "list_all is_digit ?f"
    using pad_digits [of 6 us] k by (metis list_all_append)
  show ?thesis
  proof (cases ?f)
    case Nil
    then have "us = 0" using us by (simp add: dec_val_def)
    then show ?thesis using Nil by (simp add: fraction_text_def getfraction_def)
  next
    case (Cons d r)
    have "\<not> is_digit CHR ''Z''" by (simp add: is_digit_def)
    then have tw: "takeWhile is_digit (?f @ ''Z'') = ?f" "dropWhile is_digit (?f @ ''Z'') = ''Z''"
      using dig by (simp_all add: list_all_iff takeWhile_append2 dropWhile_append2)
    have "10 ^ (9 - length ?f) = (1000 :: int) * 10 ^ k"
    proof -
      have "9 - length ?f = 3 + k" using len by simp
      then show ?thesis by (simp add: power_add)
    qed
    moreover have "int us = int (dec_val ?f) * 10 ^ k"
      using us by (metis of_nat_mult of_nat_power of_nat_numeral)
    ultimately have "int (dec_val ?f) * 10 ^ (9 - length ?f) = int us * 1000"
      by simp
    moreover have "take 9 ?f = ?f" using len by simp
    ultimately show ?thesis
      using Cons tw dig by (simp add: fraction_text_def getfraction_def Let_def)
  qed
qed

lemma clock_sum:
  fixes us :: int
  assumes "0 \<le> us"
  defines "sec \<equiv> nat (us div 1000000)"
  shows "((int (sec div 3600) * 60 + int (sec div 60 mod 60)) * 60 + int (sec mod 60)) * 1000000 + us mod 1000000 = us"
proof -
  have "(sec div 3600 * 60 + sec div 60 mod 60) * 60 + sec mod 60 = sec"
    using div_mult_mod_eq [of sec 60] div_mult_mod_eq [of "sec div 60" 60]
    by (simp add: div_mult2_eq [of sec 60 60, simplified])
  then have "(int (sec div 3600) * 60 + int (sec div 60 mod 60)) * 60 + int (sec mod 60) = int sec"
    by (metis of_nat_add of_nat_mult of_nat_numeral)
  moreover have "0 \<le> us div 1000000"
    using assms(1) by (simp add: pos_imp_zdiv_nonneg_iff)
  ultimately show ?thesis
    by (simp add: sec_def)
qed

lemma parse_printed:
  assumes "y < 10000" and "1 \<le> m" "m \<le> 12" and "1 \<le> d" "int d \<le> days_in (int y) (int m)"
    and "hh < 24" and "mi < 60" and "sec < 60" and "fr < 1000000"
  shows "parse_rfc3339 (pad 4 y @ CHR ''-'' # pad 2 m @ CHR ''-'' # pad 2 d @ CHR ''T''
      # pad 2 hh @ CHR '':'' # pad 2 mi @ CHR '':'' # pad 2 sec @ fraction_text fr @ ''Z'')
    = Some (days_of (int y) (int m) (int d) * day_us + ((int hh * 60 + int mi) * 60 + int sec) * 1000000 + int fr)"
proof -
  have "getzone ''Z'' = Some 0" by (simp add: getzone_def)
  moreover have "d < 100" using assms(5) by (auto simp: days_in_def split: if_splits)
  ultimately show ?thesis
    using assms by (simp add: parse_rfc3339_def getyear_pad getnum2_pad getnum_pad getfraction_text Let_def)
qed

theorem parse_format_nano:
  assumes "civil (t div day_us) = (y, m, d)" and "0 \<le> y" and "y < 10000"
  shows "parse_rfc3339 (format_nano t) = Some t"
proof -
  note v = civil_valid [OF assms(1)]
  define us where "us = t mod day_us"
  have us: "0 \<le> us" "us < day_us" by (simp_all add: us_def day_us_def)
  define sec where "sec = nat (us div 1000000)"
  have sec: "sec div 3600 < 24"
    using us by (simp add: sec_def day_us_def)
  define fr where "fr = nat (t mod 1000000)"
  have fr: "int fr = us mod 1000000" "fr < 1000000"
    by (simp_all add: fr_def us_def day_us_def mod_mod_cancel)
  have printed: "format_nano t = pad 4 (nat y) @ CHR ''-'' # pad 2 (nat m) @ CHR ''-'' # pad 2 (nat d) @ CHR ''T''
      # pad 2 (sec div 3600) @ CHR '':'' # pad 2 (sec div 60 mod 60) @ CHR '':'' # pad 2 (sec mod 60)
      @ fraction_text fr @ ''Z''"
    using assms by (simp add: format_nano_def date_time_text_def year_text_def clock_text_def Let_def
        us_def [symmetric] sec_def [symmetric] fr_def [symmetric])
  have "t = t div day_us * day_us + us" by (simp add: us_def)
  then have "days_of y m d * day_us + us = t"
    using days_of_civil [of "t div day_us"] assms(1) by simp
  then have t: "days_of y m d * day_us + ((int (sec div 3600) * 60 + int (sec div 60 mod 60)) * 60
      + int (sec mod 60)) * 1000000 + int fr = t"
    using clock_sum [OF us(1), folded sec_def] fr(1) by linarith
  have "nat y < 10000" "1 \<le> nat m" "nat m \<le> 12" "1 \<le> nat d"
    "int (nat d) \<le> days_in (int (nat y)) (int (nat m))"
    using assms(2,3) v by auto
  from parse_printed [OF this sec mod_less_divisor mod_less_divisor fr(2), of "sec div 60" sec]
  show ?thesis
    unfolding printed using t assms(2) v by simp
qed

end
