(* ===== verification/Http.thy ===== *)
theory Http
  imports Service Gotime "HOL-Library.Sublist"
begin

text \<open>
  What the handlers and middlewares use of \<open>net/http\<close> and \<open>encoding/json\<close>. Requests are
  pointers: a handler gets an address into the store \<open>ioReqs\<close>, so that a middleware which
  passes a copy on (\<open>r.WithContext\<close>) no longer sees what is written into the copy. The response
  writer a handler holds is the base writer under a stack of status recorders, the outermost
  first. A JSON text is its value; a number keeps its literal.
\<close>

section \<open>JSON\<close>

datatype json =
    JNull
  | JBool bool
  | JNumber string
  | JString string
  | JArray "json list"
  | JObject "(string \<times> json) list"

text \<open>What the decoder finds in a request body: a syntax error, or the first value.\<close>

datatype body = Malformed string | Parsed json

datatype 's setter = SetString "string \<Rightarrow> 's \<Rightarrow> 's" | SetInt64 "int64 \<Rightarrow> 's \<Rightarrow> 's"

fun json_kind :: "json \<Rightarrow> string" where
  "json_kind JNull = ''null''"
| "json_kind (JBool b) = ''bool''"
| "json_kind (JNumber n) = ''number''"
| "json_kind (JString s) = ''string''"
| "json_kind (JArray xs) = ''array''"
| "json_kind (JObject ms) = ''object''"

text \<open>
  Storing a value into a struct field: the description of the mismatch, if any, and the new struct.
  \<open>null\<close> leaves the field alone; an \<open>int64\<close> takes only an integer literal in range.
\<close>

fun set_field :: "'s setter \<Rightarrow> json \<Rightarrow> 's \<Rightarrow> (string \<times> string) option \<times> 's" where
  "set_field st JNull s = (None, s)"
| "set_field (SetString f) (JString v) s = (None, f v s)"
| "set_field (SetString f) j s = (Some (json_kind j, ''string''), s)"
| "set_field (SetInt64 f) (JNumber n) s =
     (case Atoi n of
        Some i \<Rightarrow> (None, f (word_of_int i) s)
      | None \<Rightarrow> (Some (''number '' @ n, ''int64''), s))"
| "set_field (SetInt64 f) j s = (Some (json_kind j, ''int64''), s)"

definition to_lower :: "char \<Rightarrow> char" where
  "to_lower c = (if 65 \<le> (of_char c :: nat) \<and> (of_char c :: nat) \<le> 90 then char_of (of_char c + 32 :: nat) else c)"

text \<open>
  \<open>foldName\<close>: the member names \<open>encoding/json\<close> takes for equal are those with the same simple case
  folding in Unicode. The field names are ASCII, and beside the ASCII letters only two characters
  fold to one: the Kelvin sign (\<open>U+212A\<close>) to \<open>k\<close> and the long s (\<open>U+017F\<close>) to \<open>s\<close>. Others may stay as
  they are, since no field name has them.
\<close>

definition kelvin_sign :: string where
  "kelvin_sign = [CHR 0xE2, CHR 0x84, CHR 0xAA]"

definition long_s :: string where
  "long_s = [CHR 0xC5, CHR 0xBF]"

fun fold_name :: "string \<Rightarrow> string" where
  "fold_name [] = []"
| "fold_name (c # s) =
     (if take 3 (c # s) = kelvin_sign then CHR ''k'' # fold_name (drop 2 s)
      else if take 2 (c # s) = long_s then CHR ''s'' # fold_name (drop 1 s)
      else to_lower c # fold_name s)"

text \<open>An exact field name wins over one that only matches up to case.\<close>

definition find_field :: "string \<Rightarrow> (string \<times> 's setter) list \<Rightarrow> (string \<times> 's setter) option" where
  "find_field k fs =
     (case List.find (\<lambda>(n, _). n = k) fs of
        Some f \<Rightarrow> Some f
      | None \<Rightarrow> List.find (\<lambda>(n, _). fold_name n = fold_name k) fs)"

definition quote :: "string \<Rightarrow> string" where
  "quote s = CHR 0x22 # concat (map (\<lambda>c. if c = CHR 0x22 \<or> c = CHR 0x5C then [CHR 0x5C, c] else [c]) s) @ [CHR 0x22]"

text \<open>
  Decoding an object with \<open>DisallowUnknownFields\<close>: every member is visited in order, the last
  one of a repeated name wins, and the first problem is the error that is reported.
\<close>

fun decode_members ::
  "string \<Rightarrow> (string \<times> 's setter) list \<Rightarrow> (string \<times> json) list \<Rightarrow> string option \<Rightarrow> 's \<Rightarrow> string option \<times> 's"
where
  "decode_members T fs [] err s = (err, s)"
| "decode_members T fs ((k, v) # ms) err s =
     (case find_field k fs of
        None \<Rightarrow>
          decode_members T fs ms (if err = None then Some (''json: unknown field '' @ quote k) else err) s
      | Some (n, st) \<Rightarrow>
          (case set_field st v s of
             (None, s') \<Rightarrow> decode_members T fs ms err s'
           | (Some (what, ty), s') \<Rightarrow>
               decode_members T fs ms
                 (if err = None
                  then Some (''json: cannot unmarshal '' @ what @ '' into Go struct field '' @ T @ ''.'' @ n @ '' of type '' @ ty)
                  else err) s'))"

definition Decode :: "string \<Rightarrow> (string \<times> 's setter) list \<Rightarrow> 's \<Rightarrow> body \<Rightarrow> string + 's" where
  "Decode T fs zero b =
     (case b of
        Malformed m \<Rightarrow> Inl m
      | Parsed JNull \<Rightarrow> Inr zero
      | Parsed (JObject ms) \<Rightarrow>
          (case decode_members T fs ms None zero of (Some e, _) \<Rightarrow> Inl e | (None, s) \<Rightarrow> Inr s)
      | Parsed j \<Rightarrow> Inl (''json: cannot unmarshal '' @ json_kind j @ '' into Go value of type handler.'' @ T))"

section \<open>Requests and responses\<close>

record request =
  rqMethod :: string
  rqPath :: "string list"
  rqHeader :: "string \<Rightarrow> string"
  rqCtxRequestID :: "string option"
  rqPattern :: string
  rqPathValue :: string
  rqQuery :: "(string \<times> string) list"
  rqBody :: body

datatype chunk = Raw string | Encoded json

record response =
  rspHeader :: "string \<Rightarrow> string option"
  rspStatus :: "nat option"
  rspSentHeader :: "string \<Rightarrow> string option"
  rspBody :: "chunk list"

definition fresh_response :: response where
  "fresh_response = \<lparr>rspHeader = Map.empty, rspStatus = None, rspSentHeader = Map.empty, rspBody = []\<rparr>"

record statusRecorder =
  srStatus :: nat
  srWrote :: bool

record log_line =
  lgMessage :: string
  lgRequestID :: string
  lgMethod :: string
  lgPath :: "string list"
  lgStatus :: nat
  lgDetail :: string

record io =
  ioWorld :: world
  ioRsp :: response
  ioRecs :: "statusRecorder list"
  ioReqs :: "request list"
  ioLog :: "log_line list"
  ioRand :: "nat \<Rightarrow> uuid"
  ioDrawn :: nat
  HTTPRequestsTotal :: "string \<times> string \<times> string \<Rightarrow> nat"
  HTTPRequestDuration :: "string \<times> string \<Rightarrow> nat"

text \<open>A handler returns or panics; it is called with the address of its request.\<close>

datatype flow = Done | Panicked string

type_synonym handler = "nat \<Rightarrow> io \<Rightarrow> flow \<times> io"

definition req_at :: "nat \<Rightarrow> io \<Rightarrow> request" where
  "req_at a s = ioReqs s ! a"

text \<open>The library \<open>github.com/google/uuid\<close>: \<open>String\<close> and \<open>Parse\<close>.\<close>

record uuid_lib =
  uuidString :: "uuid \<Rightarrow> string"
  uuidParse :: "string \<Rightarrow> uuid option"

definition draw_uuid :: "io \<Rightarrow> uuid \<times> io" where
  "draw_uuid s = (ioRand s (ioDrawn s), s\<lparr>ioDrawn := Suc (ioDrawn s)\<rparr>)"

section \<open>Writing\<close>

definition set_header :: "string \<Rightarrow> string \<Rightarrow> io \<Rightarrow> io" where
  "set_header k v s = s\<lparr>ioRsp := (ioRsp s)\<lparr>rspHeader := (rspHeader (ioRsp s))(k \<mapsto> v)\<rparr>\<rparr>"

text \<open>The base writer: the first status wins and freezes the headers.\<close>

definition base_WriteHeader :: "nat \<Rightarrow> response \<Rightarrow> response" where
  "base_WriteHeader code r =
     (if rspStatus r = None then r\<lparr>rspStatus := Some code, rspSentHeader := rspHeader r\<rparr> else r)"

definition base_Write :: "chunk \<Rightarrow> response \<Rightarrow> response" where
  "base_Write b r = (let r' = base_WriteHeader 200 r in r'\<lparr>rspBody := rspBody r' @ [b]\<rparr>)"

text \<open>\<open>statusRecorder.WriteHeader\<close> and \<open>statusRecorder.Write\<close>: note the status, then delegate.\<close>

definition note_status :: "nat \<Rightarrow> statusRecorder \<Rightarrow> statusRecorder" where
  "note_status code r = (if \<not> srWrote r then r\<lparr>srStatus := code, srWrote := True\<rparr> else r)"

fun rec_WriteHeader :: "nat \<Rightarrow> statusRecorder list \<Rightarrow> response \<Rightarrow> statusRecorder list \<times> response" where
  "rec_WriteHeader code [] rsp = ([], base_WriteHeader code rsp)"
| "rec_WriteHeader code (r # rs) rsp =
     (let (rs', rsp') = rec_WriteHeader code rs rsp in (note_status code r # rs', rsp'))"

fun rec_Write :: "chunk \<Rightarrow> statusRecorder list \<Rightarrow> response \<Rightarrow> statusRecorder list \<times> response" where
  "rec_Write b [] rsp = ([], base_Write b rsp)"
| "rec_Write b (r # rs) rsp =
     (let (rs', rsp') = rec_Write b rs rsp in (note_status 200 r # rs', rsp'))"

definition WriteHeader :: "nat \<Rightarrow> io \<Rightarrow> io" where
  "WriteHeader code s =
     (let (rs, rsp) = rec_WriteHeader code (ioRecs s) (ioRsp s) in s\<lparr>ioRecs := rs, ioRsp := rsp\<rparr>)"

definition Write :: "chunk \<Rightarrow> io \<Rightarrow> io" where
  "Write b s =
     (let (rs, rsp) = rec_Write b (ioRecs s) (ioRsp s) in s\<lparr>ioRecs := rs, ioRsp := rsp\<rparr>)"

definition log_io :: "log_line \<Rightarrow> io \<Rightarrow> io" where
  "log_io l s = s\<lparr>ioLog := ioLog s @ [l]\<rparr>"

section \<open>What a handler may do\<close>

text \<open>A recorder is in step with a response: it holds the status that was sent, or none was.\<close>

definition synced :: "response \<Rightarrow> statusRecorder \<Rightarrow> bool" where
  "synced rsp r \<longleftrightarrow> srWrote r = (rspStatus rsp \<noteq> None) \<and> (\<forall>c. rspStatus rsp = Some c \<longrightarrow> srStatus r = c)"

lemma rec_WriteHeader_eq:
  "rec_WriteHeader code rs rsp = (map (note_status code) rs, base_WriteHeader code rsp)"
  by (induction rs) auto

lemma rec_Write_eq: "rec_Write b rs rsp = (map (note_status 200) rs, base_Write b rsp)"
  by (induction rs) auto

lemma WriteHeader_eq:
  "WriteHeader code s = s\<lparr>ioRecs := map (note_status code) (ioRecs s), ioRsp := base_WriteHeader code (ioRsp s)\<rparr>"
  by (simp add: WriteHeader_def rec_WriteHeader_eq)

lemma Write_eq:
  "Write b s = s\<lparr>ioRecs := map (note_status 200) (ioRecs s), ioRsp := base_Write b (ioRsp s)\<rparr>"
  by (simp add: Write_def rec_Write_eq)

lemma base_Write_status [simp]: "rspStatus (base_Write b r) = (if rspStatus r = None then Some 200 else rspStatus r)"
  by (simp add: base_Write_def base_WriteHeader_def)

lemma base_WriteHeader_status [simp]:
  "rspStatus (base_WriteHeader c r) = (if rspStatus r = None then Some c else rspStatus r)"
  by (simp add: base_WriteHeader_def)

lemma io_sel [simp]:
  "rspStatus (ioRsp (Write b s)) = (if rspStatus (ioRsp s) = None then Some 200 else rspStatus (ioRsp s))"
  "rspStatus (ioRsp (WriteHeader c s)) = (if rspStatus (ioRsp s) = None then Some c else rspStatus (ioRsp s))"
  "ioRsp (log_io l s) = ioRsp s" "rspStatus (ioRsp (set_header k v s)) = rspStatus (ioRsp s)"
  "ioReqs (Write b s) = ioReqs s" "ioReqs (WriteHeader c s) = ioReqs s"
  "ioReqs (set_header k v s) = ioReqs s" "ioReqs (log_io l s) = ioReqs s"
  "ioWorld (Write b s) = ioWorld s" "ioWorld (WriteHeader c s) = ioWorld s"
  "ioWorld (set_header k v s) = ioWorld s" "ioWorld (log_io l s) = ioWorld s"
  "ioLog (Write b s) = ioLog s" "ioLog (WriteHeader c s) = ioLog s" "ioLog (set_header k v s) = ioLog s"
  "ioLog (log_io l s) = ioLog s @ [l]" "rspBody (ioRsp (WriteHeader c s)) = rspBody (ioRsp s)"
  "rspBody (ioRsp (Write b s)) = rspBody (ioRsp s) @ [b]"
  "rspBody (ioRsp (set_header k v s)) = rspBody (ioRsp s)"
  "rspHeader (ioRsp (Write b s)) = rspHeader (ioRsp s)" "rspHeader (ioRsp (WriteHeader c s)) = rspHeader (ioRsp s)"
  "rspHeader (ioRsp (set_header k v s)) = (rspHeader (ioRsp s))(k \<mapsto> v)"
  by (simp_all add: Write_eq WriteHeader_eq log_io_def set_header_def base_Write_def base_WriteHeader_def Let_def)

text \<open>
  A handler is specified by a relation between the states around it, for the address of the
  request it serves. \<open>reply_frame\<close> lists the steps a handler is made of; whoever respects each
  of them respects the relation. A mux may fill in the pattern and the path value of its request.
\<close>

definition routed :: "request \<Rightarrow> request \<Rightarrow> bool" where
  "routed r r' \<longleftrightarrow> (\<exists>p v. r' = r\<lparr>rqPattern := p, rqPathValue := v\<rparr>)"

lemma routedI [simp]:
  "routed r (r\<lparr>rqPattern := p, rqPathValue := v\<rparr>)" "routed r (r\<lparr>rqPattern := p\<rparr>)"
proof -
  show "routed r (r\<lparr>rqPattern := p, rqPathValue := v\<rparr>)" by (auto simp: routed_def)
  have "r\<lparr>rqPattern := p\<rparr> = r\<lparr>rqPattern := p, rqPathValue := rqPathValue r\<rparr>" by simp
  then show "routed r (r\<lparr>rqPattern := p\<rparr>)" unfolding routed_def by blast
qed

lemma routedD:
  assumes "routed r r'"
  shows "rqMethod r' = rqMethod r" "rqPath r' = rqPath r" "rqHeader r' = rqHeader r"
    "rqCtxRequestID r' = rqCtxRequestID r" "rqQuery r' = rqQuery r" "rqBody r' = rqBody r"
  using assms by (auto simp: routed_def)

text \<open>
  \<open>responds R a s x\<close>: the outcome \<open>x\<close> of serving the request \<open>a\<close> from \<open>s\<close> is related to
  \<open>s\<close>, and a call that returns has sent a status.
\<close>

definition responds :: "(nat \<Rightarrow> io \<Rightarrow> io \<Rightarrow> bool) \<Rightarrow> nat \<Rightarrow> io \<Rightarrow> flow \<times> io \<Rightarrow> bool" where
  "responds R a s x \<longleftrightarrow> R a s (snd x) \<and> (fst x = Done \<longrightarrow> rspStatus (ioRsp (snd x)) \<noteq> None)"

definition behaves :: "(nat \<Rightarrow> io \<Rightarrow> io \<Rightarrow> bool) \<Rightarrow> handler \<Rightarrow> bool" where
  "behaves R h \<longleftrightarrow> (\<forall>a s. a < length (ioReqs s) \<longrightarrow> responds R a s (h a s))"

lemma behavesI:
  "(\<And>a s f s'. a < length (ioReqs s) \<Longrightarrow> h a s = (f, s') \<Longrightarrow>
     R a s s' \<and> (f = Done \<longrightarrow> rspStatus (ioRsp s') \<noteq> None)) \<Longrightarrow> behaves R h"
  unfolding behaves_def responds_def by (metis prod.collapse)

lemma behavesD:
  assumes "behaves R h" and "h a s = (f, s')" and "a < length (ioReqs s)"
  shows "R a s s'" "f = Done \<Longrightarrow> rspStatus (ioRsp s') \<noteq> None"
  using assms unfolding behaves_def responds_def by (metis fst_conv snd_conv)+

locale reply_frame =
  fixes R :: "nat \<Rightarrow> io \<Rightarrow> io \<Rightarrow> bool"
  assumes R_refl: "R a s s"
    and R_trans: "R a s t \<Longrightarrow> R a t u \<Longrightarrow> R a s u"
    and R_WriteHeader: "R a s (WriteHeader c s)"
    and R_Write: "R a s (Write b s)"
    and R_set_header: "k \<noteq> ''X-Request-Id'' \<Longrightarrow> R a s (set_header k v s)"
    and R_log: "lgMessage l \<noteq> ''http_request'' \<Longrightarrow> R a s (log_io l s)"
    and R_world: "R a s (s\<lparr>ioWorld := w\<rparr>)"
    and R_draw: "R a s (s\<lparr>ioDrawn := n\<rparr>)"
    and R_route: "routed (req_at a s) r \<Longrightarrow> R a s (s\<lparr>ioReqs := (ioReqs s)[a := r]\<rparr>)"
begin

lemmas steps = R_refl R_trans [OF _ R_WriteHeader] R_trans [OF _ R_Write]
  R_trans [OF _ R_set_header] R_trans [OF _ R_log] R_trans [OF _ R_world] R_trans [OF _ R_draw]
  R_trans [OF _ R_route]

end

text \<open>
  The frame of a handler that serves the request at \<open>a\<close>: the writers around it stay, and stay in
  step; it may add requests and change its own, but no other; a status once sent is final; and
  the log only grows.
\<close>

definition io_frame :: "nat \<Rightarrow> io \<Rightarrow> io \<Rightarrow> bool" where
  "io_frame a s s' \<longleftrightarrow>
     list_all2 (\<lambda>r r'. synced (ioRsp s) r \<longrightarrow> synced (ioRsp s') r') (ioRecs s) (ioRecs s') \<and>
     length (ioReqs s) \<le> length (ioReqs s') \<and>
     (\<forall>b<length (ioReqs s). b \<noteq> a \<longrightarrow> ioReqs s' ! b = ioReqs s ! b) \<and>
     (rspStatus (ioRsp s) \<noteq> None \<longrightarrow> rspStatus (ioRsp s') = rspStatus (ioRsp s)) \<and>
     prefix (ioLog s) (ioLog s')"

text \<open>A call with the address of a request that was added in between stays in the frame too.\<close>

lemma io_frame_call:
  assumes "io_frame a s t" and "io_frame b t u" and "b = a \<or> length (ioReqs s) \<le> b"
  shows "io_frame a s u"
proof -
  have "list_all2 (\<lambda>r r'. synced (ioRsp s) r \<longrightarrow> synced (ioRsp u) r') (ioRecs s) (ioRecs u)"
    using assms by (auto simp: io_frame_def list_all2_conv_all_nth)
  then show ?thesis
    using assms by (auto simp: io_frame_def intro: prefix_order.trans)
qed

lemma io_frame_header: "io_frame a s (set_header k v s)"
  by (simp add: io_frame_def set_header_def list_all2_same synced_def)

lemma io_frame_log: "io_frame a s (log_io l s)"
  by (simp add: io_frame_def log_io_def list_all2_same)

interpretation in_frame: reply_frame io_frame
proof
  fix a s t u assume "io_frame a s t" and "io_frame a t u"
  then show "io_frame a s u" by (rule io_frame_call) simp
qed (auto simp: io_frame_def WriteHeader_eq Write_eq set_header_def log_io_def
    list_all2_map2 list_all2_same synced_def note_status_def)

text \<open>
  What a handler below \<open>RequestID\<close> leaves alone: the request line and the context of its request,
  the response header with the request id (also in the headers that were sent), the collectors of
  the HTTP metrics and the access log.
\<close>

definition access_lines :: "io \<Rightarrow> log_line list" where
  "access_lines s = filter (\<lambda>l. lgMessage l = ''http_request'') (ioLog s)"

definition id_header :: "response \<Rightarrow> string option" where
  "id_header r = (if rspStatus r = None then rspHeader r else rspSentHeader r) ''X-Request-Id''"

definition id_frame :: "nat \<Rightarrow> io \<Rightarrow> io \<Rightarrow> bool" where
  "id_frame a s s' \<longleftrightarrow>
     (a < length (ioReqs s) \<longrightarrow> a < length (ioReqs s') \<and>
        rqMethod (req_at a s') = rqMethod (req_at a s) \<and> rqPath (req_at a s') = rqPath (req_at a s) \<and>
        rqCtxRequestID (req_at a s') = rqCtxRequestID (req_at a s)) \<and>
     id_header (ioRsp s') = id_header (ioRsp s) \<and>
     access_lines s' = access_lines s \<and>
     HTTPRequestsTotal s' = HTTPRequestsTotal s \<and> HTTPRequestDuration s' = HTTPRequestDuration s"

interpretation keeps_id: reply_frame id_frame
  by unfold_locales
    (auto simp: id_frame_def WriteHeader_eq Write_eq set_header_def log_io_def access_lines_def
      id_header_def base_Write_def base_WriteHeader_def req_at_def Let_def nth_list_update routed_def)

end
