(* ===== verification/Handler.thy ===== *)
theory Handler
  imports Http
begin

text \<open>
  Package \<open>internal/handler\<close> without its middlewares: the error mapping, the JSON responses, the
  six handlers and the route table with the matching of \<open>http.ServeMux\<close>.
\<close>

section \<open>Responses\<close>

definition writeJSON :: "nat \<Rightarrow> json option \<Rightarrow> io \<Rightarrow> io" where
  "writeJSON status body s =
     (let s1 = WriteHeader status (set_header ''Content-Type'' ''application/json'' s)
      in case body of None \<Rightarrow> s1 | Some j \<Rightarrow> Write (Encoded j) s1)"

definition errorBody :: "string \<Rightarrow> json" where
  "errorBody msg = JObject [(''error'', JString msg)]"

definition classify :: "error \<Rightarrow> nat \<times> string" where
  "classify err =
     (if errors_Is err ErrInvalidIdempotencyKey \<or> errors_Is err ErrInvalidAmount \<or>
         errors_Is err ErrSameWallet then (400, Error err)
      else if errors_Is err ErrIdempotencyConflict then (409, Error err)
      else if errors_Is err ErrNotFound \<or> errors_Is err ErrWalletNotFound then (404, ''not found'')
      else (500, ''internal error''))"

definition ctx_request_id :: "request \<Rightarrow> string" where
  "ctx_request_id r = (case rqCtxRequestID r of None \<Rightarrow> '''' | Some i \<Rightarrow> i)"

definition writeError :: "nat \<Rightarrow> error \<Rightarrow> io \<Rightarrow> io" where
  "writeError a err s =
     (let (status, msg) = classify err;
          r = req_at a s;
          s1 = (if 500 \<le> status then
                  log_io \<lparr>lgMessage = ''request failed'', lgRequestID = '''', lgMethod = rqMethod r, lgPath = rqPath r,
                          lgStatus = status, lgDetail = Error err\<rparr> s
                else s)
      in writeJSON status (Some (errorBody msg)) s1)"

definition json_int :: "int64 \<Rightarrow> json" where
  "json_int i = JNumber (Itoa (sint i))"

text \<open>\<open>omitempty\<close> leaves out an empty string.\<close>

definition omit_empty :: "string \<Rightarrow> string \<Rightarrow> (string \<times> json) list" where
  "omit_empty k v = (if v = '''' then [] else [(k, JString v)])"

definition toTransferResponse :: "uuid_lib \<Rightarrow> Transfer \<Rightarrow> json" where
  "toTransferResponse U t =
     JObject ([(''id'', JString (uuidString U (tID t))),
               (''fromWalletId'', JString (tFromWalletID t)),
               (''toWalletId'', JString (tToWalletID t)),
               (''amount'', json_int (tAmount t)),
               (''state'', JString (tState t))]
              @ omit_empty ''failureReason'' (tFailureReason t) @
              [(''createdAt'', JString (format_millis (tCreatedAt t))),
               (''updatedAt'', JString (format_millis (tUpdatedAt t)))])"

definition toWalletResponse :: "Wallet \<Rightarrow> json" where
  "toWalletResponse w = JObject [(''id'', JString (wID w)), (''balance'', json_int (wBalance w))]"

definition transferListResponse :: "uuid_lib \<Rightarrow> Transfer list \<Rightarrow> time option \<Rightarrow> json" where
  "transferListResponse U rows next_cur =
     JObject ((''transfers'', JArray (map (toTransferResponse U) rows))
       # omit_empty ''nextCursor'' (case next_cur of None \<Rightarrow> '''' | Some t \<Rightarrow> format_nano t))"

section \<open>Requests\<close>

definition createTransferRequest :: "body \<Rightarrow> string + CreateTransferRequest" where
  "createTransferRequest =
     Decode ''createTransferRequest''
       [(''idempotencyKey'', SetString (\<lambda>v r. r\<lparr>qIdempotencyKey := v\<rparr>)),
        (''fromWalletId'', SetString (\<lambda>v r. r\<lparr>qFromWalletID := v\<rparr>)),
        (''toWalletId'', SetString (\<lambda>v r. r\<lparr>qToWalletID := v\<rparr>)),
        (''amount'', SetInt64 (\<lambda>v r. r\<lparr>qAmount := v\<rparr>))]
       \<lparr>qIdempotencyKey = '''', qFromWalletID = '''', qToWalletID = '''', qAmount = 0\<rparr>"

record createWalletReq =
  cwID :: string
  cwBalance :: int64

definition createWalletRequest :: "body \<Rightarrow> string + createWalletReq" where
  "createWalletRequest =
     Decode ''createWalletRequest''
       [(''id'', SetString (\<lambda>v r. r\<lparr>cwID := v\<rparr>)), (''balance'', SetInt64 (\<lambda>v r. r\<lparr>cwBalance := v\<rparr>))]
       \<lparr>cwID = '''', cwBalance = 0\<rparr>"

text \<open>\<open>r.URL.Query().Get\<close>: the first value of the key, or the empty string.\<close>

definition query_get :: "string \<Rightarrow> request \<Rightarrow> string" where
  "query_get k r = (case List.find (\<lambda>(n, _). n = k) (rqQuery r) of None \<Rightarrow> '''' | Some (_, v) \<Rightarrow> v)"

definition parseListQuery :: "request \<Rightarrow> string + (int \<times> time option)" where
  "parseListQuery r =
     (let ls = query_get ''limit'' r; bs = query_get ''before'' r;
          limit = (if ls = '''' then Some 0
                   else case Atoi ls of None \<Rightarrow> None | Some n \<Rightarrow> if n < 0 then None else Some n)
      in case limit of
           None \<Rightarrow> Inl ''invalid limit''
         | Some n \<Rightarrow>
             if bs = '''' then Inr (n, None)
             else case parse_rfc3339 bs of
                    None \<Rightarrow> Inl ''invalid before timestamp; expected RFC3339''
                  | Some t \<Rightarrow> Inr (n, Some t))"

section \<open>Handlers\<close>

text \<open>Calling a service on the world and going on with its result; a panic passes through.\<close>

definition call_service :: "'a go \<Rightarrow> (error \<Rightarrow> io \<Rightarrow> flow \<times> io) \<Rightarrow> ('a \<Rightarrow> io \<Rightarrow> flow \<times> io) \<Rightarrow> io \<Rightarrow> flow \<times> io" where
  "call_service m on_err k s =
     (let (res, w) = m (ioWorld s); s1 = s\<lparr>ioWorld := w\<rparr>
      in case res of Panic p \<Rightarrow> (Panicked p, s1) | Err e \<Rightarrow> on_err e s1 | Ok x \<Rightarrow> k x s1)"

definition nil_dereference :: string where
  "nil_dereference = ''runtime error: invalid memory address or nil pointer dereference''"

definition bad_request :: "string \<Rightarrow> io \<Rightarrow> flow \<times> io" where
  "bad_request msg s = (Done, writeJSON 400 (Some (errorBody msg)) s)"

definition TransferHandler_Create :: "uuid_lib \<Rightarrow> handler" where
  "TransferHandler_Create U a s =
     (case createTransferRequest (rqBody (req_at a s)) of
        Inl msg \<Rightarrow> bad_request (''invalid json: '' @ msg) s
      | Inr req \<Rightarrow>
          (let (u, s0) = draw_uuid s in
           call_service (TransferService_Create req u)
             (\<lambda>e s1. (Done, writeError a e s1))
             (\<lambda>x s1. case x of
                None \<Rightarrow> (Panicked nil_dereference, s1)
              | Some t \<Rightarrow> (Done, writeJSON 200 (Some (toTransferResponse U t)) s1)) s0))"

definition TransferHandler_Get :: "uuid_lib \<Rightarrow> handler" where
  "TransferHandler_Get U a s =
     (case uuidParse U (rqPathValue (req_at a s)) of
        None \<Rightarrow> bad_request ''invalid transfer id'' s
      | Some i \<Rightarrow>
          call_service (TransferService_GetTransfer i)
            (\<lambda>e s1. (Done, writeError a e s1))
            (\<lambda>t s1. (Done, writeJSON 200 (Some (toTransferResponse U t)) s1)) s)"

definition WalletHandler_Get :: handler where
  "WalletHandler_Get a s =
     call_service (WalletService_Get (rqPathValue (req_at a s)))
       (\<lambda>e s1. (Done, writeError a e s1))
       (\<lambda>w s1. (Done, writeJSON 200 (Some (toWalletResponse w)) s1)) s"

definition WalletHandler_ListTransfers :: "uuid_lib \<Rightarrow> handler" where
  "WalletHandler_ListTransfers U a s =
     (let walletID = rqPathValue (req_at a s) in
      case parseListQuery (req_at a s) of
        Inl msg \<Rightarrow> bad_request msg s
      | Inr (limit, before) \<Rightarrow>
          call_service (TransferService_ListTransfersByWallet walletID limit before)
            (\<lambda>e s1. if errors_Is e ErrWalletNotFound \<and> walletID = '''' then bad_request ''wallet id is required'' s1
                    else (Done, writeError a e s1))
            (\<lambda>(rows, next_cur) s1. (Done, writeJSON 200 (Some (transferListResponse U rows next_cur)) s1)) s)"

definition WalletHandler_Create :: handler where
  "WalletHandler_Create a s =
     (case createWalletRequest (rqBody (req_at a s)) of
        Inl msg \<Rightarrow> bad_request (''invalid json: '' @ msg) s
      | Inr req \<Rightarrow>
          call_service (WalletService_Create (cwID req) (cwBalance req))
            (\<lambda>e s1. (Done, writeError a e s1))
            (\<lambda>w s1. (Done, writeJSON 201 (Some (toWalletResponse w)) s1)) s)"

definition healthz :: handler where
  "healthz a s = (Done, Write (Raw ''ok'') (WriteHeader 200 s))"

section \<open>Routing\<close>

text \<open>A segment of a pattern is a literal or a wildcard that takes one non-empty segment.\<close>

datatype seg = Lit string | Wild

record route =
  rtPattern :: string
  rtMethod :: string
  rtSegs :: "seg list"
  rtHandler :: handler

fun match_segs :: "seg list \<Rightarrow> string list \<Rightarrow> string option" where
  "match_segs [] [] = Some ''''"
| "match_segs (Lit l # ps) (x # xs) = (if l = x then match_segs ps xs else None)"
| "match_segs (Wild # ps) (x # xs) = (if x = '''' then None else map_option (\<lambda>_. x) (match_segs ps xs))"
| "match_segs _ _ = None"

definition match_method :: "string \<Rightarrow> string \<Rightarrow> bool" where
  "match_method pat m \<longleftrightarrow> pat = m \<or> (pat = ''GET'' \<and> m = ''HEAD'')"

definition http_error :: "string \<Rightarrow> nat \<Rightarrow> io \<Rightarrow> io" where
  "http_error msg code s =
     Write (Raw (msg @ [char_of (10 :: nat)]))
       (WriteHeader code (set_header ''X-Content-Type-Options'' ''nosniff''
         (set_header ''Content-Type'' ''text/plain; charset=utf-8'' s)))"

text \<open>
  \<open>cleanPath\<close> on the segments after the leading slash (\<open>/\<close> is one empty segment): empty and
  single-dot segments go, a double dot takes its predecessor along, a trailing slash stays.
\<close>

definition clean_path :: "string list \<Rightarrow> string list" where
  "clean_path xs =
     (let ys = foldl (\<lambda>acc x. if x = '''' \<or> x = ''.'' then acc
                              else if x = ''..'' then butlast acc else acc @ [x]) [] xs
      in if ys = [] then [''''] else if last xs = '''' then ys @ [''''] else ys)"

fun join :: "string \<Rightarrow> string list \<Rightarrow> string" where
  "join sep [] = ''''"
| "join sep [x] = x"
| "join sep (x # y # ys) = x @ sep @ join sep (y # ys)"

definition path_text :: "string list \<Rightarrow> string" where
  "path_text xs = concat (map (\<lambda>x. CHR ''/'' # x) xs)"

definition http_redirect :: "string \<Rightarrow> string \<Rightarrow> io \<Rightarrow> io" where
  "http_redirect method loc s =
     (let s1 = set_header ''Location'' loc s;
          s2 = (if method = ''GET'' \<or> method = ''HEAD''
                then set_header ''Content-Type'' ''text/html; charset=utf-8'' s1 else s1);
          s3 = WriteHeader 301 s2
      in if method = ''GET''
         then Write (Raw (''<a href='' @ quote loc @ ''>Moved Permanently</a>.'' @ replicate 2 (char_of (10 :: nat)))) s3
         else s3)"

text \<open>
  \<open>ServeMux.ServeHTTP\<close>: the matched pattern and the path value are stored in the request the mux
  was given; a path that is not clean is redirected, one that only other methods serve is 405, any
  other 404.
\<close>

definition mux_ServeHTTP :: "route list \<Rightarrow> handler" where
  "mux_ServeHTTP routes a s =
     (let r = req_at a s;
          path = (if rqMethod r = ''CONNECT'' then rqPath r else clean_path (rqPath r));
          here = filter (\<lambda>t. match_segs (rtSegs t) path \<noteq> None) routes;
          target = List.find (\<lambda>t. match_method (rtMethod t) (rqMethod r)) here;
          pat = (case target of None \<Rightarrow> '''' | Some t \<Rightarrow> rtPattern t);
          s1 = s\<lparr>ioReqs := (ioReqs s)[a := r\<lparr>rqPattern := pat\<rparr>]\<rparr>
      in if path \<noteq> rqPath r then (Done, http_redirect (rqMethod r) (path_text path) s1)
         else case target of
           Some t \<Rightarrow>
             rtHandler t a
               (s\<lparr>ioReqs := (ioReqs s)[a := r\<lparr>rqPattern := pat,
                     rqPathValue := the (match_segs (rtSegs t) path)\<rparr>]\<rparr>)
         | None \<Rightarrow>
             (Done,
              if here = [] then http_error ''404 page not found'' 404 s1
              else http_error ''Method Not Allowed'' 405
                     (set_header ''Allow''
                        (join '', '' (remdups (concat (map (\<lambda>t. if rtMethod t = ''GET'' then [''GET'', ''HEAD'']
                                                               else [rtMethod t]) here)))) s1)))"

definition routes ::"uuid_lib \<Rightarrow> route list" where
  "routes U =
     [\<lparr>rtPattern = ''POST /transfers'', rtMethod = ''POST'', rtSegs = [Lit ''transfers''],
       rtHandler = TransferHandler_Create U\<rparr>,
      \<lparr>rtPattern = ''GET /transfers/{id}'', rtMethod = ''GET'', rtSegs = [Lit ''transfers'', Wild],
       rtHandler = TransferHandler_Get U\<rparr>,
      \<lparr>rtPattern = ''POST /wallets'', rtMethod = ''POST'', rtSegs = [Lit ''wallets''],
       rtHandler = WalletHandler_Create\<rparr>,
      \<lparr>rtPattern = ''GET /wallets/{id}'', rtMethod = ''GET'', rtSegs = [Lit ''wallets'', Wild],
       rtHandler = WalletHandler_Get\<rparr>,
      \<lparr>rtPattern = ''GET /wallets/{id}/transfers'', rtMethod = ''GET'',
       rtSegs = [Lit ''wallets'', Wild, Lit ''transfers''], rtHandler = WalletHandler_ListTransfers U\<rparr>,
      \<lparr>rtPattern = ''GET /healthz'', rtMethod = ''GET'', rtSegs = [Lit ''healthz''], rtHandler = healthz\<rparr>]"

section \<open>The handlers are well-behaved\<close>

lemma writeJSON_status [simp]:
  "rspStatus (ioRsp (writeJSON c b s)) = (if rspStatus (ioRsp s) = None then Some c else rspStatus (ioRsp s))"
  by (auto simp: writeJSON_def Let_def split: option.splits)

lemma writeError_status [simp]:
  "rspStatus (ioRsp (writeError b e s)) = (if rspStatus (ioRsp s) = None then Some (fst (classify e)) else rspStatus (ioRsp s))"
  by (auto simp: writeError_def Let_def split: prod.splits)

context reply_frame
begin

lemma R_writeJSON: "R a s t \<Longrightarrow> R a s (writeJSON c b t)"
  by (auto simp: writeJSON_def Let_def split: option.splits intro!: steps)

lemma R_writeError: "R a s t \<Longrightarrow> R a s (writeError b e t)"
  by (auto simp: writeError_def Let_def split: prod.splits intro!: R_writeJSON steps)

lemma replies:
  assumes "R a s t"
  shows "responds R a s (Done, writeJSON c b t)" "responds R a s (Done, writeError d e t)"
    "responds R a s (bad_request m t)" "responds R a s (Panicked p, t)"
    "responds R a s (Done, http_redirect me l t)" "responds R a s (Done, http_error m c t)"
  using assms
  by (auto simp: responds_def bad_request_def http_redirect_def http_error_def Let_def
      intro!: R_writeJSON R_writeError steps)

lemma responds_call:
  assumes "R a s t" and "\<And>e u. R a s u \<Longrightarrow> responds R a s (on_err e u)"
    and "\<And>x u. R a s u \<Longrightarrow> responds R a s (k x u)"
  shows "responds R a s (call_service m on_err k t)"
proof -
  obtain r w where m: "m (ioWorld t) = (r, w)" by (metis prod.exhaust)
  have f: "R a s (t\<lparr>ioWorld := w\<rparr>)"
    using assms(1) by (rule steps)
  show ?thesis
    using m assms(2,3) [OF f] replies(4) [OF f] by (cases r) (simp_all add: call_service_def)
qed

lemma behaves_handlers:
  "behaves R (TransferHandler_Create U)" "behaves R (TransferHandler_Get U)" "behaves R WalletHandler_Get"
  "behaves R (WalletHandler_ListTransfers U)" "behaves R WalletHandler_Create"
  unfolding behaves_def TransferHandler_Create_def TransferHandler_Get_def WalletHandler_Get_def
    WalletHandler_ListTransfers_def WalletHandler_Create_def Let_def case_prod_beta
  by (auto simp: draw_uuid_def split: sum.splits option.splits prod.splits
      intro!: replies responds_call steps)

lemma behaves_healthz: "behaves R healthz"
  by (auto simp: behaves_def healthz_def responds_def intro!: steps)

lemma behaves_mux:
  assumes "\<And>t. t \<in> set rts \<Longrightarrow> behaves R (rtHandler t)"
  shows "behaves R (mux_ServeHTTP rts)"
  unfolding behaves_def
proof (intro allI impI)
  fix a and s :: io assume a: "a < length (ioReqs s)"
  define path where "path = (if rqMethod (req_at a s) = ''CONNECT'' then rqPath (req_at a s)
                             else clean_path (rqPath (req_at a s)))"
  let ?here = "filter (\<lambda>t. match_segs (rtSegs t) path \<noteq> None) rts"
  show "responds R a s (mux_ServeHTTP rts a s)"
  proof (cases "List.find (\<lambda>t. match_method (rtMethod t) (rqMethod (req_at a s))) ?here")
    case None
    then show ?thesis
      unfolding mux_ServeHTTP_def Let_def path_def [symmetric]
      by (auto intro!: steps replies)
  next
    case (Some t)
    then have "t \<in> set rts" using find_SomeD by fastforce
    then have "behaves R (rtHandler t)" by (rule assms)
    moreover define u where "u = s\<lparr>ioReqs := (ioReqs s)[a := (req_at a s)\<lparr>rqPattern := rtPattern t,
                     rqPathValue := the (match_segs (rtSegs t) path)\<rparr>]\<rparr>"
    ultimately have "responds R a u (rtHandler t a u)"
      using a by (simp add: behaves_def)
    moreover have "R a s u"
      unfolding u_def by (intro steps) simp_all
    ultimately have "responds R a s (rtHandler t a u)"
      by (auto simp: responds_def intro: R_trans)
    then show ?thesis
      using Some unfolding mux_ServeHTTP_def Let_def path_def [symmetric]
      by (auto simp: u_def intro!: replies steps)
  qed
qed

lemma behaves_routes: "behaves R (mux_ServeHTTP (routes U))"
  by (rule behaves_mux) (auto simp: routes_def behaves_handlers behaves_healthz)

end

end
