(* ===== verification/Component_Props.thy ===== *)
theory Component_Props
  imports Handler Transfer_Props
begin

text \<open>
  Two contracts of the layers under the API: what request bodies decode to a transfer request, and
  what a transaction leaves behind, for every callback that stays inside it.
\<close>

section \<open>Request bodies\<close>

definition string_fields :: "string list" where
  "string_fields = [''idempotencykey'', ''fromwalletid'', ''towalletid'']"

text \<open>A member with a known name, up to case folding, and a value of the type of that field.\<close>

definition typed_member :: "string \<times> json \<Rightarrow> bool" where
  "typed_member m =
     (let l = fold_name (fst m) in
      case snd m of
        JNull \<Rightarrow> l \<in> set (''amount'' # string_fields)
      | JString s \<Rightarrow> l \<in> set string_fields
      | JNumber n \<Rightarrow> l = ''amount'' \<and> Atoi n \<noteq> None
      | _ \<Rightarrow> False)"

definition last_or :: "'a \<Rightarrow> 'a list \<Rightarrow> 'a" where
  "last_or z xs = (if xs = [] then z else last xs)"

definition strings_of :: "string \<Rightarrow> (string \<times> json) list \<Rightarrow> string list" where
  "strings_of l ms =
     List.map_filter (\<lambda>(k, v). case v of JString s \<Rightarrow> if fold_name k = l then Some s else None | _ \<Rightarrow> None) ms"

definition amounts_of :: "(string \<times> json) list \<Rightarrow> int64 list" where
  "amounts_of ms = List.map_filter (\<lambda>(k, v). case v of JNumber n \<Rightarrow> map_option word_of_int (Atoi n) | _ \<Rightarrow> None) ms"

lemma last_or_simps [simp]: "last_or z [] = z" "last_or z (x # xs) = last_or x xs"
  by (simp_all add: last_or_def)

definition transfer_fields :: "(string \<times> CreateTransferRequest setter) list" where
  "transfer_fields =
       [(''idempotencyKey'', SetString (\<lambda>v r. r\<lparr>qIdempotencyKey := v\<rparr>)),
        (''fromWalletId'', SetString (\<lambda>v r. r\<lparr>qFromWalletID := v\<rparr>)),
        (''toWalletId'', SetString (\<lambda>v r. r\<lparr>qToWalletID := v\<rparr>)),
        (''amount'', SetInt64 (\<lambda>v r. r\<lparr>qAmount := v\<rparr>))]"

definition field_of :: "string \<Rightarrow> (string \<times> CreateTransferRequest setter) option" where
  "field_of l =
     (if l = ''idempotencykey'' then Some (transfer_fields ! 0)
      else if l = ''fromwalletid'' then Some (transfer_fields ! 1)
      else if l = ''towalletid'' then Some (transfer_fields ! 2)
      else if l = ''amount'' then Some (transfer_fields ! 3)
      else None)"

lemma lower_chars:
  "list_all (\<lambda>c. to_lower c = c) ''idempotencyfromwalletamount''"
  "to_lower CHR ''K'' = CHR ''k''" "to_lower CHR ''W'' = CHR ''w''" "to_lower CHR ''I'' = CHR ''i''"
  by code_simp+

lemma lower_names:
  "fold_name ''idempotencyKey'' = ''idempotencykey''" "fold_name ''fromWalletId'' = ''fromwalletid''"
  "fold_name ''toWalletId'' = ''towalletid''" "fold_name ''amount'' = ''amount''"
  by (simp_all add: kelvin_sign_def long_s_def lower_chars [simplified])

lemma find_transfer_field: "find_field k transfer_fields = field_of (fold_name k)"
proof (cases "k \<in> {''idempotencyKey'', ''fromWalletId'', ''toWalletId'', ''amount''}")
  case True
  then show ?thesis
    by (auto simp only: find_field_def field_of_def transfer_fields_def lower_names) simp_all
next
  case False
  then have "List.find (\<lambda>(n, _). n = k) transfer_fields = None"
    by (auto simp: transfer_fields_def)
  moreover have "List.find (\<lambda>(n, _). fold_name n = l) transfer_fields = field_of l" for l
    unfolding transfer_fields_def field_of_def find.simps prod.case lower_names
    by auto
  ultimately show ?thesis by (simp add: find_field_def)
qed

lemma decode_members_stuck: "fst (decode_members T fs ms (Some e) s) \<noteq> None"
  by (induction ms arbitrary: s) (auto split: option.splits prod.splits)

text \<open>What one member does to the request.\<close>

lemma set_transfer_field:
  "case field_of (fold_name k) of
     None \<Rightarrow> \<not> typed_member (k, v)
   | Some (n, st) \<Rightarrow>
       (case set_field st v s of
          (Some _, _) \<Rightarrow> \<not> typed_member (k, v)
        | (None, s') \<Rightarrow> typed_member (k, v) \<and>
            qIdempotencyKey s' = last_or (qIdempotencyKey s) (strings_of ''idempotencykey'' [(k, v)]) \<and>
            qFromWalletID s' = last_or (qFromWalletID s) (strings_of ''fromwalletid'' [(k, v)]) \<and>
            qToWalletID s' = last_or (qToWalletID s) (strings_of ''towalletid'' [(k, v)]) \<and>
            qAmount s' = last_or (qAmount s) (amounts_of [(k, v)]))"
  by (cases v) (auto simp: field_of_def transfer_fields_def typed_member_def string_fields_def strings_of_def
      amounts_of_def map_filter_simps Let_def split: option.splits)

lemma of_Cons:
  "strings_of l (m # ms) = strings_of l [m] @ strings_of l ms" "amounts_of (m # ms) = amounts_of [m] @ amounts_of ms"
  by (simp_all add: strings_of_def amounts_of_def List.map_filter_def)

lemma last_or_append: "last_or z (xs @ ys) = last_or (last_or z xs) ys"
  by (simp add: last_or_def)

lemma of_Nil [simp]: "strings_of l [] = []" "amounts_of [] = []"
  by (simp_all add: strings_of_def amounts_of_def map_filter_simps)

lemma decode_transfer_members:
  "case decode_members T transfer_fields ms None s of
     (Some e, _) \<Rightarrow> \<not> list_all typed_member ms
   | (None, s') \<Rightarrow> list_all typed_member ms \<and>
       qIdempotencyKey s' = last_or (qIdempotencyKey s) (strings_of ''idempotencykey'' ms) \<and>
       qFromWalletID s' = last_or (qFromWalletID s) (strings_of ''fromwalletid'' ms) \<and>
       qToWalletID s' = last_or (qToWalletID s) (strings_of ''towalletid'' ms) \<and>
       qAmount s' = last_or (qAmount s) (amounts_of ms)"
proof (induction ms arbitrary: s)
  case (Cons m ms)
  obtain k v where m: "m = (k, v)" by (cases m)
  have stuck: "\<exists>e s'. decode_members T transfer_fields ms (Some x) s = (Some e, s')" for x s
    using decode_members_stuck [of T transfer_fields ms x s] by (metis option.exhaust prod.collapse)
  note one = set_transfer_field [of k v s]
  show ?case
  proof (cases "\<exists>n st s1. field_of (fold_name k) = Some (n, st) \<and> set_field st v s = (None, s1)")
    case True
    then obtain n st s1 where f: "field_of (fold_name k) = Some (n, st)" "set_field st v s = (None, s1)"
      by blast
    then show ?thesis
      using one Cons [of s1]
      by (simp add: m find_transfer_field of_Cons(1) [of _ "(k, v)" ms] of_Cons(2) [of "(k, v)" ms] last_or_append split: prod.splits option.splits)
  next
    case False
    then have "\<exists>x s1. decode_members T transfer_fields (m # ms) None s = decode_members T transfer_fields ms (Some x) s1"
      by (auto simp: m find_transfer_field split: option.splits prod.splits)
    then obtain x s1 where
      "decode_members T transfer_fields (m # ms) None s = decode_members T transfer_fields ms (Some x) s1"
      by blast
    moreover obtain e s2 where "decode_members T transfer_fields ms (Some x) s1 = (Some e, s2)"
      using stuck by blast
    moreover have "\<not> typed_member m"
      using one False by (auto simp: m split: option.splits prod.splits)
    ultimately show ?thesis by simp
  qed
qed simp

text \<open>
  C39: what a request body means. An object is accepted exactly when every member is known, up to the
  case folding of Unicode (a Kelvin sign counts as a k), and has the type of its field (an amount is an integer literal in the range of
  int64); \<open>null\<close> and absence leave the zero value, and the last of repeated members counts.
\<close>

theorem transfer_request_typing:
  "case createTransferRequest (Parsed (JObject ms)) of
     Inl e \<Rightarrow> \<not> list_all typed_member ms
   | Inr req \<Rightarrow> list_all typed_member ms \<and>
       qIdempotencyKey req = last_or '''' (strings_of ''idempotencykey'' ms) \<and>
       qFromWalletID req = last_or '''' (strings_of ''fromwalletid'' ms) \<and>
       qToWalletID req = last_or '''' (strings_of ''towalletid'' ms) \<and>
       qAmount req = last_or 0 (amounts_of ms)"
  using decode_transfer_members [where T = "''createTransferRequest''" and ms = ms
      and s = "\<lparr>qIdempotencyKey = '''', qFromWalletID = '''', qToWalletID = '''', qAmount = 0\<rparr>"]
  by (auto simp: createTransferRequest_def Decode_def transfer_fields_def [symmetric] split: prod.splits option.splits)

section \<open>Transactions\<close>

text \<open>
  C38: a transaction takes effect as a whole or not at all. For every callback that stays inside its
  transaction, and under any faults: success means that the callback succeeded and exactly its view
  is on disk; an error or a panic leaves every row as it was when the transaction began, unless the
  commit took effect and only its acknowledgement was lost. The callback's own error and its own
  panic reach the caller, and no transaction stays open.
\<close>

theorem transaction_all_or_nothing:
  assumes "keeps tx_frame fn" and "RunInTx fn w = (r, w')"
  shows "(case r of
      Ok x \<Rightarrow> committed_by fn w x (disk w')
    | Err e \<Rightarrow>
        (seq_only (disk (interfere w)) (disk w') \<or>
         (\<exists>m x. e = wrap ''commit'' (DriverErr m) \<and> committed_by fn w x (disk w'))) \<and>
        (read_failure e \<or> (\<exists>e0 v s. fn (begun w) = (Err e0, v) \<and> (e = e0 \<or> e = Wrapf '''' e0 s)))
    | Panic p \<Rightarrow> seq_only (disk (interfere w)) (disk w') \<and> fst (fn (begun w)) = Panic p) \<and>
    (tx w = None \<longrightarrow> tx w' = None)"
  using RunInTx_outcome [OF assms] RunInTx_Err [OF assms(1), of w] assms(2)
  by (auto simp: tx_outcome_def tx_context_def split: res.splits)

text \<open>A callback that has already written when it fails.\<close>

definition write_then_fail :: "unit go" where
  "write_then_fail = bind_ok (WalletRepo_UpdateBalance Tx ''a'' 5) (\<lambda>_. return_err ErrNotFound)"

theorem transaction_all_or_nothing_witness:
  "\<exists>w'. RunInTx write_then_fail (quiet_world ex_db 8) = (Err ErrNotFound, w') \<and>
     wallets (disk w') = wallets ex_db \<and> tx w' = None"
proof -
  let ?w = "quiet_world ex_db 8"
  let ?t = "\<lparr>view = ex_db, locks = [], tx_now = 8, aborted = False\<rparr>"
  have "tx_op write_then_fail"
    unfolding write_then_fail_def by (intro tx_op_intros)
  then have frame: "keeps tx_frame write_then_fail"
    by (simp add: tx_op_def)
  have b: "BeginTx ?w = (Ok (), in_tx ?w ?t [])"
    by (simp add: BeginTx_def in_tx_def next_fault_def Let_def)
  have "\<exists>d. WalletRepo_UpdateBalance Tx ''a'' 5 (in_tx ?w ?t []) = (Ok (), in_tx ?w (add_lock ''a'' (?t\<lparr>view := d\<rparr>)) [])"
    by (auto simp: UpdateBalance_tx_ok update_wallet_balance_def wallet_ids_def ex_db_def wallet_row_def)
  then obtain v where "write_then_fail (in_tx ?w ?t []) = (Err ErrNotFound, v)" "tx v \<noteq> None" "faults v = []"
    by (auto simp: write_then_fail_def bind_ok_def return_err_def)
  then have "\<exists>w'. RunInTx write_then_fail ?w = (Err ErrNotFound, w')"
    using b by (auto simp: RunInTx_def Rollback_def next_fault_def Let_def)
  then obtain w' where run: "RunInTx write_then_fail ?w = (Err ErrNotFound, w')" by blast
  then show ?thesis
    using transaction_all_or_nothing [OF frame run] by (auto simp: seq_only_def wrap_def)
qed

end
