(* ===== verification/Middleware.thy ===== *)
theory Middleware
  imports Handler
begin

text \<open>
  The middlewares of \<open>internal/handler\<close> and \<open>internal/metrics\<close>, the chain that \<open>NewRouter\<close>
  builds and the handler that \<open>cmd/server\<close> serves. A middleware that wraps the writer pushes a
  recorder for the time of the inner call; one that passes \<open>r.WithContext\<close> on adds a copy of the
  request to the store and calls the inner handler with the copy.
\<close>

section \<open>Definitions\<close>

definition requestIDHeader :: string where
  "requestIDHeader = ''X-Request-Id''"

definition RequestID :: "uuid_lib \<Rightarrow> handler \<Rightarrow> handler" where
  "RequestID U inner a s =
     (let r = req_at a s;
          h = rqHeader r requestIDHeader;
          (i, s1) = (if h = '''' then (let (u, t) = draw_uuid s in (uuidString U u, t)) else (h, s));
          s2 = set_header requestIDHeader i s1;
          s3 = s2\<lparr>ioReqs := ioReqs s2 @ [r\<lparr>rqCtxRequestID := Some i\<rparr>]\<rparr>
      in inner (length (ioReqs s2)) s3)"

text \<open>Running the inner handler with a fresh recorder around the writer.\<close>

definition fresh_recorder :: statusRecorder where
  "fresh_recorder = \<lparr>srStatus = 200, srWrote = False\<rparr>"

definition recording :: "handler \<Rightarrow> nat \<Rightarrow> io \<Rightarrow> flow \<times> nat \<times> io" where
  "recording inner a s =
     (let (f, s1) = inner a (s\<lparr>ioRecs := fresh_recorder # ioRecs s\<rparr>)
      in (f, srStatus (hd (ioRecs s1)), s1\<lparr>ioRecs := tl (ioRecs s1)\<rparr>))"

definition AccessLog :: "handler \<Rightarrow> handler" where
  "AccessLog inner a s =
     (let (f, status, s1) = recording inner a s in
      case f of
        Panicked p \<Rightarrow> (Panicked p, s1)
      | Done \<Rightarrow>
          (Done, log_io \<lparr>lgMessage = ''http_request'', lgRequestID = ctx_request_id (req_at a s1),
                         lgMethod = rqMethod (req_at a s1), lgPath = rqPath (req_at a s1), lgStatus = status, lgDetail = ''''\<rparr> s1))"

definition generic_error_text :: string where
  "generic_error_text =
     CHR 0x7B # CHR 0x22 # ''error'' @ [CHR 0x22, CHR '':'', CHR 0x22] @ ''internal error'' @ [CHR 0x22, CHR 0x7D]"

definition Recover :: "handler \<Rightarrow> handler" where
  "Recover inner a s =
     (let (f, s1) = inner a s in
      case f of
        Done \<Rightarrow> (Done, s1)
      | Panicked p \<Rightarrow>
          (let s2 = log_io \<lparr>lgMessage = ''panic recovered'', lgRequestID = ctx_request_id (req_at a s1),
                            lgMethod = rqMethod (req_at a s1), lgPath = rqPath (req_at a s1), lgStatus = 0, lgDetail = p\<rparr> s1
           in (Done, Write (Raw generic_error_text)
                (WriteHeader 500 (set_header ''Content-Type'' ''application/json'' s2)))))"

text \<open>The loop of \<open>Chain\<close> runs from the last middleware to the first.\<close>

definition Chain :: "handler \<Rightarrow> (handler \<Rightarrow> handler) list \<Rightarrow> handler" where
  "Chain h mws = fold (\<lambda>mw acc. mw acc) (rev mws) h"

definition NewRouter :: "uuid_lib \<Rightarrow> handler" where
  "NewRouter U = Chain (mux_ServeHTTP (routes U)) [RequestID U, AccessLog, Recover]"

definition HTTPMiddleware :: "handler \<Rightarrow> handler" where
  "HTTPMiddleware inner a s =
     (let (f, status, s1) = recording inner a s in
      case f of
        Panicked p \<Rightarrow> (Panicked p, s1)
      | Done \<Rightarrow>
          (let r = req_at a s1;
               route = (if rqPattern r = '''' then ''_unmatched_'' else rqPattern r);
               k = (rqMethod r, route, Itoa (int status))
           in (Done, s1\<lparr>HTTPRequestsTotal := (HTTPRequestsTotal s1)(k := Suc (HTTPRequestsTotal s1 k)),
                HTTPRequestDuration := (HTTPRequestDuration s1)
                  ((rqMethod r, route) := Suc (HTTPRequestDuration s1 (rqMethod r, route)))\<rparr>)))"

text \<open>The handler of the public listener, without the tracing wrapper around it.\<close>

definition apiHandler :: "uuid_lib \<Rightarrow> handler" where
  "apiHandler U = HTTPMiddleware (NewRouter U)"

section \<open>Every middleware keeps a well-behaved handler well-behaved\<close>

text \<open>
  What a chain relies on: wrapped around a handler in its frame, a middleware is a handler in its
  frame.
\<close>

locale middleware =
  fixes mw :: "handler \<Rightarrow> handler"
  assumes behaves_mw: "behaves io_frame h \<Longrightarrow> behaves io_frame (mw h)"

text \<open>A firewall also turns every panic below it into a response.\<close>

locale firewall = middleware +
  assumes no_panic: "mw h a s \<noteq> (Panicked p, s')"
begin

lemma returns:
  assumes "behaves io_frame h" and "a < length (ioReqs s)" and "mw h a s = (f, s')"
  shows "f = Done \<and> rspStatus (ioRsp s') \<noteq> None"
  using behavesD(2) [OF behaves_mw [OF assms(1)] assms(3,2)] no_panic assms(3) by (cases f) auto

end

lemma behaves_recording:
  assumes h: "behaves io_frame h" and a: "a < length (ioReqs s)" and run: "recording h a s = (f, c, s')"
  shows "io_frame a s s'" "f = Done \<Longrightarrow> rspStatus (ioRsp s') \<noteq> None"
    "f = Done \<Longrightarrow> rspStatus (ioRsp s) = None \<Longrightarrow> rspStatus (ioRsp s') = Some c"
proof -
  obtain f' s1 where r: "h a (s\<lparr>ioRecs := fresh_recorder # ioRecs s\<rparr>) = (f', s1)"
    by (metis prod.exhaust)
  then have e: "f' = f" "c = srStatus (hd (ioRecs s1))" "s' = s1\<lparr>ioRecs := tl (ioRecs s1)\<rparr>"
    using run by (auto simp: recording_def)
  have "a < length (ioReqs (s\<lparr>ioRecs := fresh_recorder # ioRecs s\<rparr>))" using a by simp
  note b = behavesD [OF h r this]
  then obtain r0 rs where recs: "ioRecs s1 = r0 # rs"
    by (auto simp: io_frame_def list_all2_Cons1)
  then have syn: "synced (ioRsp s) fresh_recorder \<longrightarrow> synced (ioRsp s1) r0"
    and "io_frame a s s'"
    using b(1) e(3) by (auto simp: io_frame_def)
  then show "io_frame a s s'" by simp
  show "f = Done \<Longrightarrow> rspStatus (ioRsp s') \<noteq> None"
    using b(2) e by simp
  show "rspStatus (ioRsp s') = Some c" if "f = Done" "rspStatus (ioRsp s) = None"
  proof -
    have "synced (ioRsp s1) r0"
      using syn that by (simp add: synced_def fresh_recorder_def)
    then show ?thesis
      using b(2) e that recs by (auto simp: synced_def)
  qed
qed

text \<open>The call of \<open>RequestID\<close>: the id, and the state in which the inner handler starts.\<close>

definition request_id_start :: "nat \<Rightarrow> string \<Rightarrow> nat \<Rightarrow> io \<Rightarrow> io" where
  "request_id_start a i n s =
     (set_header requestIDHeader i (s\<lparr>ioDrawn := n\<rparr>))\<lparr>ioReqs := ioReqs s @ [(req_at a s)\<lparr>rqCtxRequestID := Some i\<rparr>]\<rparr>"

lemma RequestID_call:
  obtains i n where "RequestID U h a s = h (length (ioReqs s)) (request_id_start a i n s)"
    and "rqHeader (req_at a s) requestIDHeader \<noteq> [] \<longrightarrow> i = rqHeader (req_at a s) requestIDHeader"
proof (cases "rqHeader (req_at a s) requestIDHeader = []")
  case True
  show ?thesis
    by (rule that [of "uuidString U (ioRand s (ioDrawn s))" "Suc (ioDrawn s)"])
      (simp_all add: True RequestID_def Let_def draw_uuid_def set_header_def request_id_start_def)
next
  case False
  show ?thesis
    by (rule that [of "rqHeader (req_at a s) requestIDHeader" "ioDrawn s"])
      (simp_all add: False RequestID_def Let_def set_header_def request_id_start_def)
qed

lemma behaves_RequestID: "behaves io_frame h \<Longrightarrow> behaves io_frame (RequestID U h)"
proof (rule behavesI)
  fix a s f s' assume h: "behaves io_frame h" and a: "a < length (ioReqs s)" and run: "RequestID U h a s = (f, s')"
  obtain i n where c: "RequestID U h a s = h (length (ioReqs s)) (request_id_start a i n s)"
    by (rule RequestID_call)
  let ?t = "request_id_start a i n s"
  have b: "io_frame (length (ioReqs s)) ?t s'" "f = Done \<Longrightarrow> rspStatus (ioRsp s') \<noteq> None"
    using behavesD [OF h, of "length (ioReqs s)" ?t f s'] run c by (simp_all add: request_id_start_def)
  have "io_frame a s ?t"
    by (simp add: request_id_start_def io_frame_def list_all2_same nth_append set_header_def synced_def)
  with b show "io_frame a s s' \<and> (f = Done \<longrightarrow> rspStatus (ioRsp s') \<noteq> None)"
    using io_frame_call by blast
qed

lemma behaves_AccessLog: "behaves io_frame h \<Longrightarrow> behaves io_frame (AccessLog h)"
proof (rule behavesI)
  fix a s f s' assume h: "behaves io_frame h" and a: "a < length (ioReqs s)" and run: "AccessLog h a s = (f, s')"
  obtain g c t where r: "recording h a s = (g, c, t)" by (metis prod.exhaust)
  show "io_frame a s s' \<and> (f = Done \<longrightarrow> rspStatus (ioRsp s') \<noteq> None)"
    using run behaves_recording [OF h a r] in_frame.R_trans [OF _ io_frame_log] r
    by (cases g) (auto simp: AccessLog_def)
qed

context reply_frame
begin

lemma behaves_Recover: "behaves R h \<Longrightarrow> behaves R (Recover h)"
proof (rule behavesI)
  fix a s f s' assume h: "behaves R h" and a: "a < length (ioReqs s)" and run: "Recover h a s = (f, s')"
  obtain g t where r: "h a s = (g, t)" by (metis prod.exhaust)
  note b = behavesD [OF h r a]
  show "R a s s' \<and> (f = Done \<longrightarrow> rspStatus (ioRsp s') \<noteq> None)"
  proof (cases g)
    case Done
    then show ?thesis using run r b by (simp add: Recover_def)
  next
    case (Panicked p)
    then show ?thesis
      using run r b(1)
      by (auto simp: Recover_def Let_def intro!: steps)
  qed
qed

end

lemma behaves_HTTPMiddleware: "behaves io_frame h \<Longrightarrow> behaves io_frame (HTTPMiddleware h)"
proof (rule behavesI)
  fix a s f s' assume h: "behaves io_frame h" and a: "a < length (ioReqs s)" and run: "HTTPMiddleware h a s = (f, s')"
  obtain g c t where r: "recording h a s = (g, c, t)" by (metis prod.exhaust)
  have "io_frame a t (t\<lparr>HTTPRequestsTotal := x, HTTPRequestDuration := y\<rparr>)" for x y
    by (simp add: io_frame_def list_all2_same)
  then show "io_frame a s s' \<and> (f = Done \<longrightarrow> rspStatus (ioRsp s') \<noteq> None)"
    using run behaves_recording [OF h a r] r
    by (cases g) (auto simp: HTTPMiddleware_def Let_def intro: in_frame.R_trans)
qed

lemma Recover_no_panic: "Recover h a s \<noteq> (Panicked p, s')"
  by (auto simp: Recover_def Let_def split: prod.splits flow.splits)

interpretation request_id: middleware "RequestID U" for U
  by unfold_locales (rule behaves_RequestID)

interpretation access_log: middleware AccessLog
  by unfold_locales (rule behaves_AccessLog)

interpretation http_metrics: middleware HTTPMiddleware
  by unfold_locales (rule behaves_HTTPMiddleware)

interpretation recovered: firewall Recover
  by unfold_locales (auto intro: in_frame.behaves_Recover simp: Recover_no_panic)

end
