(* ===== verification/Api.thy ===== *)
theory Api
  imports Middleware Transfer_Safety Listing
begin

text \<open>
  The HTTP interface as a client sees it: what the chain of middlewares around the router does to
  a request, and the contract of each route with the service behind it.
\<close>

section \<open>Through the middlewares\<close>

text \<open>The state in which the router starts: the request with its id, two recorders on the writer.\<close>

definition router_start :: "nat \<Rightarrow> string \<Rightarrow> nat \<Rightarrow> io \<Rightarrow> io" where
  "router_start a i n s =
     (let t = request_id_start a i n (s\<lparr>ioRecs := fresh_recorder # ioRecs s\<rparr>)
      in t\<lparr>ioRecs := fresh_recorder # ioRecs t\<rparr>)"

lemma router_start_sel [simp]:
  "ioWorld (router_start a i n s) = ioWorld s"
  "ioRecs (router_start a i n s) = fresh_recorder # fresh_recorder # ioRecs s"
  "ioReqs (router_start a i n s) = ioReqs s @ [(req_at a s)\<lparr>rqCtxRequestID := Some i\<rparr>]"
  "ioLog (router_start a i n s) = ioLog s"
  "HTTPRequestsTotal (router_start a i n s) = HTTPRequestsTotal s"
  "HTTPRequestDuration (router_start a i n s) = HTTPRequestDuration s"
  "rspStatus (ioRsp (router_start a i n s)) = rspStatus (ioRsp s)"
  "rspBody (ioRsp (router_start a i n s)) = rspBody (ioRsp s)"
  "rspHeader (ioRsp (router_start a i n s)) = (rspHeader (ioRsp s))(requestIDHeader \<mapsto> i)"
  by (simp_all add: router_start_def request_id_start_def set_header_def req_at_def)

lemma req_at_router_start [simp]:
  "req_at (length (ioReqs s)) (router_start a i n s) = (req_at a s)\<lparr>rqCtxRequestID := Some i\<rparr>"
  by (simp add: req_at_def)

definition access_line :: "request \<Rightarrow> string \<Rightarrow> nat \<Rightarrow> log_line" where
  "access_line r i c =
     \<lparr>lgMessage = ''http_request'', lgRequestID = i, lgMethod = rqMethod r, lgPath = rqPath r,
      lgStatus = c, lgDetail = ''''\<rparr>"

definition route_label :: "request \<Rightarrow> string" where
  "route_label r = (if rqPattern r = '''' then ''_unmatched_'' else rqPattern r)"

lemma api_chain:
  assumes a: "a < length (ioReqs s)" and unsent: "rspStatus (ioRsp s) = None"
    and run: "apiHandler U a s = (f, s')"
  obtains i n t c where
    "rqHeader (req_at a s) requestIDHeader \<noteq> [] \<longrightarrow> i = rqHeader (req_at a s) requestIDHeader"
    "Recover (mux_ServeHTTP (routes U)) (length (ioReqs s)) (router_start a i n s) = (Done, t)"
    "rspStatus (ioRsp t) = Some c"
    "id_header (ioRsp t) = Some i" "access_lines t = access_lines s"
    "f = Done" "ioWorld s' = ioWorld t" "ioRsp s' = ioRsp t"
    "ioLog s' = ioLog t @ [access_line (req_at a s) i c]"
    "HTTPRequestsTotal s' = (let k = (rqMethod (req_at a s), route_label (req_at a s), Itoa (int c))
       in (HTTPRequestsTotal s)(k := Suc (HTTPRequestsTotal s k)))"
    "HTTPRequestDuration s' = (let k = (rqMethod (req_at a s), route_label (req_at a s))
       in (HTTPRequestDuration s)(k := Suc (HTTPRequestDuration s k)))"
proof -
  let ?m = "mux_ServeHTTP (routes U)" and ?b = "length (ioReqs s)" and ?r = "req_at a s"
  let ?s0 = "s\<lparr>ioRecs := fresh_recorder # ioRecs s\<rparr>"
  obtain i n where id: "RequestID U (AccessLog (Recover ?m)) a ?s0
       = AccessLog (Recover ?m) (length (ioReqs ?s0)) (request_id_start a i n ?s0)"
    and hdr: "rqHeader (req_at a ?s0) requestIDHeader \<noteq> [] \<longrightarrow> i = rqHeader (req_at a ?s0) requestIDHeader"
    by (rule RequestID_call)
  define tt where "tt = router_start a i n s"
  have b: "?b < length (ioReqs tt)" by (simp add: tt_def)
  obtain g t where r: "Recover ?m ?b tt = (g, t)" by (metis prod.exhaust)
  have g: "g = Done" and "rspStatus (ioRsp t) \<noteq> None"
    using recovered.returns [OF in_frame.behaves_routes b r] by simp_all
  then obtain c where c: "rspStatus (ioRsp t) = Some c" by auto
  have fr: "io_frame ?b tt t" and idf: "id_frame ?b tt t"
    using behavesD(1) [OF in_frame.behaves_Recover [OF in_frame.behaves_routes] r b]
      behavesD(1) [OF keeps_id.behaves_Recover [OF keeps_id.behaves_routes] r b] by simp_all
  obtain r1 r2 rs where recs: "ioRecs t = r1 # r2 # rs" "srStatus r1 = c" "srStatus r2 = c"
    using fr c unsent
    by (auto simp: io_frame_def tt_def list_all2_Cons1 synced_def fresh_recorder_def)
  have line: "rqMethod (req_at ?b t) = rqMethod ?r" "rqPath (req_at ?b t) = rqPath ?r"
      "ctx_request_id (req_at ?b t) = i"
    using idf by (simp_all add: id_frame_def tt_def ctx_request_id_def)
  have same: "req_at a t = ?r"
    using fr a by (auto simp: io_frame_def tt_def req_at_def nth_append)
  have "apiHandler U a s = (Done, (log_io (access_line ?r i c) t)
      \<lparr>ioRecs := rs,
       HTTPRequestsTotal := (let k = (rqMethod ?r, route_label ?r, Itoa (int c))
         in (HTTPRequestsTotal s)(k := Suc (HTTPRequestsTotal s k))),
       HTTPRequestDuration := (let k = (rqMethod ?r, route_label ?r)
         in (HTTPRequestDuration s)(k := Suc (HTTPRequestDuration s k)))\<rparr>)"
    using id r [unfolded tt_def router_start_def Let_def] recs line same idf g
    by (simp add: apiHandler_def NewRouter_def Chain_def HTTPMiddleware_def recording_def AccessLog_def
        Let_def log_io_def access_line_def route_label_def req_at_def request_id_start_def id_frame_def tt_def)
  then have s': "f = Done" "s' = (log_io (access_line ?r i c) t)
      \<lparr>ioRecs := rs,
       HTTPRequestsTotal := (let k = (rqMethod ?r, route_label ?r, Itoa (int c))
         in (HTTPRequestsTotal s)(k := Suc (HTTPRequestsTotal s k))),
       HTTPRequestDuration := (let k = (rqMethod ?r, route_label ?r)
         in (HTTPRequestDuration s)(k := Suc (HTTPRequestDuration s k)))\<rparr>"
    using run by simp_all
  have "id_header (ioRsp t) = Some i" "access_lines t = access_lines s"
    using idf unsent by (simp_all add: tt_def id_frame_def id_header_def access_lines_def requestIDHeader_def)
  note ids = this
  show ?thesis
    by (rule that [OF _ r [unfolded g tt_def] c ids])
      (use hdr s' in \<open>simp_all add: req_at_def log_io_def\<close>)
qed


section \<open>Routing\<close>

text \<open>The state in which a matched handler starts.\<close>

definition routed_to :: "nat \<Rightarrow> string \<Rightarrow> string \<Rightarrow> io \<Rightarrow> io" where
  "routed_to b p v t = t\<lparr>ioReqs := (ioReqs t)[b := (req_at b t)\<lparr>rqPattern := p, rqPathValue := v\<rparr>]\<rparr>"

lemma routed_to_sel [simp]:
  "ioWorld (routed_to b p v t) = ioWorld t" "ioRsp (routed_to b p v t) = ioRsp t"
  "ioRand (routed_to b p v t) = ioRand t" "ioDrawn (routed_to b p v t) = ioDrawn t"
  "b < length (ioReqs t) \<Longrightarrow> req_at b (routed_to b p v t) = (req_at b t)\<lparr>rqPattern := p, rqPathValue := v\<rparr>"
  by (simp_all add: routed_to_def req_at_def)

text \<open>A segment that \<open>cleanPath\<close> leaves alone.\<close>

definition plain_seg :: "string \<Rightarrow> bool" where
  "plain_seg x \<longleftrightarrow> x \<noteq> '''' \<and> x \<noteq> ''.'' \<and> x \<noteq> ''..''"

lemma clean_plain: "xs \<noteq> [] \<Longrightarrow> list_all plain_seg xs \<Longrightarrow> clean_path xs = xs"
proof -
  assume xs: "xs \<noteq> []" "list_all plain_seg xs"
  have "foldl (\<lambda>acc x. if x = '''' \<or> x = ''.'' then acc else if x = ''..'' then butlast acc else acc @ [x]) acc xs
      = acc @ xs" for acc
    using xs(2) by (induction xs arbitrary: acc) (auto simp: plain_seg_def)
  moreover have "last xs \<noteq> ''''"
    using xs by (auto simp: list_all_iff plain_seg_def dest: last_in_set)
  ultimately show ?thesis
    using xs(1) by (simp add: clean_path_def)
qed

lemma mux_plain:
  assumes "rqPath (req_at b t) \<noteq> []" and "list_all plain_seg (rqPath (req_at b t))"
    and "List.find (\<lambda>r. match_method (rtMethod r) (rqMethod (req_at b t)))
           (filter (\<lambda>r. match_segs (rtSegs r) (rqPath (req_at b t)) \<noteq> None) rts) \<noteq> None"
  shows "mux_ServeHTTP rts b t =
    (let rt = the (List.find (\<lambda>r. match_method (rtMethod r) (rqMethod (req_at b t)))
                (filter (\<lambda>r. match_segs (rtSegs r) (rqPath (req_at b t)) \<noteq> None) rts))
     in rtHandler rt b (routed_to b (rtPattern rt) (the (match_segs (rtSegs rt) (rqPath (req_at b t)))) t))"
  using assms(3) clean_plain [OF assms(1,2)] by (auto simp: mux_ServeHTTP_def Let_def routed_to_def)

lemma route_simps:
  assumes "req_at b t = r"
  shows
    "rqMethod r = ''POST'' \<Longrightarrow> rqPath r = [''transfers''] \<Longrightarrow>
       mux_ServeHTTP (routes U) b t = TransferHandler_Create U b (routed_to b ''POST /transfers'' '''' t)"
    "rqMethod r = ''GET'' \<Longrightarrow> rqPath r = [''transfers'', i] \<Longrightarrow> plain_seg i \<Longrightarrow>
       mux_ServeHTTP (routes U) b t = TransferHandler_Get U b (routed_to b ''GET /transfers/{id}'' i t)"
    "rqMethod r = ''POST'' \<Longrightarrow> rqPath r = [''wallets''] \<Longrightarrow>
       mux_ServeHTTP (routes U) b t = WalletHandler_Create b (routed_to b ''POST /wallets'' '''' t)"
    "rqMethod r = ''GET'' \<Longrightarrow> rqPath r = [''wallets'', i] \<Longrightarrow> plain_seg i \<Longrightarrow>
       mux_ServeHTTP (routes U) b t = WalletHandler_Get b (routed_to b ''GET /wallets/{id}'' i t)"
    "rqMethod r = ''GET'' \<Longrightarrow> rqPath r = [''wallets'', i, ''transfers''] \<Longrightarrow> plain_seg i \<Longrightarrow>
       mux_ServeHTTP (routes U) b t = WalletHandler_ListTransfers U b (routed_to b ''GET /wallets/{id}/transfers'' i t)"
  using assms by (simp_all add: mux_plain routes_def match_method_def plain_seg_def)


section \<open>Replies\<close>

text \<open>The response is one JSON document with the status \<open>c\<close>.\<close>

definition replied :: "io \<Rightarrow> nat \<Rightarrow> json \<Rightarrow> bool" where
  "replied s c j \<longleftrightarrow> rspStatus (ioRsp s) = Some c \<and> rspBody (ioRsp s) = [Encoded j] \<and>
     rspSentHeader (ioRsp s) ''Content-Type'' = Some ''application/json''"

definition unsent :: "io \<Rightarrow> bool" where
  "unsent s \<longleftrightarrow> rspStatus (ioRsp s) = None \<and> rspBody (ioRsp s) = []"

lemma unsent_simps [simp]:
  "unsent (routed_to b p v s) = unsent s" "unsent (s\<lparr>ioWorld := w\<rparr>) = unsent s"
  "unsent (s\<lparr>ioDrawn := n\<rparr>) = unsent s" "unsent (router_start a i n s) = unsent s"
  "unsent (log_io l s) = unsent s"
  by (simp_all add: unsent_def)

lemma replied_writeJSON: "unsent s \<Longrightarrow> replied (writeJSON c (Some j) s) c j"
  by (simp add: unsent_def replied_def writeJSON_def Write_eq WriteHeader_eq set_header_def
      base_Write_def base_WriteHeader_def Let_def)

lemma replied_writeError:
  "unsent s \<Longrightarrow> replied (writeError a e s) (fst (classify e)) (errorBody (snd (classify e)))"
  by (auto simp: writeError_def Let_def intro!: replied_writeJSON split: prod.splits)

lemma writeJSON_world [simp]: "ioWorld (writeJSON c j s) = ioWorld s"
  by (simp add: writeJSON_def Let_def split: option.splits)

lemma writeError_world [simp]: "ioWorld (writeError a e s) = ioWorld s"
  by (simp add: writeError_def Let_def split: prod.splits)

text \<open>What a handler that returned did is what the client sees.\<close>

lemma api_through:
  assumes "a < length (ioReqs s)" and "unsent s" and "apiHandler U a s = (f, s')"
  obtains i n where
    "\<forall>t. mux_ServeHTTP (routes U) (length (ioReqs s)) (router_start a i n s) = (Done, t) \<longrightarrow>
       f = Done \<and> ioWorld s' = ioWorld t \<and> ioRsp s' = ioRsp t"
proof -
  have u: "rspStatus (ioRsp s) = None" using assms(2) by (simp add: unsent_def)
  from assms(1) u assms(3) obtain i n t where
    "Recover (mux_ServeHTTP (routes U)) (length (ioReqs s)) (router_start a i n s) = (Done, t)"
    "f = Done" "ioWorld s' = ioWorld t" "ioRsp s' = ioRsp t"
    by (rule api_chain)
  then show ?thesis
    by (intro that [of i n]) (auto simp: Recover_def)
qed

lemma bad_request_replies:
  "unsent s \<Longrightarrow> \<exists>t. bad_request m s = (Done, t) \<and> ioWorld t = ioWorld s \<and> replied t 400 (errorBody m)"
  by (simp add: bad_request_def replied_writeJSON)


section \<open>POST /transfers\<close>

lemma replied_at: "ioRsp s' = ioRsp t \<Longrightarrow> replied t c j \<Longrightarrow> replied s' c j"
  by (simp add: replied_def)

lemma create_reply:
  assumes "a < length (ioReqs s)" and "unsent s" and "apiHandler U a s = (f, s')"
    and "rqMethod (req_at a s) = ''POST''" and "rqPath (req_at a s) = [''transfers'']"
    and sv: "serving db_steps (ioWorld s)"
  shows "case createTransferRequest (rqBody (req_at a s)) of
      Inl m \<Rightarrow> replied s' 400 (errorBody (''invalid json: '' @ m)) \<and> ioWorld s' = ioWorld s
    | Inr req \<Rightarrow> \<exists>u r. TransferService_Create req u (ioWorld s) = (r, ioWorld s') \<and>
        (case r of
           Ok (Some t) \<Rightarrow> replied s' 200 (toTransferResponse U t)
         | Err e \<Rightarrow> replied s' (fst (classify e)) (errorBody (snd (classify e)))
         | _ \<Rightarrow> False)"
proof -
  obtain i n where to: "\<forall>t. mux_ServeHTTP (routes U) (length (ioReqs s)) (router_start a i n s) = (Done, t) \<longrightarrow>
       f = Done \<and> ioWorld s' = ioWorld t \<and> ioRsp s' = ioRsp t"
    using api_through [OF assms(1-3)] by blast
  let ?b = "length (ioReqs s)" and ?t = "router_start a i n s"
  let ?st = "routed_to ?b ''POST /transfers'' '''' ?t"
  have mux: "mux_ServeHTTP (routes U) ?b ?t = TransferHandler_Create U ?b ?st"
    by (rule route_simps(1) [OF refl]) (use assms in simp_all)
  have body: "rqBody (req_at ?b ?st) = rqBody (req_at a s)" "unsent ?st" "ioWorld ?st = ioWorld s"
    using assms(2) by simp_all
  show ?thesis
  proof (cases "createTransferRequest (rqBody (req_at a s))")
    case (Inl m)
    then have "mux_ServeHTTP (routes U) ?b ?t = bad_request (''invalid json: '' @ m) ?st"
      using mux body(1) by (simp add: TransferHandler_Create_def)
    then have "replied s' 400 (errorBody (''invalid json: '' @ m))" "ioWorld s' = ioWorld s"
      using to bad_request_replies [OF body(2), of "''invalid json: '' @ m"] body(3) replied_at [of s'] by auto
    with Inl show ?thesis by simp
  next
    case (Inr req)
    define u where "u = ioRand ?st (ioDrawn ?st)"
    define s0 where "s0 = ?st\<lparr>ioDrawn := Suc (ioDrawn ?st)\<rparr>"
    obtain r w where run: "TransferService_Create req u (ioWorld s) = (r, w)" by (metis prod.exhaust)
    have H: "mux_ServeHTTP (routes U) ?b ?t = call_service (TransferService_Create req u)
             (\<lambda>e s1. (Done, writeError ?b e s1))
             (\<lambda>x s1. case x of
                None \<Rightarrow> (Panicked nil_dereference, s1)
              | Some t \<Rightarrow> (Done, writeJSON 200 (Some (toTransferResponse U t)) s1)) s0"
      using mux Inr body(1) by (simp add: TransferHandler_Create_def draw_uuid_def u_def s0_def)
    have s0: "unsent (s0\<lparr>ioWorld := w\<rparr>)" "TransferService_Create req u (ioWorld s0) = (r, w)"
      using body(2) run by (simp_all add: s0_def)
    have "\<exists>t. x = Some t" if "r = Ok x" for x
      using creates.call_settles [OF sv run [unfolded that]] by (auto simp: claims_def)
    moreover have "r \<noteq> Panic p" for p
      using service.Create_refines [OF run] sv by (auto simp: serving_def)
    ultimately consider x where "r = Ok (Some x)" | e where "r = Err e"
      by (cases r) auto
    then show ?thesis
    proof cases
      case (1 x)
      let ?t = "writeJSON 200 (Some (toTransferResponse U x)) (s0\<lparr>ioWorld := w\<rparr>)"
      have "mux_ServeHTTP (routes U) ?b (router_start a i n s) = (Done, ?t)"
        unfolding H by (simp add: call_service_def s0(2) 1 Let_def)
      then have "replied s' 200 (toTransferResponse U x)" "ioWorld s' = w"
        using to replied_at [OF _ replied_writeJSON [OF s0(1)]] by auto
      with 1 run Inr show ?thesis by (simp, intro exI [of _ u] exI [of _ r]) simp
    next
      case (2 e)
      let ?t = "writeError ?b e (s0\<lparr>ioWorld := w\<rparr>)"
      have "mux_ServeHTTP (routes U) ?b (router_start a i n s) = (Done, ?t)"
        unfolding H by (simp add: call_service_def s0(2) 2 Let_def)
      then have "replied s' (fst (classify e)) (errorBody (snd (classify e)))" "ioWorld s' = w"
        using to replied_at [OF _ replied_writeError [OF s0(1)]] by auto
      with 2 run Inr show ?thesis by (simp, intro exI [of _ u] exI [of _ r]) simp
    qed
  qed
qed


section \<open>The other routes\<close>

text \<open>A route that hands its request to one service method and renders what it returns.\<close>

lemma api_call:
  assumes "a < length (ioReqs s)" and "unsent s" and "apiHandler U a s = (f, s')"
    and mux: "\<And>i n. \<exists>u b. mux_ServeHTTP (routes U) (length (ioReqs s)) (router_start a i n s)
        = call_service m (\<lambda>e t. (Done, writeError b e t)) (\<lambda>x t. (Done, writeJSON c (Some (j x)) t)) u \<and>
        unsent u \<and> ioWorld u = ioWorld s"
    and m: "m (ioWorld s) = (r, w)" and r: "\<And>p. r \<noteq> Panic p"
  shows "ioWorld s' = w \<and>
    (case r of Ok x \<Rightarrow> replied s' c (j x)
     | Err e \<Rightarrow> replied s' (fst (classify e)) (errorBody (snd (classify e)))
     | Panic p \<Rightarrow> False)"
proof -
  obtain i n where to: "\<forall>t. mux_ServeHTTP (routes U) (length (ioReqs s)) (router_start a i n s) = (Done, t) \<longrightarrow>
       f = Done \<and> ioWorld s' = ioWorld t \<and> ioRsp s' = ioRsp t"
    using api_through [OF assms(1-3)] by blast
  obtain u b where u: "mux_ServeHTTP (routes U) (length (ioReqs s)) (router_start a i n s)
        = call_service m (\<lambda>e t. (Done, writeError b e t)) (\<lambda>x t. (Done, writeJSON c (Some (j x)) t)) u"
      "unsent u" "ioWorld u = ioWorld s"
    using mux [of i n] by blast
  have v: "unsent (u\<lparr>ioWorld := w\<rparr>)" using u(2) by simp
  show ?thesis
  proof (cases r)
    case (Ok x)
    then have "mux_ServeHTTP (routes U) (length (ioReqs s)) (router_start a i n s)
        = (Done, writeJSON c (Some (j x)) (u\<lparr>ioWorld := w\<rparr>))"
      using u m by (simp add: call_service_def)
    then show ?thesis
      using to replied_at [OF _ replied_writeJSON [OF v]] Ok by auto
  next
    case (Err e)
    then have "mux_ServeHTTP (routes U) (length (ioReqs s)) (router_start a i n s)
        = (Done, writeError b e (u\<lparr>ioWorld := w\<rparr>))"
      using u m by (simp add: call_service_def)
    then show ?thesis
      using to replied_at [OF _ replied_writeError [OF v]] Err by auto
  next
    case (Panic p)
    with r [of p] show ?thesis by simp
  qed
qed

text \<open>The library's identifiers: what \<open>String\<close> prints is a path segment that \<open>Parse\<close> reads back.\<close>

definition uuid_laws :: "uuid_lib \<Rightarrow> bool" where
  "uuid_laws U \<longleftrightarrow> (\<forall>u. uuidParse U (uuidString U u) = Some u \<and> plain_seg (uuidString U u))"

lemma get_transfer_reply:
  assumes "a < length (ioReqs s)" and "unsent s" and "apiHandler U a s = (f, s')"
    and "rqMethod (req_at a s) = ''GET''" and "rqPath (req_at a s) = [''transfers'', uuidString U u]"
    and "uuid_laws U" and "find_transfer u (disk (interfere (ioWorld s))) = Some row"
  shows "(replied s' 200 (toTransferResponse U (scan_transfer row)) \<or> replied s' 500 (errorBody ''internal error'')) \<and>
    read_step (ioWorld s) (ioWorld s')"
proof -
  obtain r w where run: "TransferRepo_Get DB u (ioWorld s) = (r, w)" by (metis prod.exhaust)
  note g = TransferRepo_Get_DB [OF run]
  have "ioWorld s' = w \<and>
    (case r of Ok x \<Rightarrow> replied s' 200 (toTransferResponse U x)
     | Err e \<Rightarrow> replied s' (fst (classify e)) (errorBody (snd (classify e)))
     | Panic p \<Rightarrow> False)"
  proof (rule api_call [where m = "TransferRepo_Get DB u", OF assms(1-3) _ run])
    fix i n
    let ?b = "length (ioReqs s)" and ?t = "router_start a i n s"
    let ?st = "routed_to ?b ''GET /transfers/{id}'' (uuidString U u) ?t"
    have "mux_ServeHTTP (routes U) ?b ?t = TransferHandler_Get U ?b ?st"
      by (rule route_simps(2) [OF refl]) (use assms in \<open>simp_all add: uuid_laws_def\<close>)
    then have "mux_ServeHTTP (routes U) ?b ?t = call_service (TransferRepo_Get DB u) (\<lambda>e t. (Done, writeError ?b e t))
        (\<lambda>x t. (Done, writeJSON 200 (Some (toTransferResponse U x)) t)) ?st"
      using assms(6) by (simp add: TransferHandler_Get_def uuid_laws_def TransferService_GetTransfer_def)
    moreover have "unsent ?st" "ioWorld ?st = ioWorld s" using assms(2) by simp_all
    ultimately show "\<exists>v b. mux_ServeHTTP (routes U) ?b ?t = call_service (TransferRepo_Get DB u)
        (\<lambda>e t. (Done, writeError b e t)) (\<lambda>x t. (Done, writeJSON 200 (Some (toTransferResponse U x)) t)) v \<and>
        unsent v \<and> ioWorld v = ioWorld s"
      by blast
  qed (use g in \<open>auto split: res.splits\<close>)
  moreover have "r = Ok (scan_transfer row) \<or> (\<exists>e. r = Err e \<and> read_error e)"
    using g assms(7) by (auto simp: read_step_def split: res.splits)
  moreover have "classify e = (500, ''internal error'')" if "read_error e" for e
    using that by (simp add: classify_def read_error_not)
  ultimately show ?thesis
    using g by auto
qed


text \<open>Wallets on a server without faults and without other sessions.\<close>

lemma WalletRepo_Get_quiet:
  assumes "faults w = []" and "others w = []"
  shows "WalletRepo_Get DB i w =
    (if \<not> text_ok i then Err (wrap ''scan wallet'' invalid_text)
     else case find_wallet i (disk w) of Some x \<Rightarrow> Ok x | None \<Rightarrow> Err ErrNotFound, w)"
  using assms
  by (auto simp: WalletRepo_Get_def scanWallet_def query_row_def bind_ok_def stmt_DB_def select_wallet_def
      map_err_def return_err_def return_ok_def scan_err_def next_fault_def wrap_def split: option.splits)

lemma get_wallet_reply:
  assumes "a < length (ioReqs s)" and "unsent s" and "apiHandler U a s = (f, s')"
    and "rqMethod (req_at a s) = ''GET''" and "rqPath (req_at a s) = [''wallets'', i]" and "plain_seg i"
    and "faults (ioWorld s) = []" and "others (ioWorld s) = []"
  shows "ioWorld s' = ioWorld s \<and>
    (if \<not> text_ok i then replied s' 500 (errorBody ''internal error'')
     else case find_wallet i (disk (ioWorld s)) of
       Some x \<Rightarrow> replied s' 200 (toWalletResponse x)
     | None \<Rightarrow> replied s' 404 (errorBody ''not found''))"
proof -
  let ?r = "if \<not> text_ok i then Err (wrap ''scan wallet'' invalid_text) else case find_wallet i (disk (ioWorld s)) of Some x \<Rightarrow> Ok x | None \<Rightarrow> Err ErrNotFound"
  have "ioWorld s' = ioWorld s \<and>
    (case ?r of Ok x \<Rightarrow> replied s' 200 (toWalletResponse x)
     | Err e \<Rightarrow> replied s' (fst (classify e)) (errorBody (snd (classify e)))
     | Panic p \<Rightarrow> False)"
  proof (rule api_call [where m = "WalletService_Get i", OF assms(1-3)])
    fix k n
    let ?b = "length (ioReqs s)" and ?t = "router_start a k n s"
    let ?st = "routed_to ?b ''GET /wallets/{id}'' i ?t"
    have "mux_ServeHTTP (routes U) ?b ?t = WalletHandler_Get ?b ?st"
      by (rule route_simps(4) [OF refl]) (use assms in simp_all)
    then have "mux_ServeHTTP (routes U) ?b ?t = call_service (WalletService_Get i) (\<lambda>e t. (Done, writeError ?b e t))
        (\<lambda>x t. (Done, writeJSON 200 (Some (toWalletResponse x)) t)) ?st"
      by (simp add: WalletHandler_Get_def)
    moreover have "unsent ?st" "ioWorld ?st = ioWorld s" using assms(2) by simp_all
    ultimately show "\<exists>v b. mux_ServeHTTP (routes U) ?b ?t = call_service (WalletService_Get i)
        (\<lambda>e t. (Done, writeError b e t)) (\<lambda>x t. (Done, writeJSON 200 (Some (toWalletResponse x)) t)) v \<and>
        unsent v \<and> ioWorld v = ioWorld s"
      by blast
  qed (auto simp: WalletService_Get_def WalletRepo_Get_quiet assms split: option.splits)
  then show ?thesis
    by (auto simp: classify_def wrap_def split: option.splits if_splits)
qed

text \<open>The outcome of \<open>WalletService.Create\<close> and the database it leaves.\<close>

definition open_wallet :: "createWalletReq \<Rightarrow> time \<Rightarrow> db \<Rightarrow> (error, Wallet) res \<times> db" where
  "open_wallet q now d =
     (if cwID q = '''' then (Err ErrWalletNotFound, d)
      else if sint (cwBalance q) < 0 then (Err ErrInvalidAmount, d)
      else if \<not> text_ok (cwID q) then (Err (wrap ''insert wallet'' invalid_text), d)
      else if cwID q \<in> wallet_ids d
        then (Err (wrap ''insert wallet'' (PgError unique_violation ''wallets_pkey'')), d)
      else (Ok (wallet_row (cwID q) (cwBalance q) now),
            d\<lparr>wallets := wallets d @ [wallet_row (cwID q) (cwBalance q) now]\<rparr>))"

lemma WalletService_Create_quiet:
  assumes "faults w = []" and "others w = []"
  shows "WalletService_Create (cwID q) (cwBalance q) w =
    (fst (open_wallet q (clock w) (disk w)), w\<lparr>disk := snd (open_wallet q (clock w) (disk w))\<rparr>)"
  using assms
  by (auto simp: WalletService_Create_def open_wallet_def WalletRepo_Insert_def map_err_def bind_ok_def
      stmt_DB_def insert_wallet_def return_err_def return_ok_def next_fault_def wallet_row_def wrap_def)

lemma create_wallet_reply:
  assumes "a < length (ioReqs s)" and "unsent s" and "apiHandler U a s = (f, s')"
    and "rqMethod (req_at a s) = ''POST''" and "rqPath (req_at a s) = [''wallets'']"
    and "createWalletRequest (rqBody (req_at a s)) = Inr q"
    and "faults (ioWorld s) = []" and "others (ioWorld s) = []"
    and "open_wallet q (clock (ioWorld s)) (disk (ioWorld s)) = (r, d)"
  shows "ioWorld s' = (ioWorld s)\<lparr>disk := d\<rparr> \<and>
    (case r of Ok x \<Rightarrow> replied s' 201 (toWalletResponse x)
     | Err e \<Rightarrow> replied s' (fst (classify e)) (errorBody (snd (classify e)))
     | Panic p \<Rightarrow> False)"
proof (rule api_call [where m = "WalletService_Create (cwID q) (cwBalance q)", OF assms(1-3)])
  fix k n
  let ?b = "length (ioReqs s)" and ?t = "router_start a k n s"
  let ?st = "routed_to ?b ''POST /wallets'' '''' ?t"
  have "mux_ServeHTTP (routes U) ?b ?t = WalletHandler_Create ?b ?st"
    by (rule route_simps(3) [OF refl]) (use assms in simp_all)
  then have "mux_ServeHTTP (routes U) ?b ?t = call_service (WalletService_Create (cwID q) (cwBalance q))
      (\<lambda>e t. (Done, writeError ?b e t)) (\<lambda>x t. (Done, writeJSON 201 (Some (toWalletResponse x)) t)) ?st"
    using assms(6) by (simp add: WalletHandler_Create_def)
  moreover have "unsent ?st" "ioWorld ?st = ioWorld s" using assms(2) by simp_all
  ultimately show "\<exists>v b. mux_ServeHTTP (routes U) ?b ?t = call_service (WalletService_Create (cwID q) (cwBalance q))
      (\<lambda>e t. (Done, writeError b e t)) (\<lambda>x t. (Done, writeJSON 201 (Some (toWalletResponse x)) t)) v \<and>
      unsent v \<and> ioWorld v = ioWorld s"
    by blast
next
  show "r \<noteq> Panic p" for p
    using assms(9) by (auto simp: open_wallet_def split: if_splits)
qed (simp add: WalletService_Create_quiet assms)

end
