(* ===== verification/Api_Props.thy ===== *)
theory Api_Props
  imports Api
begin

text \<open>
  The properties of the HTTP interface: every request is answered, logged and counted; the routes
  of transfers and wallets keep the promises of the services behind them; error responses carry no
  internals; and the texts the API hands out (ids, cursors) lead back to what they stand for.
\<close>

section \<open>An example server\<close>

definition ex_request :: "string \<Rightarrow> string list \<Rightarrow> body \<Rightarrow> request" where
  "ex_request m p b =
     \<lparr>rqMethod = m, rqPath = p, rqHeader = (\<lambda>_. ''''), rqCtxRequestID = None, rqPattern = '''',
      rqPathValue = '''', rqQuery = [], rqBody = b\<rparr>"

definition ex_io :: "request \<Rightarrow> world \<Rightarrow> io" where
  "ex_io r w =
     \<lparr>ioWorld = w, ioRsp = fresh_response, ioRecs = [], ioReqs = [r], ioLog = [],
      ioRand = (\<lambda>n. 9), ioDrawn = 0, HTTPRequestsTotal = (\<lambda>_. 0), HTTPRequestDuration = (\<lambda>_. 0)\<rparr>"

text \<open>Ids as decimal numerals.\<close>

definition ex_uuids :: uuid_lib where
  "ex_uuids = \<lparr>uuidString = (\<lambda>u. Itoa (uint u)), uuidParse = (\<lambda>s. map_option word_of_int (Atoi s))\<rparr>"

lemma ex_io_sel [simp]:
  "ioWorld (ex_io r w) = w" "ioReqs (ex_io r w) = [r]" "rspStatus (ioRsp (ex_io r w)) = None"
  "unsent (ex_io r w)" "req_at 0 (ex_io r w) = r" "ioLog (ex_io r w) = []"
  "HTTPRequestsTotal (ex_io r w) = (\<lambda>_. 0)"
  by (simp_all add: ex_io_def unsent_def fresh_response_def req_at_def)

lemma ex_request_sel [simp]:
  "rqMethod (ex_request m p b) = m" "rqPath (ex_request m p b) = p" "rqBody (ex_request m p b) = b"
  "rqHeader (ex_request m p b) k = ''''" "rqPattern (ex_request m p b) = ''''"
  by (simp_all add: ex_request_def)

section \<open>Every request is answered and logged\<close>

text \<open>
  C28: whatever the request, whatever the database and the services do (a panic included), the API
  handler returns, a status is sent, the response carries the request id (the client's own, when it
  sent one), and the access log grows by exactly one line, which has that id and the status the
  client got.
\<close>

theorem api_always_answers:
  assumes "a < length (ioReqs s)" and "rspStatus (ioRsp s) = None" and "apiHandler U a s = (f, s')"
  shows "f = Done \<and> (\<exists>c i. rspStatus (ioRsp s') = Some c \<and> id_header (ioRsp s') = Some i \<and>
      (rqHeader (req_at a s) requestIDHeader \<noteq> '''' \<longrightarrow> i = rqHeader (req_at a s) requestIDHeader) \<and>
      access_lines s' = access_lines s @ [access_line (req_at a s) i c])"
proof -
  from assms obtain i n t c where i: "rqHeader (req_at a s) requestIDHeader \<noteq> [] \<longrightarrow> i = rqHeader (req_at a s) requestIDHeader"
    and t: "rspStatus (ioRsp t) = Some c" "id_header (ioRsp t) = Some i" "access_lines t = access_lines s"
      "f = Done" "ioRsp s' = ioRsp t" "ioLog s' = ioLog t @ [access_line (req_at a s) i c]"
    by (rule api_chain)
  have "access_lines s' = access_lines t @ [access_line (req_at a s) i c]"
    using t(6) by (simp add: access_lines_def access_line_def)
  with i t show ?thesis by auto
qed

theorem api_always_answers_witness:
  "fst (apiHandler ex_uuids 0 (ex_io (ex_request ''GET'' [''healthz''] (Malformed ''EOF'')) (quiet_world ex_db 8))) = Done"
  using api_always_answers [of 0 "ex_io (ex_request ''GET'' [''healthz''] (Malformed ''EOF'')) (quiet_world ex_db 8)",
      OF _ _ prod.collapse [symmetric], of ex_uuids]
  by simp

text \<open>
  C29: the HTTP counters lose the route. The metrics middleware reads the pattern from the request
  it was given, but \<open>RequestID\<close> hands a copy to the router, so whatever route a fresh request
  matched, it is counted under the label of unmatched requests.
\<close>

theorem metrics_miss_the_route:
  assumes "a < length (ioReqs s)" and "rspStatus (ioRsp s) = None" and "apiHandler U a s = (f, s')"
    and "rqPattern (req_at a s) = ''''"
  shows "\<exists>c. rspStatus (ioRsp s') = Some c \<and>
    HTTPRequestsTotal s' = (let k = (rqMethod (req_at a s), ''_unmatched_'', Itoa (int c))
      in (HTTPRequestsTotal s)(k := Suc (HTTPRequestsTotal s k))) \<and>
    HTTPRequestDuration s' = (let k = (rqMethod (req_at a s), ''_unmatched_'')
      in (HTTPRequestDuration s)(k := Suc (HTTPRequestDuration s k)))"
proof -
  from assms(1-3) obtain i n and t :: io and c where t: "rspStatus (ioRsp t) = Some c" "ioRsp s' = ioRsp t"
    "HTTPRequestsTotal s' = (let k = (rqMethod (req_at a s), route_label (req_at a s), Itoa (int c))
       in (HTTPRequestsTotal s)(k := Suc (HTTPRequestsTotal s k)))"
    "HTTPRequestDuration s' = (let k = (rqMethod (req_at a s), route_label (req_at a s))
       in (HTTPRequestDuration s)(k := Suc (HTTPRequestDuration s k)))"
    by (rule api_chain) blast
  then show ?thesis
    using assms(4) by (auto simp: route_label_def)
qed

theorem metrics_miss_the_route_witness:
  "\<exists>c. HTTPRequestsTotal (snd (apiHandler ex_uuids 0
       (ex_io (ex_request ''GET'' [''healthz''] (Malformed ''EOF'')) (quiet_world ex_db 8))))
     (''GET'', ''_unmatched_'', Itoa (int c)) = 1"
  using metrics_miss_the_route [of 0 "ex_io (ex_request ''GET'' [''healthz''] (Malformed ''EOF'')) (quiet_world ex_db 8)",
      OF _ _ prod.collapse [symmetric], of ex_uuids]
  by (auto simp: Let_def)


section \<open>POST /transfers\<close>

lemma classify_clean:
  assumes "clean e"
  shows "classify e = (404, ''not found'') \<or> classify e = (500, ''internal error'')"
  using assms [THEN clean_not_Is] by (simp add: classify_def sentinels_def)

lemma classify_sentinels [simp]:
  "classify ErrInvalidIdempotencyKey = (400, Error ErrInvalidIdempotencyKey)"
  "classify ErrInvalidAmount = (400, Error ErrInvalidAmount)"
  "classify ErrSameWallet = (400, Error ErrSameWallet)"
  "classify ErrIdempotencyConflict = (409, Error ErrIdempotencyConflict)"
  "classify ErrNotFound = (404, ''not found'')" "classify ErrWalletNotFound = (404, ''not found'')"
  "classify (Errorf m) = (500, ''internal error'')" "classify (PgError c m) = (500, ''internal error'')"
  by (simp_all add: classify_def)

lemma Validate_classify:
  "Validate req = Some e \<Longrightarrow> classify e = (400, Error e) \<or> classify e = (500, ''internal error'')"
  by (auto simp: Validate_def split: if_splits)

text \<open>
  C25: the answers of \<open>POST /transfers\<close>, with other instances committing in between and under
  any faults. 200 comes with the transfer that the key then stands for; 400 only when the body does
  not decode or the request is invalid, and then nothing was touched; 409 only when the key stands
  for another request; every other failure is a bare 404 or 500 without the error's text.
\<close>

theorem post_transfers:
  assumes "a < length (ioReqs s)" and "unsent s" and "apiHandler U a s = (f, s')"
    and "rqMethod (req_at a s) = ''POST''" and "rqPath (req_at a s) = [''transfers'']"
    and "serving db_steps (ioWorld s)"
  shows "serving db_steps (ioWorld s') \<and>
    (case createTransferRequest (rqBody (req_at a s)) of
       Inl m \<Rightarrow> replied s' 400 (errorBody (''invalid json: '' @ m)) \<and> ioWorld s' = ioWorld s
     | Inr req \<Rightarrow>
        (\<exists>t. replied s' 200 (toTransferResponse U t) \<and>
           claim_of (qIdempotencyKey req) (disk (ioWorld s')) = Some (hash req, t)) \<or>
        (\<exists>e. Validate req = Some e \<and> ioWorld s' = ioWorld s \<and>
           (replied s' 400 (errorBody (Error e)) \<or> replied s' 500 (errorBody ''internal error''))) \<or>
        Validate req = None \<and>
          (replied s' 409 (errorBody (Error ErrIdempotencyConflict)) \<and>
             (\<exists>h t. claim_of (qIdempotencyKey req) (disk (ioWorld s')) = Some (h, t) \<and> h \<noteq> hash req) \<or>
           replied s' 404 (errorBody ''not found'') \<or> replied s' 500 (errorBody ''internal error'')))"
proof (cases "createTransferRequest (rqBody (req_at a s))")
  case (Inl m)
  then show ?thesis using create_reply [OF assms] assms(6) by simp
next
  case (Inr req)
  with create_reply [OF assms] obtain u r where run: "TransferService_Create req u (ioWorld s) = (r, ioWorld s')"
    and r: "case r of
           Ok (Some t) \<Rightarrow> replied s' 200 (toTransferResponse U t)
         | Err e \<Rightarrow> replied s' (fst (classify e)) (errorBody (snd (classify e)))
         | _ \<Rightarrow> False"
    by auto
  have sv: "serving db_steps (ioWorld s')"
    using creates.call_inv [OF assms(6) run] .
  show ?thesis
  proof (cases r)
    case (Ok x)
    then show ?thesis
      using creates.call_settles [OF assms(6) run [unfolded Ok]] r sv Inr by (auto simp: claims_def)
  next
    case (Err e)
    have "create_spec db_steps req u (disk (ioWorld s)) (Err e) (disk (ioWorld s'))"
      using service.Create_refines [OF run] Err assms(6) by (simp add: serving_def)
    then show ?thesis
    proof (rule create_spec_ErrE)
      assume v: "Validate req = Some e"
      then have "ioWorld s' = ioWorld s" using run by (auto simp: TransferService_Create_def)
      then show ?thesis using v Validate_classify [OF v] r Err sv Inr by auto
    qed (use r Err sv Inr classify_clean [of e] in auto)
  next
    case (Panic p)
    then show ?thesis using r by simp
  qed
qed


text \<open>An example request and a body that decodes to it.\<close>

definition ex_body :: "string \<Rightarrow> string \<Rightarrow> body" where
  "ex_body src n = Parsed (JObject [(''idempotencyKey'', JString ''k''), (''fromWalletId'', JString src),
     (''toWalletId'', JString ''b''), (''amount'', JNumber n)])"

lemma Atoi_30: "Atoi ''30'' = Some 30"
  by code_simp

lemma ex_body_decodes:
  "createTransferRequest (ex_body src ''30'') =
     Inr \<lparr>qIdempotencyKey = ''k'', qFromWalletID = src, qToWalletID = ''b'', qAmount = 30\<rparr>"
  by (simp add: createTransferRequest_def Decode_def ex_body_def find_field_def Atoi_30)

abbreviation ex_post :: "fault list \<Rightarrow> env_step list \<Rightarrow> io" where
  "ex_post fs es \<equiv> ex_io (ex_request ''POST'' [''transfers''] (ex_body ''a'' ''30'')) (ex_world fs es)"

lemma ex_post_serving [simp]: "serving db_steps (ex_world fs [])"
  by (simp add: serving_def ex_world_def)

theorem post_transfers_witness:
  "serving db_steps (ioWorld (snd (apiHandler ex_uuids 0 (ex_post [NoFault, FailAfter ''reset''] []))))"
  using post_transfers [of 0 "ex_post [NoFault, FailAfter ''reset''] []", OF _ _ prod.collapse [symmetric],
      of ex_uuids]
  by simp

text \<open>
  C26: two accepted posts under one key get the same response body, byte for byte, whatever other
  instances committed in between, and their requests hash alike.
\<close>

lemma post_accepted:
  assumes "a < length (ioReqs s)" and "unsent s" and "apiHandler U a s = (f, s')"
    and "rqMethod (req_at a s) = ''POST''" and "rqPath (req_at a s) = [''transfers'']"
    and "serving db_steps (ioWorld s)"
    and "createTransferRequest (rqBody (req_at a s)) = Inr req" and "rspStatus (ioRsp s') = Some 200"
  obtains t where "replied s' 200 (toTransferResponse U t)"
    and "claim_of (qIdempotencyKey req) (disk (ioWorld s')) = Some (hash req, t)"
    and "serving db_steps (ioWorld s')"
proof -
  obtain u r where run: "TransferService_Create req u (ioWorld s) = (r, ioWorld s')"
    and r: "case r of
           Ok (Some t) \<Rightarrow> replied s' 200 (toTransferResponse U t)
         | Err e \<Rightarrow> replied s' (fst (classify e)) (errorBody (snd (classify e)))
         | _ \<Rightarrow> False"
    using create_reply [OF assms(1-6)] assms(7) by auto
  have "fst (classify e) \<noteq> 200" for e by (simp add: classify_def)
  then obtain t where "r = Ok (Some t)" "replied s' 200 (toTransferResponse U t)"
    using r assms(8) by (auto simp: replied_def split: res.splits option.splits)
  moreover from this have "claim_of (qIdempotencyKey req) (disk (ioWorld s')) = Some (hash req, t)"
    using creates.call_settles [OF assms(6)] run by (auto simp: claims_def)
  moreover have "serving db_steps (ioWorld s')"
    using creates.call_inv [OF assms(6) run] .
  ultimately show ?thesis using that by blast
qed

theorem posts_under_one_key_agree:
  assumes "a < length (ioReqs s)" and "unsent s" and "apiHandler U a s = (f, s')"
    and "rqMethod (req_at a s) = ''POST''" and "rqPath (req_at a s) = [''transfers'']"
    and "serving db_steps (ioWorld s)"
    and "createTransferRequest (rqBody (req_at a s)) = Inr req" and "rspStatus (ioRsp s') = Some 200"
    and "db_steps (disk (ioWorld s')) (disk (ioWorld t))"
    and "b < length (ioReqs t)" and "unsent t" and "apiHandler U b t = (g, t')"
    and "rqMethod (req_at b t) = ''POST''" and "rqPath (req_at b t) = [''transfers'']"
    and "serving db_steps (ioWorld t)"
    and "createTransferRequest (rqBody (req_at b t)) = Inr req2" and "rspStatus (ioRsp t') = Some 200"
    and "qIdempotencyKey req2 = qIdempotencyKey req"
  shows "rspBody (ioRsp t') = rspBody (ioRsp s') \<and> hash req2 = hash req"
proof -
  obtain x where x: "replied s' 200 (toTransferResponse U x)"
      "claim_of (qIdempotencyKey req) (disk (ioWorld s')) = Some (hash req, x)"
    using post_accepted [OF assms(1-8)] .
  obtain u r where run: "TransferService_Create req2 u (ioWorld t) = (r, ioWorld t')"
    using create_reply [OF assms(10-15)] assms(16) by auto
  obtain y where y: "replied t' 200 (toTransferResponse U y)"
      "claim_of (qIdempotencyKey req2) (disk (ioWorld t')) = Some (hash req2, y)"
    using post_accepted [OF assms(10-17)] .
  have "create_spec db_steps req2 u (disk (ioWorld t)) r (disk (ioWorld t'))"
    using service.Create_refines [OF run] assms(15) by (simp add: serving_def)
  then have "db_steps (disk (ioWorld t)) (disk (ioWorld t'))"
    by (simp add: create_spec_steps)
  then have "extends (disk (ioWorld s')) (disk (ioWorld t'))"
    using assms(9) by (intro extends_steps) simp
  then have "claim_of (qIdempotencyKey req) (disk (ioWorld t')) = Some (hash req, x)"
    using x(2) by (rule claim_of_extends)
  then show ?thesis
    using x(1) y assms(18) by (simp add: replied_def)
qed


text \<open>On a quiet server the first post books, and the second one replays.\<close>

lemma post_ok:
  assumes "a < length (ioReqs s)" and "unsent s" and "apiHandler U a s = (f, s')"
    and "rqMethod (req_at a s) = ''POST''" and "rqPath (req_at a s) = [''transfers'']"
    and "serving db_steps (ioWorld s)"
    and "createTransferRequest (rqBody (req_at a s)) = Inr req"
    and "\<And>u. \<exists>x w. TransferService_Create req u (ioWorld s) = (Ok (Some x), w) \<and> P w"
  shows "rspStatus (ioRsp s') = Some 200 \<and> P (ioWorld s')"
proof -
  obtain u r where run: "TransferService_Create req u (ioWorld s) = (r, ioWorld s')"
    and r: "case r of
           Ok (Some t) \<Rightarrow> replied s' 200 (toTransferResponse U t)
         | Err e \<Rightarrow> replied s' (fst (classify e)) (errorBody (snd (classify e)))
         | _ \<Rightarrow> False"
    using create_reply [OF assms(1-6)] assms(7) by auto
  then show ?thesis using assms(8) [of u] by (auto simp: replied_def)
qed

definition ex_posted :: io where
  "ex_posted = snd (apiHandler ex_uuids 0 (ex_post [] []))"

lemma ex_posted:
  "rspStatus (ioRsp ex_posted) = Some 200" "faults (ioWorld ex_posted) = []" "others (ioWorld ex_posted) = []"
  "\<exists>t. claim_of ''k'' (disk (ioWorld ex_posted)) = Some (hash (ex_req 30), t)"
  "serving db_steps (ioWorld ex_posted)"
proof -
  let ?s = "ex_post [] []"
  have run: "apiHandler ex_uuids 0 ?s = (fst (apiHandler ex_uuids 0 ?s), ex_posted)"
    by (simp add: ex_posted_def)
  have req: "createTransferRequest (rqBody (req_at 0 ?s)) = Inr (ex_req 30)"
    by (simp add: ex_body_decodes ex_req_def)
  have "\<exists>x w. TransferService_Create (ex_req 30) u (ioWorld ?s) = (Ok (Some x), w) \<and>
      faults w = [] \<and> others w = [] \<and> serving db_steps w \<and>
      (\<exists>t. claim_of ''k'' (disk w) = Some (hash (ex_req 30), t))" for u
  proof -
    obtain x w where w: "TransferService_Create (ex_req 30) u (ioWorld ?s) = (Ok (Some x), w)"
        "faults w = []" "others w = []"
      using Create_books_quiet [of "ioWorld ?s" "ex_req 30" u] ex_can_book [of 30 u]
      by (auto simp: ex_world_def)
    then show ?thesis
      using creates.call_settles [of "ioWorld ?s" "ex_req 30" u] creates.call_inv [of "ioWorld ?s" "ex_req 30" u]
      by (simp add: claims_def ex_req_def)
  qed
  from post_ok [OF _ _ run _ _ _ req this] show
    "rspStatus (ioRsp ex_posted) = Some 200" "faults (ioWorld ex_posted) = []" "others (ioWorld ex_posted) = []"
    "\<exists>t. claim_of ''k'' (disk (ioWorld ex_posted)) = Some (hash (ex_req 30), t)"
    "serving db_steps (ioWorld ex_posted)"
    by simp_all
qed

lemma ex_reposted:
  "rspStatus (ioRsp (snd (apiHandler ex_uuids 0 (ex_io (ex_request ''POST'' [''transfers''] (ex_body ''a'' ''30'')) (ioWorld ex_posted)))))
     = Some 200"
proof -
  let ?s = "ex_io (ex_request ''POST'' [''transfers''] (ex_body ''a'' ''30'')) (ioWorld ex_posted)"
  have req: "createTransferRequest (rqBody (req_at 0 ?s)) = Inr (ex_req 30)"
    by (simp add: ex_body_decodes ex_req_def)
  obtain t where "claim_of ''k'' (disk (ioWorld ex_posted)) = Some (hash (ex_req 30), t)"
    using ex_posted(4) by blast
  then have "\<exists>x w. TransferService_Create (ex_req 30) u (ioWorld ?s) = (Ok (Some x), w) \<and> True" for u
    using Create_replay_quiet [OF ex_posted(2,3) ex_req_valid, of 30 "hash (ex_req 30)" t u]
    by (simp add: ex_req_def)
  from post_ok [OF _ _ prod.collapse [symmetric] _ _ _ req this] show ?thesis
    by (simp add: ex_posted(5))
qed

theorem posts_under_one_key_agree_witness:
  "rspBody (ioRsp (snd (apiHandler ex_uuids 0
      (ex_io (ex_request ''POST'' [''transfers''] (ex_body ''a'' ''30'')) (ioWorld ex_posted)))))
    = rspBody (ioRsp ex_posted)"
  using posts_under_one_key_agree [of 0 "ex_post [] []" ex_uuids "fst (apiHandler ex_uuids 0 (ex_post [] []))" ex_posted
      "ex_req 30" "ex_io (ex_request ''POST'' [''transfers''] (ex_body ''a'' ''30'')) (ioWorld ex_posted)" 0,
      OF _ _ _ _ _ _ _ _ _ _ _ prod.collapse [symmetric], of "ex_req 30"]
    ex_posted(1,5) ex_reposted
  by (simp add: ex_posted_def [symmetric] ex_body_decodes ex_req_def prod_eq_iff)


text \<open>
  C27: the id of a posted transfer leads back to it. A client that got 200 for a post and later
  asks for the id in the response gets the same document again, or a 500 when the database cannot
  be read; never a 404 and never another state of the transfer. \<open>uuid_laws\<close> is what the UUID
  library documents.
\<close>

theorem posted_transfer_can_be_fetched:
  assumes "a < length (ioReqs s)" and "unsent s" and "apiHandler U a s = (f, s')"
    and "rqMethod (req_at a s) = ''POST''" and "rqPath (req_at a s) = [''transfers'']"
    and "serving db_steps (ioWorld s)"
    and "createTransferRequest (rqBody (req_at a s)) = Inr req" and "rspStatus (ioRsp s') = Some 200"
    and "uuid_laws U"
  shows "\<exists>x. replied s' 200 (toTransferResponse U x) \<and>
    (\<forall>b t g t'. db_steps (disk (ioWorld s')) (disk (ioWorld t)) \<longrightarrow> serving db_steps (ioWorld t) \<longrightarrow>
       b < length (ioReqs t) \<longrightarrow> unsent t \<longrightarrow> rqMethod (req_at b t) = ''GET'' \<longrightarrow>
       rqPath (req_at b t) = [''transfers'', uuidString U (tID x)] \<longrightarrow> apiHandler U b t = (g, t') \<longrightarrow>
       replied t' 200 (toTransferResponse U x) \<or> replied t' 500 (errorBody ''internal error''))"
proof -
  obtain x where x: "replied s' 200 (toTransferResponse U x)"
      "claim_of (qIdempotencyKey req) (disk (ioWorld s')) = Some (hash req, x)"
    using post_accepted [OF assms(1-8)] .
  then obtain i :: idem_row and row where row: "find_transfer (irTransferID i) (disk (ioWorld s')) = Some row" "x = scan_transfer row"
    by (auto simp: claim_of_Some)
  then have u: "irTransferID i = tID x"
    using transfer_tbl.lookup_SomeD [OF row(1)] by (simp add: scan_transfer_def)
  have "replied t' 200 (toTransferResponse U x) \<or> replied t' 500 (errorBody ''internal error'')"
    if "db_steps (disk (ioWorld s')) (disk (ioWorld t))" "serving db_steps (ioWorld t)"
      "b < length (ioReqs t)" "unsent t" "rqMethod (req_at b t) = ''GET''"
      "rqPath (req_at b t) = [''transfers'', uuidString U (tID x)]" "apiHandler U b t = (g, t')" for b t g t'
  proof -
    have "db_steps (disk (ioWorld s')) (disk (interfere (ioWorld t)))"
      using that(1) service.R_interfere [of "ioWorld t"] that(2)
      by (auto simp: serving_def intro: rtranclp_trans)
    then have "find_transfer (tID x) (disk (interfere (ioWorld t))) = Some row"
      using service.R_keeps_transfer row(1) u by metis
    then show ?thesis
      using get_transfer_reply [OF that(3,4,7,5,6) assms(9)] row(2) by blast
  qed
  with x(1) show ?thesis by blast
qed

text \<open>Ids in unary: a library that keeps the laws.\<close>

definition unary_uuids :: uuid_lib where
  "unary_uuids = \<lparr>uuidString = (\<lambda>u. replicate (Suc (unat u)) CHR ''1''),
                  uuidParse = (\<lambda>s. Some (of_nat (length s - 1)))\<rparr>"

lemma unary_uuids_laws: "uuid_laws unary_uuids"
  by (simp add: uuid_laws_def unary_uuids_def plain_seg_def)

theorem posted_transfer_can_be_fetched_witness:
  "\<exists>x. replied (snd (apiHandler unary_uuids 0 (ex_post [] []))) 200 (toTransferResponse unary_uuids x)"
proof -
  let ?s = "ex_post [] []"
  have req: "createTransferRequest (rqBody (req_at 0 ?s)) = Inr (ex_req 30)"
    by (simp add: ex_body_decodes ex_req_def)
  have "\<exists>x w. TransferService_Create (ex_req 30) u (ioWorld ?s) = (Ok (Some x), w) \<and> True" for u
    using Create_books_quiet [of "ioWorld ?s" "ex_req 30" u] ex_can_book [of 30 u]
    by (auto simp: ex_world_def)
  from post_ok [where U = unary_uuids, OF _ _ prod.collapse [symmetric] _ _ _ req this]
  have "rspStatus (ioRsp (snd (apiHandler unary_uuids 0 ?s))) = Some 200" by simp
  then show ?thesis
    using posted_transfer_can_be_fetched [where U = unary_uuids, OF _ _ prod.collapse [symmetric] _ _ _ req _ unary_uuids_laws]
    by fastforce
qed

text \<open>
  C30: a missing wallet id is refused by \<open>Validate\<close> with an error that \<open>classify\<close> does not know,
  so the client's mistake is answered like a failure of the server: 500 with the generic body.
\<close>

theorem missing_wallet_id_is_internal_error:
  assumes "a < length (ioReqs s)" and "unsent s" and "apiHandler U a s = (f, s')"
    and "rqMethod (req_at a s) = ''POST''" and "rqPath (req_at a s) = [''transfers'']"
    and "serving db_steps (ioWorld s)"
    and "createTransferRequest (rqBody (req_at a s)) = Inr req"
    and "qIdempotencyKey req \<noteq> ''''" and "0 < sint (qAmount req)"
    and "qFromWalletID req = '''' \<or> qToWalletID req = ''''"
  shows "replied s' 500 (errorBody ''internal error'') \<and> ioWorld s' = ioWorld s"
proof -
  have "Validate req = Some (Errorf ''from/to wallet id is required'')"
    using assms(8-10) by (auto simp: Validate_def)
  then show ?thesis
    using create_reply [OF assms(1-6)] assms(7) by (auto simp: TransferService_Create_def)
qed

theorem missing_wallet_id_is_internal_error_witness:
  "replied (snd (apiHandler ex_uuids 0
      (ex_io (ex_request ''POST'' [''transfers''] (ex_body '''' ''30'')) (ex_world [] [])))) 500
    (errorBody ''internal error'')"
  using missing_wallet_id_is_internal_error [of 0
      "ex_io (ex_request ''POST'' [''transfers''] (ex_body '''' ''30'')) (ex_world [] [])", OF _ _ prod.collapse [symmetric]]
  by (simp add: ex_body_decodes)

section \<open>Wallets\<close>

text \<open>
  C31: \<open>POST /wallets\<close> and \<open>GET /wallets/{id}\<close> on a server without faults. An empty id is answered
  404, a negative balance 400, an id that \<open>TEXT\<close> cannot hold (a zero byte, bad UTF-8) or that is taken
  500, and then nothing is stored. Any other wallet is stored, and nothing else with it, and answered
  with 201; and every later read of its id on the same database, when the id can stand in a path,
  answers 200 with the very document the creation returned.
\<close>

theorem wallet_create_and_get:
  assumes "a < length (ioReqs s)" and "unsent s" and "apiHandler U a s = (f, s')"
    and "rqMethod (req_at a s) = ''POST''" and "rqPath (req_at a s) = [''wallets'']"
    and "createWalletRequest (rqBody (req_at a s)) = Inr q"
    and "faults (ioWorld s) = []" and "others (ioWorld s) = []"
  shows "if cwID q = ''''
     then replied s' 404 (errorBody ''not found'') \<and> disk (ioWorld s') = disk (ioWorld s)
     else if sint (cwBalance q) < 0
     then replied s' 400 (errorBody (Error ErrInvalidAmount)) \<and> disk (ioWorld s') = disk (ioWorld s)
     else if \<not> text_ok (cwID q) \<or> cwID q \<in> wallet_ids (disk (ioWorld s))
     then replied s' 500 (errorBody ''internal error'') \<and> disk (ioWorld s') = disk (ioWorld s)
     else \<exists>x. wID x = cwID q \<and> wBalance x = cwBalance q \<and> replied s' 201 (toWalletResponse x) \<and>
       disk (ioWorld s') = (disk (ioWorld s))\<lparr>wallets := wallets (disk (ioWorld s)) @ [x]\<rparr> \<and>
       (\<forall>b t g t'. b < length (ioReqs t) \<longrightarrow> unsent t \<longrightarrow> apiHandler U b t = (g, t') \<longrightarrow>
          rqMethod (req_at b t) = ''GET'' \<longrightarrow> rqPath (req_at b t) = [''wallets'', cwID q] \<longrightarrow> plain_seg (cwID q) \<longrightarrow>
          ioWorld t = ioWorld s' \<longrightarrow> replied t' 200 (toWalletResponse x))"
proof -
  let ?w = "ioWorld s" and ?x = "wallet_row (cwID q) (cwBalance q) (clock (ioWorld s))"
  let ?d = "(disk ?w)\<lparr>wallets := wallets (disk ?w) @ [?x]\<rparr>"
  obtain r d where o: "open_wallet q (clock ?w) (disk ?w) = (r, d)" by (metis prod.exhaust)
  have post: "ioWorld s' = ?w\<lparr>disk := d\<rparr>" "case r of Ok x \<Rightarrow> replied s' 201 (toWalletResponse x)
     | Err e \<Rightarrow> replied s' (fst (classify e)) (errorBody (snd (classify e))) | Panic p \<Rightarrow> False"
    using create_wallet_reply [OF assms(1-8) o] by simp_all
  have codes: "classify ErrWalletNotFound = (404, ''not found'')" "classify ErrInvalidAmount = (400, Error ErrInvalidAmount)"
    "classify (wrap ''insert wallet'' (PgError c m)) = (500, ''internal error'')" for c m
    by (simp_all add: classify_def wrap_def)
  show ?thesis
  proof (cases "cwID q = '''' \<or> sint (cwBalance q) < 0 \<or> \<not> text_ok (cwID q) \<or> cwID q \<in> wallet_ids (disk ?w)")
    case True
    then show ?thesis
      using o post codes by (auto simp: open_wallet_def split: if_splits)
  next
    case False
    then have new: "r = Ok ?x" "d = ?d" using o by (auto simp: open_wallet_def)
    have find: "find_wallet (cwID q) ?d = Some ?x"
      using wallet_tbl.lookup_snoc_fresh [of ?d "disk ?w" ?x] False
      by (simp add: wallet_row_def wallet_ids_def)
    have "replied t' 200 (toWalletResponse ?x)"
      if "b < length (ioReqs t)" "unsent t" "apiHandler U b t = (g, t')" "rqMethod (req_at b t) = ''GET''"
        "rqPath (req_at b t) = [''wallets'', cwID q]" "plain_seg (cwID q)" "ioWorld t = ioWorld s'" for b t g t'
      using get_wallet_reply [OF that(1-6)] that(7) assms(7,8) post(1) new(2) find False by simp
    then show ?thesis
      using False post new by (auto simp: wallet_row_def intro!: exI [of _ ?x])
  qed
qed


theorem wallet_create_and_get_witness:
  "\<exists>s' t'. apiHandler ex_uuids 0 (ex_io (ex_request ''POST'' [''wallets'']
      (Parsed (JObject [(''id'', JString ''c''), (''balance'', JNumber ''30'')]))) (quiet_world ex_db 8)) = (Done, s') \<and>
    apiHandler ex_uuids 0 (ex_io (ex_request ''GET'' [''wallets'', ''c''] (Malformed '''')) (ioWorld s')) = (Done, t') \<and>
    replied t' 200 (toWalletResponse (wallet_row ''c'' 30 8))"
proof -
  let ?s = "ex_io (ex_request ''POST'' [''wallets'']
      (Parsed (JObject [(''id'', JString ''c''), (''balance'', JNumber ''30'')]))) (quiet_world ex_db 8)"
  obtain f s' where s': "apiHandler ex_uuids 0 ?s = (f, s')" by (metis prod.exhaust)
  let ?t = "ex_io (ex_request ''GET'' [''wallets'', ''c''] (Malformed '''')) (ioWorld s')"
  obtain g t' where t': "apiHandler ex_uuids 0 ?t = (g, t')" by (metis prod.exhaust)
  have q: "createWalletRequest (rqBody (req_at 0 ?s)) = Inr \<lparr>cwID = ''c'', cwBalance = 30\<rparr>"
    by (simp add: createWalletRequest_def Decode_def find_field_def Atoi_30)
  have "''c'' \<notin> wallet_ids ex_db"
    by (simp add: ex_db_def wallet_ids_def wallet_row_def)
  then obtain x where x: "wID x = ''c''" "wBalance x = 30" and
    read: "\<And>b t g t'. b < length (ioReqs t) \<Longrightarrow> unsent t \<Longrightarrow> apiHandler ex_uuids b t = (g, t') \<Longrightarrow>
      rqMethod (req_at b t) = ''GET'' \<Longrightarrow> rqPath (req_at b t) = [''wallets'', ''c''] \<Longrightarrow> plain_seg ''c'' \<Longrightarrow>
      ioWorld t = ioWorld s' \<Longrightarrow> replied t' 200 (toWalletResponse x)"
    using wallet_create_and_get [OF _ _ s' _ _ q] by auto
  have reply: "replied t' 200 (toWalletResponse x)"
    using read [OF _ _ t'] by (simp add: plain_seg_def)
  have "toWalletResponse x = toWalletResponse (wallet_row ''c'' 30 8)"
    using x by (simp add: toWalletResponse_def wallet_row_def)
  moreover obtain i n u c where "f = Done" by (rule api_chain [OF _ _ s']) simp_all
  moreover obtain i n u c where "g = Done" by (rule api_chain [OF _ _ t']) simp_all
  ultimately show ?thesis using s' t' reply by auto
qed

section \<open>Cursors\<close>

lemma query_get_other:
  assumes "rqQuery r' = filter (\<lambda>(k, v). k \<noteq> ''before'') (rqQuery r)"
  shows "query_get ''before'' r' = ''''" "query_get ''limit'' r' = query_get ''limit'' r"
proof -
  have "List.find (\<lambda>(n, v). n = ''before'') (filter (\<lambda>(k, v). k \<noteq> ''before'') xs) = None"
    "List.find (\<lambda>(n, v). n = ''limit'') (filter (\<lambda>(k, v). k \<noteq> ''before'') xs) = List.find (\<lambda>(n, v). n = ''limit'') xs"
    for xs :: "(string \<times> string) list"
    by (induction xs) auto
  then show "query_get ''before'' r' = ''''" "query_get ''limit'' r' = query_get ''limit'' r"
    by (simp_all add: query_get_def assms)
qed

text \<open>
  C32: the cursor round trip. Take any list query without \<open>before\<close> that is accepted, with a limit or
  without one. When the \<open>nextCursor\<close> of a page is added to it as \<open>before\<close>, the query is parsed into the
  same limit and exactly the instant the service returned, to the microsecond, for every instant of
  the years 0 to 9999.
\<close>

theorem cursor_round_trip:
  assumes "civil (t div day_us) = (y, m, d)" and "0 \<le> y" and "y < 10000"
    and "transferListResponse U rows (Some t) = JObject [l, (''nextCursor'', JString c)]"
    and "query_get ''before'' r = c"
    and "parseListQuery (r\<lparr>rqQuery := filter (\<lambda>(k, v). k \<noteq> ''before'') (rqQuery r)\<rparr>) = Inr (n, b)"
  shows "parseListQuery r = Inr (n, Some t)"
proof -
  have p: "parse_rfc3339 (format_nano t) = Some t"
    using parse_format_nano [OF assms(1-3)] .
  then have ne: "format_nano t \<noteq> ''''" by (auto simp: parse_rfc3339_def getyear_def)
  then have "c = format_nano t"
    using assms(4) by (simp add: transferListResponse_def omit_empty_def)
  then show ?thesis
    using p ne assms(5,6) query_get_other [of "r\<lparr>rqQuery := filter (\<lambda>(k, v). k \<noteq> ''before'') (rqQuery r)\<rparr>" r]
    by (auto simp: parseListQuery_def Let_def split: option.splits if_splits)
qed


theorem cursor_round_trip_witness:
  "parseListQuery (ex_request ''GET'' [] (Malformed '''')\<lparr>rqQuery := [(''before'', ''2000-02-29T00:00:01.000005Z'')]\<rparr>)
    = Inr (0, Some 951782401000005)"
proof (rule cursor_round_trip [where U = ex_uuids and rows = "[]" and y = 2000 and m = 2 and d = 29
      and l = "(''transfers'', JArray [])" and c = "''2000-02-29T00:00:01.000005Z''" and b = None])
  show "civil (951782401000005 div day_us) = (2000, 2, 29)" by code_simp
  have "format_nano 951782401000005 = ''2000-02-29T00:00:01.000005Z''" by code_simp
  then show "transferListResponse ex_uuids [] (Some 951782401000005) =
      JObject [(''transfers'', JArray []), (''nextCursor'', JString ''2000-02-29T00:00:01.000005Z'')]"
    by (simp add: transferListResponse_def omit_empty_def)
qed (simp_all add: query_get_def parseListQuery_def)

end
