(* ===== verification/Debug.thy ===== *)
theory Debug
  imports Api_Props
begin

text \<open>
  The admin mux of \<open>internal/handler/debug.go\<close>. Its patterns name no method, and one of them,
  with a trailing slash, stands for everything below it; among the patterns that match, the most
  specific wins. The endpoints themselves belong to \<open>net/http/pprof\<close> and \<open>promhttp\<close>.
\<close>

section \<open>Patterns without a method\<close>

record admin_lib =
  pprofIndex :: handler
  pprofCmdline :: handler
  pprofProfile :: handler
  pprofSymbol :: handler
  pprofTrace :: handler
  promHandler :: handler

record debug_route =
  dbPattern :: string
  dbSegs :: "string list"
  dbSubtree :: bool
  dbHandler :: handler

definition debug_match :: "string list \<Rightarrow> debug_route \<Rightarrow> bool" where
  "debug_match path t \<longleftrightarrow>
     (if dbSubtree t then length (dbSegs t) < length path \<and> take (length (dbSegs t)) path = dbSegs t
      else path = dbSegs t)"

definition most_specific :: "debug_route list \<Rightarrow> string list \<Rightarrow> debug_route option" where
  "most_specific rts path =
     foldr (\<lambda>t best. case best of
                         None \<Rightarrow> Some t
                       | Some u \<Rightarrow> Some (if length (dbSegs u) \<le> length (dbSegs t) then t else u))
       (filter (debug_match path) rts) None"

text \<open>
  \<open>ServeMux.ServeHTTP\<close> for these patterns. A path that no pattern matches exactly, but one would
  with a trailing slash, is redirected there, any other unclean path to its clean form.
\<close>

definition slash_redirect :: "debug_route list \<Rightarrow> string list \<Rightarrow> bool" where
  "slash_redirect rts path \<longleftrightarrow>
     list_all (\<lambda>t. dbSubtree t \<or> dbSegs t \<noteq> path) rts \<and> last path \<noteq> '''' \<and>
     list_ex (\<lambda>t. dbSubtree t \<and> dbSegs t = path) rts"

definition debug_ServeHTTP :: "debug_route list \<Rightarrow> handler" where
  "debug_ServeHTTP rts a s =
     (let r = req_at a s;
          path = (if rqMethod r = ''CONNECT'' then rqPath r else clean_path (rqPath r));
          target = most_specific rts path;
          pat = (case target of None \<Rightarrow> '''' | Some t \<Rightarrow> dbPattern t);
          s1 = s\<lparr>ioReqs := (ioReqs s)[a := r\<lparr>rqPattern := pat\<rparr>]\<rparr>
      in if slash_redirect rts path then (Done, http_redirect (rqMethod r) (path_text path @ ''/'') s1)
         else if path \<noteq> rqPath r then (Done, http_redirect (rqMethod r) (path_text path) s1)
         else case target of
           Some t \<Rightarrow> dbHandler t a s1
         | None \<Rightarrow> (Done, http_error ''404 page not found'' 404 s1))"

definition debug_routes :: "admin_lib \<Rightarrow> debug_route list" where
  "debug_routes D =
     [\<lparr>dbPattern = ''/debug/pprof/'', dbSegs = [''debug'', ''pprof''], dbSubtree = True, dbHandler = pprofIndex D\<rparr>,
      \<lparr>dbPattern = ''/debug/pprof/cmdline'', dbSegs = [''debug'', ''pprof'', ''cmdline''], dbSubtree = False,
       dbHandler = pprofCmdline D\<rparr>,
      \<lparr>dbPattern = ''/debug/pprof/profile'', dbSegs = [''debug'', ''pprof'', ''profile''], dbSubtree = False,
       dbHandler = pprofProfile D\<rparr>,
      \<lparr>dbPattern = ''/debug/pprof/symbol'', dbSegs = [''debug'', ''pprof'', ''symbol''], dbSubtree = False,
       dbHandler = pprofSymbol D\<rparr>,
      \<lparr>dbPattern = ''/debug/pprof/trace'', dbSegs = [''debug'', ''pprof'', ''trace''], dbSubtree = False,
       dbHandler = pprofTrace D\<rparr>,
      \<lparr>dbPattern = ''/metrics'', dbSegs = [''metrics''], dbSubtree = False, dbHandler = promHandler D\<rparr>]"

definition NewDebugMux :: "admin_lib \<Rightarrow> handler" where
  "NewDebugMux D = debug_ServeHTTP (debug_routes D)"

section \<open>Which handler is chosen\<close>

lemma debug_match_routes:
  "filter (debug_match path) (debug_routes D) = [] \<longleftrightarrow>
     \<not> (2 < length path \<and> take 2 path = [''debug'', ''pprof''] \<or> path = [''metrics''])"
  by (auto simp: debug_routes_def debug_match_def numeral_2_eq_2)

lemma most_specific_None: "most_specific rts path = None \<longleftrightarrow> filter (debug_match path) rts = []"
  unfolding most_specific_def
  by (cases "filter (debug_match path) rts") (auto split: option.splits)

lemma slash_redirect_routes:
  "slash_redirect (debug_routes D) path \<longleftrightarrow> path = [''debug'', ''pprof'']"
  by (auto simp: slash_redirect_def debug_routes_def)

lemma most_specific_routes:
  "most_specific (debug_routes D) [''debug'', ''pprof'', ''cmdline''] = Some (debug_routes D ! 1)"
  "most_specific (debug_routes D) [''debug'', ''pprof'', ''profile''] = Some (debug_routes D ! 2)"
  "most_specific (debug_routes D) [''debug'', ''pprof'', ''symbol''] = Some (debug_routes D ! 3)"
  "most_specific (debug_routes D) [''debug'', ''pprof'', ''trace''] = Some (debug_routes D ! 4)"
  "most_specific (debug_routes D) [''metrics''] = Some (debug_routes D ! 5)"
  "x \<notin> {''cmdline'', ''profile'', ''symbol'', ''trace''} \<Longrightarrow>
     most_specific (debug_routes D) [''debug'', ''pprof'', x] = Some (debug_routes D ! 0)"
  "most_specific (debug_routes D) (''debug'' # ''pprof'' # x # y # xs) = Some (debug_routes D ! 0)"
  by (simp_all add: most_specific_def debug_routes_def debug_match_def)

text \<open>No path is served by both listeners.\<close>

lemma api_route_not_debug:
  assumes "t \<in> set (routes U)" and "match_segs (rtSegs t) path \<noteq> None"
  shows "most_specific (debug_routes D) path = None" and "\<not> slash_redirect (debug_routes D) path"
proof -
  have "path \<noteq> [] \<and> hd path \<in> {''transfers'', ''wallets'', ''healthz''}"
    using assms by (cases path) (auto simp: routes_def split: if_splits)
  then show "most_specific (debug_routes D) path = None" "\<not> slash_redirect (debug_routes D) path"
    unfolding most_specific_None debug_match_routes slash_redirect_routes
    by (cases path; auto simp: take_Cons')+
qed

section \<open>The two listeners\<close>

lemma api_route_absent:
  assumes "clean_path (rqPath (req_at b t)) = rqPath (req_at b t)"
    and "filter (\<lambda>r. match_segs (rtSegs r) (rqPath (req_at b t)) \<noteq> None) (routes U) = []"
  shows "mux_ServeHTTP (routes U) b t =
    (Done, http_error ''404 page not found'' 404 (t\<lparr>ioReqs := (ioReqs t)[b := (req_at b t)\<lparr>rqPattern := ''''\<rparr>]\<rparr>))"
  unfolding mux_ServeHTTP_def Let_def assms(1) if_cancel assms(2) by simp

lemma debug_route_absent:
  assumes "clean_path (rqPath (req_at a s)) = rqPath (req_at a s)"
    and "most_specific (debug_routes D) (rqPath (req_at a s)) = None" and "rqPath (req_at a s) \<noteq> [''debug'', ''pprof'']"
  shows "NewDebugMux D a s =
    (Done, http_error ''404 page not found'' 404 (s\<lparr>ioReqs := (ioReqs s)[a := (req_at a s)\<lparr>rqPattern := ''''\<rparr>]\<rparr>))"
  unfolding NewDebugMux_def debug_ServeHTTP_def Let_def assms(1) if_cancel assms(2) slash_redirect_routes
  using assms(3) by simp

lemma debug_route_present:
  assumes "clean_path (rqPath (req_at a s)) = rqPath (req_at a s)"
    and "most_specific (debug_routes D) (rqPath (req_at a s)) = Some t"
  shows "NewDebugMux D a s =
    dbHandler t a (s\<lparr>ioReqs := (ioReqs s)[a := (req_at a s)\<lparr>rqPattern := dbPattern t\<rparr>]\<rparr>)"
proof -
  have "rqPath (req_at a s) \<noteq> [''debug'', ''pprof'']"
    using assms(2) most_specific_None [of "debug_routes D" "rqPath (req_at a s)"] debug_match_routes [of "rqPath (req_at a s)" D]
    by auto
  then show ?thesis
    unfolding NewDebugMux_def debug_ServeHTTP_def Let_def assms(1) if_cancel assms(2) slash_redirect_routes
    by simp
qed

definition not_found :: "io \<Rightarrow> bool" where
  "not_found s \<longleftrightarrow> rspStatus (ioRsp s) = Some 404 \<and>
     rspBody (ioRsp s) = [Raw (''404 page not found'' @ [char_of (10 :: nat)])]"

lemma not_found_http_error: "unsent s \<Longrightarrow> not_found (http_error ''404 page not found'' 404 s)"
  by (simp add: not_found_def unsent_def http_error_def)

lemma unsent_reqs [simp]: "unsent (s\<lparr>ioReqs := r\<rparr>) = unsent s"
  by (simp add: unsent_def)

lemma http_error_world [simp]: "ioWorld (http_error m c s) = ioWorld s"
  by (simp add: http_error_def)

text \<open>
  C40: the two listeners do not overlap. On a clean path that the admin mux serves, it calls the most
  specific endpoint, and the API answers 404 without touching a service; on a clean path with an
  API route, the admin mux answers 404.
\<close>

theorem listeners_do_not_overlap:
  assumes a: "a < length (ioReqs s)" and un: "unsent s"
    and clean: "clean_path (rqPath (req_at a s)) = rqPath (req_at a s)"
    and api: "apiHandler U a s = (f, s')" and debug: "NewDebugMux D a s = (g, t')"
  shows "(case most_specific (debug_routes D) (rqPath (req_at a s)) of
      Some t \<Rightarrow>
        NewDebugMux D a s = dbHandler t a (s\<lparr>ioReqs := (ioReqs s)[a := (req_at a s)\<lparr>rqPattern := dbPattern t\<rparr>]\<rparr>) \<and>
        not_found s' \<and> ioWorld s' = ioWorld s
    | None \<Rightarrow> True) \<and>
    (list_ex (\<lambda>t. match_segs (rtSegs t) (rqPath (req_at a s)) \<noteq> None) (routes U) \<longrightarrow>
      not_found t' \<and> ioWorld t' = ioWorld s)"
proof -
  let ?path = "rqPath (req_at a s)" and ?b = "length (ioReqs s)"
  have "not_found s' \<and> ioWorld s' = ioWorld s" if t: "most_specific (debug_routes D) ?path = Some t" for t
  proof -
    obtain i n where to: "\<forall>t. mux_ServeHTTP (routes U) ?b (router_start a i n s) = (Done, t) \<longrightarrow>
        f = Done \<and> ioWorld s' = ioWorld t \<and> ioRsp s' = ioRsp t"
      using api_through [OF a un api] by blast
    have "\<forall>r\<in>set (routes U). match_segs (rtSegs r) ?path = None"
      using api_route_not_debug(1) [of _ U ?path D] t by (metis option.distinct(1))
    then have "filter (\<lambda>r. match_segs (rtSegs r) (rqPath (req_at ?b (router_start a i n s))) \<noteq> None) (routes U) = []"
      by (simp add: filter_empty_conv)
    then have m: "mux_ServeHTTP (routes U) ?b (router_start a i n s) = (Done, http_error ''404 page not found'' 404
        (router_start a i n s\<lparr>ioReqs := (ioReqs (router_start a i n s))[?b := (req_at ?b (router_start a i n s))\<lparr>rqPattern := ''''\<rparr>]\<rparr>))"
      using clean by (intro api_route_absent) simp_all
    have "unsent (router_start a i n s)" using un by simp
    then show ?thesis
      using to m not_found_http_error by (auto simp: not_found_def)
  qed
  moreover have "not_found t' \<and> ioWorld t' = ioWorld s"
    if some: "list_ex (\<lambda>t. match_segs (rtSegs t) ?path \<noteq> None) (routes U)"
  proof -
    obtain t where "t \<in> set (routes U)" "match_segs (rtSegs t) ?path \<noteq> None"
      using some unfolding list_ex_iff by blast
    then have "most_specific (debug_routes D) ?path = None" "?path \<noteq> [''debug'', ''pprof'']"
      using api_route_not_debug [of t U ?path D] slash_redirect_routes by auto
    then show ?thesis
      using debug_route_absent [OF clean] debug un by (auto simp: not_found_http_error)
  qed
  ultimately show ?thesis
    using debug_route_present [OF clean] by (simp split: option.splits)
qed

text \<open>An admin library whose handlers answer with their names.\<close>

definition ex_admin :: admin_lib where
  "ex_admin =
     (let says = (\<lambda>name a s. (Done, Write (Raw name) s)) in
      \<lparr>pprofIndex = says ''index'', pprofCmdline = says ''cmdline'', pprofProfile = says ''profile'',
       pprofSymbol = says ''symbol'', pprofTrace = says ''trace'', promHandler = says ''metrics''\<rparr>)"

theorem listeners_do_not_overlap_witness:
  "let s = ex_io (ex_request ''GET'' [''debug'', ''pprof'', ''heap''] (Malformed ''EOF'')) (quiet_world ex_db 8) in
     rspBody (ioRsp (snd (NewDebugMux ex_admin 0 s))) = [Raw ''index''] \<and> not_found (snd (apiHandler ex_uuids 0 s))"
proof -
  let ?s = "ex_io (ex_request ''GET'' [''debug'', ''pprof'', ''heap''] (Malformed ''EOF'')) (quiet_world ex_db 8)"
  have "clean_path (rqPath (req_at 0 ?s)) = rqPath (req_at 0 ?s)" by (simp add: clean_path_def)
  note both = listeners_do_not_overlap [where U = ex_uuids and D = ex_admin,
      OF _ _ this prod.collapse [symmetric] prod.collapse [symmetric]]
  have "most_specific (debug_routes ex_admin) (rqPath (req_at 0 ?s)) = Some (debug_routes ex_admin ! 0)"
    by (simp add: most_specific_routes)
  moreover have "dbHandler (debug_routes ex_admin ! 0) a s = (Done, Write (Raw ''index'') s)" for a s
    by (simp add: debug_routes_def ex_admin_def Let_def)
  moreover have "rspBody (ioRsp ?s) = []" by (simp add: ex_io_def fresh_response_def)
  ultimately show ?thesis using both by (simp add: Let_def)
qed

end
