(* ===== verification/Config.thy ===== *)
theory Config
  imports Complex_Main Http "HOL-Library.Log_Nat"
begin

text \<open>
  Package \<open>internal/config\<close>: \<open>Load\<close> and its two readers of environment variables, with
  \<open>time.ParseDuration\<close>, \<open>Duration.String\<close> and the errors of \<open>strconv.Atoi\<close> that they use.
  The environment is a function (\<open>os.Getenv\<close> is empty for an unset variable), an \<open>int\<close> is the
  number itself, which \<open>Atoi\<close> keeps in 64 bits, and a duration counts nanoseconds. The fraction of
  a duration is a product of \<open>float64\<close> numbers, rounded as IEEE 754 prescribes.
\<close>

section \<open>Durations\<close>

type_synonym duration = int

definition Second :: duration where "Second = 1000000000"
definition Minute :: duration where "Minute = 60 * Second"
definition Hour :: duration where "Hour = 60 * Minute"

lemmas duration_defs = Hour_def Minute_def Second_def

text \<open>The greek letter of the microseconds, in UTF-8: the micro sign and the letter mu.\<close>

definition unit_map :: "string \<Rightarrow> nat option" where
  "unit_map u =
     (if u = ''ns'' then Some 1
      else if u = ''us'' \<or> u = [char_of (0xC2 :: nat), char_of (0xB5 :: nat), CHR ''s'']
             \<or> u = [char_of (0xCE :: nat), char_of (0xBC :: nat), CHR ''s''] then Some 1000
      else if u = ''ms'' then Some 1000000
      else if u = ''s'' then Some 1000000000
      else if u = ''m'' then Some 60000000000
      else if u = ''h'' then Some 3600000000000
      else None)"

text \<open>\<open>leadingInt\<close>: the value of the leading digits, unless it passes \<open>2 ^ 63\<close>.\<close>

definition leadingInt :: "string \<Rightarrow> (nat \<times> string) option" where
  "leadingInt s =
     (let v = dec_val (takeWhile is_digit s)
      in if v > 2 ^ 63 then None else Some (v, dropWhile is_digit s))"

text \<open>
  \<open>float64\<close>: the nearest number with 53 significant bits, ties to the even one. The exponent is not
  bounded. The library's is, but only a scale above \<open>10 ^ 40\<close> comes near the bound, and the fraction
  is then below one nanosecond, which counts as none, with either exponent.
\<close>

definition round_half_even :: "rat \<Rightarrow> int" where
  "round_half_even x =
     (let n = \<lfloor>x\<rfloor>; d = x - of_int n
      in if d < 1 / 2 \<or> d = 1 / 2 \<and> even n then n else n + 1)"

definition binary_exponent :: "rat \<Rightarrow> int" where
  "binary_exponent x =
     (let (p, q) = quotient_of x;
          e = int (floorlog 2 (nat p)) - int (floorlog 2 (nat q))
      in if 2 powi e \<le> x then e else e - 1)"

definition float64 :: "rat \<Rightarrow> rat" where
  "float64 x =
     (if x \<le> 0 then 0
      else let ulp = 2 powi (binary_exponent x - 52) in of_int (round_half_even (x / ulp)) * ulp)"

lemma float64_0 [simp]: "float64 0 = 0"
  by (simp add: float64_def)

text \<open>\<open>leadingFraction\<close>: digits are taken as long as the value fits.\<close>

fun fraction_digits :: "nat \<Rightarrow> rat \<Rightarrow> string \<Rightarrow> nat \<times> rat" where
  "fraction_digits x scale [] = (x, scale)"
| "fraction_digits x scale (c # cs) =
     (if x > (2 ^ 63 - 1) div 10 \<or> x * 10 + digit_val c > 2 ^ 63 then (x, scale)
      else fraction_digits (x * 10 + digit_val c) (float64 (scale * 10)) cs)"

definition unit_char :: "char \<Rightarrow> bool" where
  "unit_char c \<longleftrightarrow> c \<noteq> CHR ''.'' \<and> \<not> is_digit c"

definition invalid_duration :: "string \<Rightarrow> error" where
  "invalid_duration orig = Errorf (''time: invalid duration '' @ quote orig)"

text \<open>One number with its unit: its value in nanoseconds and the rest of the text.\<close>

definition duration_item :: "string \<Rightarrow> string \<Rightarrow> error + nat \<times> string" where
  "duration_item orig s =
     (if s = [] \<or> \<not> (hd s = CHR ''.'' \<or> is_digit (hd s)) then Inl (invalid_duration orig)
      else case leadingInt s of
        None \<Rightarrow> Inl (invalid_duration orig)
      | Some (v, s1) \<Rightarrow>
          let point = (s1 \<noteq> [] \<and> hd s1 = CHR ''.'');
              ds = (if point then takeWhile is_digit (tl s1) else []);
              s2 = (if point then dropWhile is_digit (tl s1) else s1);
              (f, scale) = fraction_digits 0 1 ds;
              u = takeWhile unit_char s2
          in if length s1 = length s \<and> ds = [] then Inl (invalid_duration orig)
             else if u = [] then Inl (Errorf (''time: missing unit in duration '' @ quote orig))
             else case unit_map u of
               None \<Rightarrow> Inl (Errorf (''time: unknown unit '' @ quote u @ '' in duration '' @ quote orig))
             | Some unit \<Rightarrow>
                 if v > 2 ^ 63 div unit then Inl (invalid_duration orig)
                 else let w = v * unit + nat \<lfloor>float64 (float64 (of_nat f) * float64 (of_nat unit / scale))\<rfloor>
                      in if w > 2 ^ 63 then Inl (invalid_duration orig)
                         else Inr (w, dropWhile unit_char s2))"

lemma duration_item_shorter:
  assumes "duration_item orig s = Inr (w, r)"
  shows "length r < length s"
proof -
  have shorter: "length (dropWhile P xs) \<le> length xs" for P and xs :: string
    by (induction xs) auto
  have strict: "takeWhile P xs \<noteq> [] \<Longrightarrow> length (dropWhile P xs) < length xs" for P and xs :: string
    using takeWhile_dropWhile_id [of P xs] by (metis length_append length_greater_0_conv less_add_same_cancel2)
  obtain v s1 where s1: "leadingInt s = Some (v, s1)"
    using assms by (auto simp: duration_item_def split: if_splits option.splits)
  then have le: "length s1 \<le> length s"
    using shorter by (auto simp: leadingInt_def Let_def split: if_splits)
  define s2 where "s2 = (if s1 \<noteq> [] \<and> hd s1 = CHR ''.'' then dropWhile is_digit (tl s1) else s1)"
  have "length s2 \<le> length s1"
    using shorter [of is_digit "tl s1"] by (auto simp: s2_def)
  moreover have "takeWhile unit_char s2 \<noteq> [] \<and> r = dropWhile unit_char s2"
    using assms s1 by (auto simp: duration_item_def s2_def Let_def split: if_splits option.splits prod.splits)
  ultimately show ?thesis
    using strict [of unit_char s2] le by auto
qed

function duration_items :: "string \<Rightarrow> string \<Rightarrow> nat \<Rightarrow> error + nat" where
  "duration_items orig s d =
     (if s = [] then Inr d
      else case duration_item orig s of
        Inl e \<Rightarrow> Inl e
      | Inr (w, r) \<Rightarrow> if d + w > 2 ^ 63 then Inl (invalid_duration orig) else duration_items orig r (d + w))"
  by auto
termination
  by (relation "measure (\<lambda>(orig, s, d). length s)") (auto dest: duration_item_shorter)

declare duration_items.simps [simp del]

definition ParseDuration :: "string \<Rightarrow> error + duration" where
  "ParseDuration orig =
     (let neg = (orig \<noteq> [] \<and> hd orig = CHR ''-'');
          s = (if orig \<noteq> [] \<and> (hd orig = CHR ''-'' \<or> hd orig = CHR ''+'') then tl orig else orig)
      in if s = ''0'' then Inr 0
         else if s = [] then Inl (invalid_duration orig)
         else case duration_items orig s 0 of
           Inl e \<Rightarrow> Inl e
         | Inr d \<Rightarrow>
             if neg then Inr (- int d)
             else if d > 2 ^ 63 - 1 then Inl (invalid_duration orig)
             else Inr (int d))"

text \<open>\<open>Duration.String\<close>.\<close>

definition frac_text :: "nat \<Rightarrow> nat \<Rightarrow> string" where
  "frac_text prec v = (let f = trim_zeros (pad prec v) in if f = [] then [] else CHR ''.'' # f)"

definition small_text :: "nat \<Rightarrow> nat \<Rightarrow> string" where
  "small_text u prec = show_nat (u div 10 ^ prec) @ frac_text prec (u mod 10 ^ prec)"

definition Duration_String :: "duration \<Rightarrow> string" where
  "Duration_String d =
     (let u = nat \<bar>d\<bar>;
          s = u div 1000000000;
          body =
            (if u = 0 then ''0s''
             else if u < 1000 then small_text u 0 @ ''ns''
             else if u < 1000000 then small_text u 3 @ [char_of (0xC2 :: nat), char_of (0xB5 :: nat)] @ ''s''
             else if u < 1000000000 then small_text u 6 @ ''ms''
             else (if 3600 \<le> s then show_nat (s div 3600) @ ''h'' else []) @
                  (if 60 \<le> s then show_nat (s div 60 mod 60) @ ''m'' else []) @
                  show_nat (s mod 60) @ frac_text 9 (u mod 1000000000) @ ''s'')
      in if d < 0 then CHR ''-'' # body else body)"

section \<open>Configuration\<close>

record Config =
  DatabaseURL :: string
  HTTPAddr :: string
  DebugAddr :: string
  DBMaxOpenConns :: int
  DBMaxIdleConns :: int
  DBConnMaxLifetime :: duration
  DBConnMaxIdleTime :: duration

definition DefaultDBMaxOpenConns :: int where "DefaultDBMaxOpenConns = 25"
definition DefaultDBMaxIdleConns :: int where "DefaultDBMaxIdleConns = 5"
definition DefaultDBConnMaxLifetime :: duration where "DefaultDBConnMaxLifetime = 5 * Minute"
definition DefaultDBConnMaxIdleTime :: duration where "DefaultDBConnMaxIdleTime = 1 * Minute"

lemmas default_defs = DefaultDBMaxOpenConns_def DefaultDBMaxIdleConns_def
  DefaultDBConnMaxLifetime_def DefaultDBConnMaxIdleTime_def

text \<open>The error of \<open>strconv.Atoi\<close>: bad syntax, or a value outside of 64 bits.\<close>

definition Atoi_error :: "string \<Rightarrow> error" where
  "Atoi_error s =
     (let ds = (if s \<noteq> [] \<and> (hd s = CHR ''-'' \<or> hd s = CHR ''+'') then tl s else s)
      in Errorf (''strconv.Atoi: parsing '' @ quote s @ '': '' @
           (if ds = [] \<or> \<not> list_all is_digit ds then ''invalid syntax'' else ''value out of range'')))"

type_synonym environ = "string \<Rightarrow> string"

definition envInt :: "environ \<Rightarrow> string \<Rightarrow> int \<Rightarrow> error + int" where
  "envInt Getenv key dflt =
     (let s = Getenv key in
      if s = '''' then Inr dflt
      else case Atoi s of
        None \<Rightarrow> Inl (Wrapf (key @ '': '') (Atoi_error s) '''')
      | Some n \<Rightarrow>
          if n \<le> 0 then Inl (Errorf (key @ '' must be positive, got '' @ Itoa n)) else Inr n)"

definition envDuration :: "environ \<Rightarrow> string \<Rightarrow> duration \<Rightarrow> error + duration" where
  "envDuration Getenv key dflt =
     (let s = Getenv key in
      if s = '''' then Inr dflt
      else case ParseDuration s of
        Inl err \<Rightarrow> Inl (Wrapf (key @ '': '') err '''')
      | Inr d \<Rightarrow>
          if d \<le> 0 then Inl (Errorf (key @ '' must be positive, got '' @ Duration_String d)) else Inr d)"

text \<open>Go's \<open>if err != nil { return Config{}, err }\<close>.\<close>

definition try_sum :: "'e + 'a \<Rightarrow> ('a \<Rightarrow> 'e + 'b) \<Rightarrow> 'e + 'b" where
  "try_sum r k = (case r of Inl e \<Rightarrow> Inl e | Inr x \<Rightarrow> k x)"

definition Load :: "environ \<Rightarrow> error + Config" where
  "Load Getenv =
     (let dbURL = Getenv ''DATABASE_URL'' in
      if dbURL = '''' then Inl (Errorf ''DATABASE_URL is required'')
      else
        let addr = (if Getenv ''HTTP_ADDR'' = '''' then '':8080'' else Getenv ''HTTP_ADDR'');
            debugAddr = Getenv ''DEBUG_ADDR'' in
        try_sum (envInt Getenv ''DB_MAX_OPEN_CONNS'' DefaultDBMaxOpenConns) (\<lambda>maxOpen.
        try_sum (envInt Getenv ''DB_MAX_IDLE_CONNS'' DefaultDBMaxIdleConns) (\<lambda>maxIdle.
        try_sum (envDuration Getenv ''DB_CONN_MAX_LIFETIME'' DefaultDBConnMaxLifetime) (\<lambda>maxLife.
        try_sum (envDuration Getenv ''DB_CONN_MAX_IDLE_TIME'' DefaultDBConnMaxIdleTime) (\<lambda>maxIdleTime.
        Inr \<lparr>DatabaseURL = dbURL, HTTPAddr = addr, DebugAddr = debugAddr,
             DBMaxOpenConns = maxOpen, DBMaxIdleConns = maxIdle,
             DBConnMaxLifetime = maxLife, DBConnMaxIdleTime = maxIdleTime\<rparr>)))))"


section \<open>Properties\<close>

lemma duration_items_bound: "duration_items orig s d = Inr r \<Longrightarrow> d \<le> 2 ^ 63 \<Longrightarrow> r \<le> 2 ^ 63"
proof (induction orig s d rule: duration_items.induct)
  case (1 orig s d)
  then show ?case
    by (subst (asm) duration_items.simps [of orig s d]) (auto split: if_splits sum.splits)
qed

lemma ParseDuration_range:
  assumes "ParseDuration s = Inr d"
  shows "- (2 ^ 63) \<le> d" "d < 2 ^ 63"
  using assms duration_items_bound
  by (fastforce simp: ParseDuration_def Let_def split: if_splits sum.splits)+

lemma Atoi_range: "Atoi s = Some n \<Longrightarrow> - (2 ^ 63) \<le> n \<and> n < 2 ^ 63"
  by (auto simp: Atoi_def Let_def split: if_splits)

text \<open>A variable that is unset takes the default; one that is set must parse to a positive value.\<close>

definition setting :: "(string \<Rightarrow> int option) \<Rightarrow> int \<Rightarrow> string \<Rightarrow> int \<Rightarrow> bool" where
  "setting parse dflt s x \<longleftrightarrow> (if s = '''' then x = dflt else parse s = Some x \<and> 0 < x)"

definition parsed_duration :: "string \<Rightarrow> int option" where
  "parsed_duration s = (case ParseDuration s of Inl e \<Rightarrow> None | Inr d \<Rightarrow> Some d)"

lemma envInt_Inr: "envInt Getenv key dflt = Inr n \<longleftrightarrow> setting Atoi dflt (Getenv key) n"
  by (auto simp: envInt_def setting_def Let_def split: option.splits)

lemma envDuration_Inr: "envDuration Getenv key dflt = Inr d \<longleftrightarrow> setting parsed_duration dflt (Getenv key) d"
  by (auto simp: envDuration_def setting_def parsed_duration_def Let_def split: sum.splits)

lemma try_sum_Inr: "try_sum r k = Inr y \<longleftrightarrow> (\<exists>x. r = Inr x \<and> k x = Inr y)"
  by (auto simp: try_sum_def split: sum.splits)


text \<open>
  Every number of a loaded configuration is positive and fits the machine type it is stored
  in, so no pool limit is ever zero (which \<open>database/sql\<close> reads as unlimited) or negative.
\<close>

theorem load_bounds:
  assumes "Load Getenv = Inr cfg"
  shows "0 < DBMaxOpenConns cfg \<and> DBMaxOpenConns cfg < 2 ^ 63 \<and>
    0 < DBMaxIdleConns cfg \<and> DBMaxIdleConns cfg < 2 ^ 63 \<and>
    0 < DBConnMaxLifetime cfg \<and> DBConnMaxLifetime cfg < 2 ^ 63 \<and>
    0 < DBConnMaxIdleTime cfg \<and> DBConnMaxIdleTime cfg < 2 ^ 63"
proof -
  have int: "0 < n \<and> n < 2 ^ 63" if "setting Atoi d s n" "0 < d" "d < 2 ^ 63" for d s n
    using that Atoi_range [of s n] by (auto simp: setting_def split: if_splits)
  have dur: "0 < n \<and> n < 2 ^ 63" if "setting parsed_duration d s n" "0 < d" "d < 2 ^ 63" for d s n
    using that ParseDuration_range(2) [of s n] by (auto simp: setting_def parsed_duration_def split: if_splits sum.splits)
  obtain a b c e where "envInt Getenv ''DB_MAX_OPEN_CONNS'' 25 = Inr a" "envInt Getenv ''DB_MAX_IDLE_CONNS'' 5 = Inr b"
     "envDuration Getenv ''DB_CONN_MAX_LIFETIME'' (5 * 60 * 1000000000) = Inr c"
     "envDuration Getenv ''DB_CONN_MAX_IDLE_TIME'' (60 * 1000000000) = Inr e"
     "DBMaxOpenConns cfg = a" "DBMaxIdleConns cfg = b" "DBConnMaxLifetime cfg = c" "DBConnMaxIdleTime cfg = e"
    using assms by (auto simp: Load_def Let_def try_sum_Inr default_defs duration_defs split: if_splits)
  then show ?thesis
    using int [of 25 _ a] int [of 5 _ b] dur [of "5 * 60 * 1000000000" _ c] dur [of "60 * 1000000000" _ e]
    by (auto simp: envInt_Inr envDuration_Inr)
qed

definition ex_env :: environ where
  "ex_env = (\<lambda>_. '''')(''DATABASE_URL'' := ''postgres://wallet'', ''DB_CONN_MAX_LIFETIME'' := ''1m30s'')"

theorem load_bounds_witness:
  "\<exists>cfg. Load ex_env = Inr cfg \<and> DBConnMaxLifetime cfg = 90000000000 \<and> 0 < DBMaxOpenConns cfg"
proof -
  have "ParseDuration ''1m30s'' = Inr 90000000000"
    by (simp add: ParseDuration_def duration_items.simps duration_item_def leadingInt_def unit_map_def
        unit_char_def is_digit_def dec_val_def digit_val_def)
  then obtain cfg where "Load ex_env = Inr cfg" "DBConnMaxLifetime cfg = 90000000000"
    by (simp add: Load_def ex_env_def envInt_def envDuration_def try_sum_def)
  with load_bounds [of ex_env cfg] show ?thesis by auto
qed

end
