(* ===== verification/Net.thy ===== *)
theory Net
  imports Strconv
begin

text \<open>
  \<open>isLoopbackAddr\<close> of \<open>cmd/server\<close>, which decides whether the debug listener is announced with a
  warning, and the parts of package \<open>net\<close> it uses: splitting a listen address, parsing an IP
  address and telling whether it is loopback. An IP address is its list of bytes.
\<close>

section \<open>Loopback addresses\<close>

text \<open>\<open>net.SplitHostPort\<close>; its errors are only compared with nil.\<close>

definition index_of :: "char \<Rightarrow> string \<Rightarrow> nat option" where
  "index_of c s = (if c \<in> set s then Some (length (takeWhile (\<lambda>x. x \<noteq> c) s)) else None)"

definition last_index_of :: "char \<Rightarrow> string \<Rightarrow> nat option" where
  "last_index_of c s =
     (if c \<in> set s then Some (length s - 1 - length (takeWhile (\<lambda>x. x \<noteq> c) (rev s))) else None)"

definition SplitHostPort :: "string \<Rightarrow> (string \<times> string) option" where
  "SplitHostPort hp =
     (case last_index_of CHR '':'' hp of
        None \<Rightarrow> None
      | Some i \<Rightarrow>
          let port = drop (Suc i) hp in
          if hp \<noteq> [] \<and> hd hp = CHR ''['' then
            (case index_of CHR '']'' hp of
               None \<Rightarrow> None
             | Some e \<Rightarrow>
                 if Suc e \<noteq> i then None
                 else if CHR ''['' \<in> set (drop 1 hp) \<or> CHR '']'' \<in> set (drop (Suc e) hp) then None
                 else Some (take (e - 1) (drop 1 hp), port))
          else if CHR '':'' \<in> set (take i hp) then None
          else if CHR ''['' \<in> set hp \<or> CHR '']'' \<in> set hp then None
          else Some (take i hp, port))"

text \<open>Dotted IPv4: four fields of one to three digits up to 255, without leading zeros.\<close>

fun split_on :: "char \<Rightarrow> string \<Rightarrow> string list" where
  "split_on c [] = [[]]"
| "split_on c (x # xs) =
     (if x = c then [] # split_on c xs
      else case split_on c xs of [] \<Rightarrow> [[x]] | f # fs \<Rightarrow> (x # f) # fs)"

definition octet :: "string \<Rightarrow> nat option" where
  "octet s =
     (if s = [] \<or> \<not> list_all is_digit s \<or> (length s > 1 \<and> hd s = CHR ''0'') \<or> dec_val s > 255
      then None else Some (dec_val s))"

definition parse_ipv4 :: "string \<Rightarrow> nat list option" where
  "parse_ipv4 s =
     (let fs = split_on CHR ''.'' s
      in if length fs = 4 \<and> list_all (\<lambda>f. octet f \<noteq> None) fs then Some (map (\<lambda>f. the (octet f)) fs)
         else None)"

text \<open>IPv6: groups of hexadecimal digits, one \<open>::\<close>, and dotted IPv4 at the end.\<close>

definition hex_val :: "char \<Rightarrow> nat option" where
  "hex_val c =
     (let n = of_char c :: nat in
      if 48 \<le> n \<and> n \<le> 57 then Some (n - 48)
      else if 97 \<le> n \<and> n \<le> 102 then Some (n - 87)
      else if 65 \<le> n \<and> n \<le> 70 then Some (n - 55) else None)"

definition is_hex :: "char \<Rightarrow> bool" where
  "is_hex c \<longleftrightarrow> hex_val c \<noteq> None"

definition hex_group :: "string \<Rightarrow> nat" where
  "hex_group s = foldl (\<lambda>a c. 16 * a + the (hex_val c)) 0 s"

text \<open>
  The loop over at most \<open>k\<close> more groups: the bytes so far and where the ellipsis stood; the
  result has the whole text consumed.
\<close>

fun ipv6_groups :: "nat \<Rightarrow> nat list \<Rightarrow> nat option \<Rightarrow> string \<Rightarrow> (nat list \<times> nat option) option" where
  "ipv6_groups 0 ip ell s = (if s = [] then Some (ip, ell) else None)"
| "ipv6_groups (Suc k) ip ell s =
     (let h = takeWhile is_hex s; r = dropWhile is_hex s in
      if h = [] \<or> length h > 4 then None
      else if r \<noteq> [] \<and> hd r = CHR ''.'' then
        (if ell = None \<and> length ip \<noteq> 12 \<or> length ip + 4 > 16 then None
         else map_option (\<lambda>v4. (ip @ v4, ell)) (parse_ipv4 s))
      else
        let v = hex_group h; ip' = ip @ [v div 256, v mod 256] in
        if r = [] then Some (ip', ell)
        else if hd r \<noteq> CHR '':'' \<or> length r = 1 then None
        else if hd (tl r) = CHR '':'' then
          (if ell \<noteq> None then None
           else if tl (tl r) = [] then Some (ip', Some (length ip'))
           else ipv6_groups k ip' (Some (length ip')) (tl (tl r)))
        else ipv6_groups k ip' ell (tl r))"

definition parse_ipv6 :: "string \<Rightarrow> nat list option" where
  "parse_ipv6 s =
     (let leading = (take 2 s = ''::'') in
      if leading \<and> length s = 2 then Some (replicate 16 0)
      else case ipv6_groups 8 [] (if leading then Some 0 else None) (if leading then drop 2 s else s) of
        None \<Rightarrow> None
      | Some (ip, None) \<Rightarrow> if length ip = 16 then Some ip else None
      | Some (ip, Some e) \<Rightarrow>
          if length ip < 16 then Some (take e ip @ replicate (16 - length ip) 0 @ drop e ip) else None)"

text \<open>\<open>net.ParseIP\<close>: the first dot or colon decides; a zone is not accepted.\<close>

definition ParseIP :: "string \<Rightarrow> nat list option" where
  "ParseIP s =
     (if CHR ''%'' \<in> set s then None
      else case List.find (\<lambda>c. c = CHR ''.'' \<or> c = CHR '':'') s of
        None \<Rightarrow> None
      | Some c \<Rightarrow> if c = CHR ''.'' then parse_ipv4 s else parse_ipv6 s)"

text \<open>\<open>IP.IsLoopback\<close>: 127.0.0.0/8, also when mapped into IPv6, and \<open>::1\<close>.\<close>

definition IsLoopback :: "nat list \<Rightarrow> bool" where
  "IsLoopback ip \<longleftrightarrow>
     (if length ip = 4 then hd ip = 127
      else if take 12 ip = replicate 10 0 @ [255, 255] then ip ! 12 = 127
      else ip = replicate 15 0 @ [1])"

definition isLoopbackAddr :: "string \<Rightarrow> bool" where
  "isLoopbackAddr addr =
     (case SplitHostPort addr of
        None \<Rightarrow> False
      | Some (host, port) \<Rightarrow>
          if host = ''localhost'' \<or> host = ''127.0.0.1'' \<or> host = ''::1'' then True
          else case ParseIP host of None \<Rightarrow> False | Some ip \<Rightarrow> IsLoopback ip)"


section \<open>Which debug addresses are loopback\<close>

lemma digits_show_nat: "c \<in> set (show_nat n) \<Longrightarrow> is_digit c"
  using show_nat_digits [of n] by (auto simp: list_all_iff)

lemma digit_not: "is_digit c \<Longrightarrow> c \<noteq> CHR '':'' \<and> c \<noteq> CHR ''.'' \<and> c \<noteq> CHR ''['' \<and> c \<noteq> CHR '']'' \<and> c \<noteq> CHR ''%''"
  by (auto simp: is_digit_def)

lemma split_on_append: "c \<notin> set x \<Longrightarrow> split_on c (x @ c # y) = x # split_on c y"
  by (induction x) auto

lemma split_on_single: "c \<notin> set x \<Longrightarrow> split_on c x = [x]"
  by (induction x) auto

definition dotted :: "nat \<Rightarrow> nat \<Rightarrow> nat \<Rightarrow> nat \<Rightarrow> string" where
  "dotted a b c d = show_nat a @ ''.'' @ show_nat b @ ''.'' @ show_nat c @ ''.'' @ show_nat d"

lemma split_on_dotted: "split_on CHR ''.'' (dotted a b c d) = [show_nat a, show_nat b, show_nat c, show_nat d]"
proof -
  have "CHR ''.'' \<notin> set (show_nat n)" for n
    using digits_show_nat digit_not by blast
  then show ?thesis by (simp add: dotted_def split_on_append split_on_single)
qed

lemma octet_show_nat: "n < 256 \<Longrightarrow> octet (show_nat n) = Some n"
proof -
  have "hd (show_nat n) \<noteq> CHR ''0'' \<or> length (show_nat n) = 1" for n
  proof (induction n rule: show_nat.induct)
    case (1 n)
    show ?case
    proof (cases "n < 10")
      case True
      then show ?thesis by (subst (2) show_nat.simps) simp
    next
      case False
      have "hd (show_nat (n div 10)) \<noteq> CHR ''0''"
      proof (cases "n div 10 < 10")
        case True
        have "show_nat (n div 10) = [digit_char (n div 10)]"
          by (subst show_nat.simps) (simp add: True)
        moreover have "digit_char (n div 10) \<noteq> CHR ''0''"
        proof
          assume "digit_char (n div 10) = CHR ''0''"
          then have "(of_char (digit_char (n div 10)) :: nat) = 48" by simp
          then show False using False True by simp
        qed
        ultimately show ?thesis by simp
      next
        case big: False
        have "length (show_nat (n div 10)) \<noteq> 1"
          by (subst show_nat.simps) (use big in simp)
        then show ?thesis using 1 False by auto
      qed
      then show ?thesis
        using False by (subst show_nat.simps) (simp add: hd_append)
    qed
  qed
  then show "n < 256 \<Longrightarrow> octet (show_nat n) = Some n"
    using show_nat_digits [of n] by (fastforce simp: octet_def)
qed

lemma dotted_chars: "c \<in> set (dotted a b c' d) \<Longrightarrow> c = CHR ''.'' \<or> is_digit c"
  using digits_show_nat by (auto simp: dotted_def)

lemma find_first: "\<forall>c\<in>set s. P c \<longrightarrow> c = x \<Longrightarrow> \<exists>c\<in>set s. P c \<Longrightarrow> List.find P s = Some x"
  by (induction s) auto

lemma ParseIP_dotted:
  assumes "a < 256" "b < 256" "c < 256" "d < 256"
  shows "ParseIP (dotted a b c d) = Some [a, b, c, d]"
proof -
  have "List.find (\<lambda>x. x = CHR ''.'' \<or> x = CHR '':'') (dotted a b c d) = Some CHR ''.''"
    by (rule find_first) (use dotted_chars digit_not in \<open>fastforce simp: dotted_def\<close>)+
  moreover have "CHR ''%'' \<notin> set (dotted a b c d)"
    using dotted_chars digit_not by fastforce
  ultimately show ?thesis
    using assms by (simp add: ParseIP_def parse_ipv4_def split_on_dotted octet_show_nat)
qed

lemma SplitHostPort_plain:
  assumes "set h \<inter> {CHR '':'', CHR ''['', CHR '']''} = {}" "set p \<inter> {CHR '':'', CHR ''['', CHR '']''} = {}"
  shows "SplitHostPort (h @ '':'' @ p) = Some (h, p)"
proof -
  have "takeWhile (\<lambda>x. x \<noteq> CHR '':'') (rev (h @ '':'' @ p)) = rev p"
    using assms(2) by (simp add: takeWhile_append takeWhile_tail)
  then have "last_index_of CHR '':'' (h @ '':'' @ p) = Some (length h)"
    by (simp add: last_index_of_def)
  moreover have "h @ '':'' @ p \<noteq> []" "hd (h @ '':'' @ p) \<noteq> CHR ''[''"
    using assms(1) by (cases h; auto)+
  ultimately show ?thesis
    using assms by (auto simp: SplitHostPort_def Let_def)
qed

text \<open>
  C36: the warning is right for every IPv4 address. A dotted address with a port is loopback
  exactly when it lies in 127.0.0.0/8; \<open>localhost\<close> is loopback; and an address without a host,
  which binds every interface, is not.
\<close>

theorem loopback_addresses:
  assumes "set port \<inter> {CHR '':'', CHR ''['', CHR '']''} = {}"
    and "a < 256" and "b < 256" and "c < 256" and "d < 256"
  shows "(isLoopbackAddr (dotted a b c d @ '':'' @ port) \<longleftrightarrow> a = 127) \<and>
    isLoopbackAddr (''localhost:'' @ port) \<and> \<not> isLoopbackAddr ('':'' @ port)"
proof -
  have "set (dotted a b c d) \<inter> {CHR '':'', CHR ''['', CHR '']''} = {}"
    using dotted_chars [of _ a b c d] digit_not by fastforce
  note s = SplitHostPort_plain [OF this assms(1)]
    SplitHostPort_plain [of "''localhost''", OF _ assms(1)] SplitHostPort_plain [of "[]", OF _ assms(1)]
  have "dotted a b c d \<noteq> ''localhost''" "dotted a b c d \<noteq> ''::1''"
    using dotted_chars [of "CHR ''l''" a b c d] dotted_chars [of "CHR '':''" a b c d] by (auto simp: is_digit_def)
  moreover have "a = 127" if "dotted a b c d = ''127.0.0.1''"
  proof -
    have "split_on CHR ''.'' ''127.0.0.1'' = [show_nat a, show_nat b, show_nat c, show_nat d]"
      using split_on_dotted [of a b c d] by (simp only: that)
    then have "show_nat a = ''127''" by simp
    then have "dec_val (show_nat a) = dec_val ''127''" by simp
    also have "\<dots> = 127" by (simp add: dec_val_def digit_val_def)
    finally show ?thesis by simp
  qed
  ultimately show ?thesis
    using s ParseIP_dotted [OF assms(2-5)]
    by (auto simp: isLoopbackAddr_def IsLoopback_def ParseIP_def)
qed

theorem loopback_addresses_witness: "isLoopbackAddr (dotted 127 0 0 9 @ '':'' @ ''6060'')"
  using loopback_addresses [of "''6060''" 127 0 0 9] by simp

end
