(* ===== verification/Server.thy ===== *)
theory Server
  imports Middleware Config Net
begin

text \<open>
  The process around the API: \<open>internal/db\<close> (opening the pool, migrating), and \<open>run\<close> and
  \<open>main\<close> of \<open>cmd/server\<close>. What the
  database driver, the migration runner, the tracing SDK and the listeners do is an argument
  (\<open>system\<close>) or a step of the environment; what the process does is recorded as a list of events.
\<close>

section \<open>Opening the database\<close>

record PoolConfig =
  MaxOpenConns :: int
  MaxIdleConns :: int
  ConnMaxLifetime :: duration
  ConnMaxIdleTime :: duration

text \<open>
  What each library call of the start-up returns: \<open>sql.Open\<close>, \<open>Ping\<close>, the three constructors of
  the migration runner, \<open>Up\<close> (\<open>NoChange\<close> is its sentinel), the span exporter and the resource of
  the tracing set-up, and what closing the listener of the API server returns to its \<open>Shutdown\<close>.
\<close>

datatype up_result = Applied | NoChange | UpFailed error

record system =
  sysOpen :: "string \<Rightarrow> error option"
  sysPing :: "error option"
  sysIofs :: "error option"
  sysDriver :: "error option"
  sysMigrator :: "error option"
  sysUp :: up_result
  sysExporter :: "error option"
  sysResource :: "error option"
  sysShutdownApi :: "error option"

datatype event =
    TracingUp
  | SetMaxOpenConns int
  | SetMaxIdleConns int
  | SetConnMaxLifetime duration
  | SetConnMaxIdleTime duration
  | Pinged
  | DatabaseClosed
  | Migrated
  | WarnDebugExposed string
  | DebugServing string
  | DebugFailed error
  | ApiServing string
  | ShutdownSignal
  | ShutdownDebug
  | ShutdownApi
  | TracingFlushed
  | Exit int

type_synonym 'a effect = "(error + 'a) \<times> event list"

definition when_positive :: "int \<Rightarrow> (int \<Rightarrow> event) \<Rightarrow> event list" where
  "when_positive n ev = (if n > 0 then [ev n] else [])"

definition OpenWithPool :: "system \<Rightarrow> string \<Rightarrow> PoolConfig \<Rightarrow> unit effect" where
  "OpenWithPool sys dsn pool =
     (case sysOpen sys dsn of
        Some err \<Rightarrow> (Inl (Wrapf ''sql.Open: '' err ''''), [])
      | None \<Rightarrow>
          let set = when_positive (MaxOpenConns pool) SetMaxOpenConns
                  @ when_positive (MaxIdleConns pool) SetMaxIdleConns
                  @ when_positive (ConnMaxLifetime pool) SetConnMaxLifetime
                  @ when_positive (ConnMaxIdleTime pool) SetConnMaxIdleTime
          in case sysPing sys of
               Some err \<Rightarrow> (Inl (Wrapf ''db.Ping: '' err ''''), set @ [DatabaseClosed])
             | None \<Rightarrow> (Inr (), set @ [Pinged]))"

definition Open :: "system \<Rightarrow> string \<Rightarrow> unit effect" where
  "Open sys dsn =
     OpenWithPool sys dsn
       \<lparr>MaxOpenConns = 0, MaxIdleConns = 0, ConnMaxLifetime = 0, ConnMaxIdleTime = 0\<rparr>"

definition Migrate :: "system \<Rightarrow> unit effect" where
  "Migrate sys =
     (case sysIofs sys of Some err \<Rightarrow> (Inl (Wrapf ''iofs source: '' err ''''), [])
      | None \<Rightarrow>
     (case sysDriver sys of Some err \<Rightarrow> (Inl (Wrapf ''migrate driver: '' err ''''), [])
      | None \<Rightarrow>
     (case sysMigrator sys of Some err \<Rightarrow> (Inl (Wrapf ''migrate new: '' err ''''), [])
      | None \<Rightarrow>
     (case sysUp sys of
        UpFailed err \<Rightarrow> (Inl (Wrapf ''migrate up: '' err ''''), [])
      | Applied \<Rightarrow> (Inr (), [Migrated])
      | NoChange \<Rightarrow> (Inr (), [])))))"

section \<open>Tracing\<close>

text \<open>\<open>tracing.Setup\<close>: the provider is registered when both the exporter and the resource are there.\<close>

definition Setup :: "system \<Rightarrow> unit effect" where
  "Setup sys =
     (case sysExporter sys of Some err \<Rightarrow> (Inl (Wrapf ''stdouttrace.New: '' err ''''), [])
      | None \<Rightarrow>
     (case sysResource sys of Some err \<Rightarrow> (Inl (Wrapf ''resource.New: '' err ''''), [])
      | None \<Rightarrow> (Inr (), [TracingUp])))"

section \<open>The life of the process\<close>

text \<open>
  \<open>boot\<close> is \<open>run\<close> up to its first goroutine: tracing, database, migrations, with the deferred
  calls (last registered first) when it returns early.
\<close>

definition pool_of :: "Config \<Rightarrow> PoolConfig" where
  "pool_of cfg =
     \<lparr>MaxOpenConns = DBMaxOpenConns cfg, MaxIdleConns = DBMaxIdleConns cfg,
      ConnMaxLifetime = DBConnMaxLifetime cfg, ConnMaxIdleTime = DBConnMaxIdleTime cfg\<rparr>"

definition boot :: "system \<Rightarrow> Config \<Rightarrow> unit effect" where
  "boot sys cfg =
     (case Setup sys of
        (Inl err, ev0) \<Rightarrow> (Inl err, ev0)
      | (Inr _, ev0) \<Rightarrow>
          (case OpenWithPool sys (DatabaseURL cfg) (pool_of cfg) of
             (Inl err, ev) \<Rightarrow> (Inl err, ev0 @ ev @ [TracingFlushed])
           | (Inr _, ev) \<Rightarrow>
               (case Migrate sys of
                  (Inl err, ev2) \<Rightarrow> (Inl err, ev0 @ ev @ ev2 @ [DatabaseClosed, TracingFlushed])
                | (Inr _, ev2) \<Rightarrow> (Inr (), ev0 @ ev @ ev2))))"

text \<open>
  Then three goroutines run: \<open>run\<close> itself, waiting in its select and later draining, and one for
  each listener. \<open>errCh\<close> is the buffer of the error channel, \<open>errClosed\<close> whether it is closed.
\<close>

datatype listener = NotStarted | Listening | Stopping | Closed

datatype pc = Select | DrainDebug | WaitDebug | DrainApi | WaitApi | Finished "error option"

text \<open>
  The clock is in nanoseconds; \<open>deadline\<close> is that of \<open>shutdownCtx\<close>, once \<open>run\<close> has made it.
  \<open>apiConns\<close> and \<open>dbgConns\<close> count the connections of each server that are not idle.
\<close>

record proc =
  pc :: pc
  api :: listener
  dbg :: listener
  apiConns :: nat
  dbgConns :: nat
  errCh :: "error option"
  errClosed :: bool
  cancelled :: bool
  wall :: int
  deadline :: "int option"
  trace :: "event list"

definition debug_events :: "Config \<Rightarrow> event list" where
  "debug_events cfg =
     (if DebugAddr cfg = '''' then []
      else (if isLoopbackAddr (DebugAddr cfg) then [] else [WarnDebugExposed (DebugAddr cfg)])
           @ [DebugServing (DebugAddr cfg)])"

definition serve :: "Config \<Rightarrow> event list \<Rightarrow> proc" where
  "serve cfg ev =
     \<lparr>pc = Select, api = Listening, dbg = (if DebugAddr cfg = '''' then NotStarted else Listening),
      apiConns = 0, dbgConns = 0, errCh = None, errClosed = False, cancelled = False, wall = 0, deadline = None,
      trace = ev @ debug_events cfg @ [ApiServing (HTTPAddr cfg)]\<rparr>"

text \<open>
  Steps of the environment: the signal, a listener that fails, one that was shut down, connections
  that become busy (until their server's \<open>Shutdown\<close> has closed the idle ones) or idle, and time.
\<close>

inductive env_step :: "proc \<Rightarrow> proc \<Rightarrow> bool" where
  signalled: "env_step p (p\<lparr>cancelled := True\<rparr>)"
| api_failed: "api p = Listening \<Longrightarrow> env_step p (p\<lparr>api := Closed, errCh := Some e, errClosed := True\<rparr>)"
| api_closed: "api p = Stopping \<Longrightarrow> env_step p (p\<lparr>api := Closed, errClosed := True\<rparr>)"
| debug_failed: "dbg p = Listening \<Longrightarrow> env_step p (p\<lparr>dbg := Closed, trace := trace p @ [DebugFailed e]\<rparr>)"
| debug_closed: "dbg p = Stopping \<Longrightarrow> env_step p (p\<lparr>dbg := Closed\<rparr>)"
| api_busy: "pc p \<noteq> WaitApi \<Longrightarrow> env_step p (p\<lparr>apiConns := Suc (apiConns p)\<rparr>)"
| api_idle: "apiConns p = Suc n \<Longrightarrow> env_step p (p\<lparr>apiConns := n\<rparr>)"
| debug_busy: "dbg p \<noteq> NotStarted \<Longrightarrow> pc p \<noteq> WaitDebug \<Longrightarrow> env_step p (p\<lparr>dbgConns := Suc (dbgConns p)\<rparr>)"
| debug_idle: "dbgConns p = Suc n \<Longrightarrow> env_step p (p\<lparr>dbgConns := n\<rparr>)"
| elapsed: "0 < dt \<Longrightarrow> env_step p (p\<lparr>wall := wall p + dt\<rparr>)"

text \<open>Returning from \<open>run\<close>: the deferred calls close the database, then flush the spans.\<close>

definition finish :: "error option \<Rightarrow> proc \<Rightarrow> proc" where
  "finish r p = p\<lparr>pc := Finished r, trace := trace p @ [DatabaseClosed, TracingFlushed]\<rparr>"

definition stop :: "listener \<Rightarrow> listener" where
  "stop l = (if l = Listening then Stopping else l)"

definition DeadlineExceeded :: error where
  "DeadlineExceeded = Errorf ''context deadline exceeded''"

definition expired :: "proc \<Rightarrow> bool" where
  "expired p \<longleftrightarrow> (case deadline p of None \<Rightarrow> False | Some d \<Rightarrow> d \<le> wall p)"

text \<open>
  Steps of \<open>run\<close>: the select takes any ready case, then the two shutdowns follow under one context
  with a deadline. \<open>Shutdown\<close> closes the listener at once, with the idle connections, and returns
  when no connection is in use any more, or when the context is done, with the context's error. The
  debug server's result is dropped.
\<close>

inductive main_step :: "system \<Rightarrow> proc \<Rightarrow> proc \<Rightarrow> bool" for sys where
  on_signal: "pc p = Select \<Longrightarrow> cancelled p \<Longrightarrow>
    main_step sys p (p\<lparr>pc := DrainDebug, deadline := Some (wall p + 10 * Second), trace := trace p @ [ShutdownSignal]\<rparr>)"
| on_error: "pc p = Select \<Longrightarrow> errCh p = Some e \<Longrightarrow> main_step sys p (finish (Some e) (p\<lparr>errCh := None\<rparr>))"
| on_closed: "pc p = Select \<Longrightarrow> errCh p = None \<Longrightarrow> errClosed p \<Longrightarrow> main_step sys p (finish None p)"
| no_debug: "pc p = DrainDebug \<Longrightarrow> dbg p = NotStarted \<Longrightarrow> main_step sys p (p\<lparr>pc := DrainApi\<rparr>)"
| drain_debug: "pc p = DrainDebug \<Longrightarrow> dbg p \<noteq> NotStarted \<Longrightarrow>
    main_step sys p (p\<lparr>pc := WaitDebug, dbg := stop (dbg p), trace := trace p @ [ShutdownDebug]\<rparr>)"
| debug_drained: "pc p = WaitDebug \<Longrightarrow> dbgConns p = 0 \<or> expired p \<Longrightarrow> main_step sys p (p\<lparr>pc := DrainApi\<rparr>)"
| drain_api: "pc p = DrainApi \<Longrightarrow>
    main_step sys p (p\<lparr>pc := WaitApi, api := stop (api p), trace := trace p @ [ShutdownApi]\<rparr>)"
| api_drained: "pc p = WaitApi \<Longrightarrow> apiConns p = 0 \<Longrightarrow> main_step sys p (finish (sysShutdownApi sys) p)"
| api_expired: "pc p = WaitApi \<Longrightarrow> expired p \<Longrightarrow> main_step sys p (finish (Some DeadlineExceeded) p)"

inductive_cases env_stepE: "env_step p q"
inductive_cases main_stepE: "main_step sys p q"

text \<open>A path with \<open>n\<close> steps of \<open>run\<close> and any number of environment steps.\<close>

inductive runs :: "system \<Rightarrow> nat \<Rightarrow> proc \<Rightarrow> proc \<Rightarrow> bool" for sys where
  here: "runs sys 0 p p"
| env: "runs sys n p q \<Longrightarrow> env_step q r \<Longrightarrow> runs sys n p r"
| main: "runs sys n p q \<Longrightarrow> main_step sys q r \<Longrightarrow> runs sys (Suc n) p r"


text \<open>
  \<open>main\<close>: the configuration is loaded first, and an error, there or from \<open>run\<close>, is the exit
  status 1. The result is the process in its select, or the events of a start that failed.
\<close>

definition exit_code :: "error option \<Rightarrow> int" where
  "exit_code r = (case r of None \<Rightarrow> 0 | Some err \<Rightarrow> 1)"

definition main :: "system \<Rightarrow> environ \<Rightarrow> event list + proc" where
  "main sys Getenv =
     (case Load Getenv of
        Inl err \<Rightarrow> Inl [Exit 1]
      | Inr cfg \<Rightarrow>
          (case boot sys cfg of
             (Inl err, ev) \<Rightarrow> Inl (ev @ [Exit (exit_code (Some err))])
           | (Inr _, ev) \<Rightarrow> Inr (serve cfg ev)))"

section \<open>The invariant of the life cycle\<close>

text \<open>The events of \<open>run\<close> itself, without those of the debug goroutine.\<close>

definition main_trace :: "proc \<Rightarrow> event list" where
  "main_trace p = filter (\<lambda>e. case e of DebugFailed _ \<Rightarrow> False | _ \<Rightarrow> True) (trace p)"

definition drained :: "system \<Rightarrow> event list \<Rightarrow> event list \<Rightarrow> proc \<Rightarrow> bool" where
  "drained sys t0 sd p \<longleftrightarrow>
     (case pc p of
        Select \<Rightarrow> main_trace p = t0 \<and> api p \<noteq> Stopping \<and> (errClosed p \<longrightarrow> errCh p \<noteq> None)
      | DrainDebug \<Rightarrow> main_trace p = t0 @ [ShutdownSignal]
      | WaitDebug \<Rightarrow> main_trace p = t0 @ [ShutdownSignal] @ sd
      | DrainApi \<Rightarrow> main_trace p = t0 @ [ShutdownSignal] @ sd
      | WaitApi \<Rightarrow> main_trace p = t0 @ [ShutdownSignal] @ sd @ [ShutdownApi]
      | Finished r \<Rightarrow>
          main_trace p = t0 @ [ShutdownSignal] @ sd @ [ShutdownApi, DatabaseClosed, TracingFlushed] \<and>
            (r = sysShutdownApi sys \<or> r = Some DeadlineExceeded \<and> expired p) \<or>
          main_trace p = t0 @ [DatabaseClosed, TracingFlushed] \<and> r \<noteq> None) \<and>
     sd = (if dbg p = NotStarted then [] else [ShutdownDebug])"

lemma drained_env: "env_step p q \<Longrightarrow> drained sys t0 sd p \<Longrightarrow> drained sys t0 sd q"
  by (erule env_stepE) (auto simp: drained_def main_trace_def expired_def split: pc.splits option.splits)

lemma drained_main: "main_step sys p q \<Longrightarrow> drained sys t0 sd p \<Longrightarrow> drained sys t0 sd q"
  by (erule main_stepE) (auto simp: drained_def main_trace_def finish_def stop_def expired_def split: pc.splits option.splits)

lemma drained_runs: "runs sys n p q \<Longrightarrow> drained sys t0 sd p \<Longrightarrow> drained sys t0 sd q"
  by (induction rule: runs.induct) (auto intro: drained_env drained_main)

lemma drained_serve:
  "drained sys (main_trace (serve cfg ev)) (if DebugAddr cfg = '''' then [] else [ShutdownDebug]) (serve cfg ev)"
  by (simp add: drained_def serve_def)

text \<open>
  C33: how the process ends. Whatever the listeners and the signal do, a \<open>run\<close> that returned
  either saw the signal, then shut down the debug server if there is one and after it the API
  server, and returns what that shutdown returned: the outcome of closing its listener or, only
  after the deadline, that the deadline was exceeded; or returns a listener's error, and then neither
  server was shut down. In both cases the database is closed once, after that, and the spans are
  flushed last.
\<close>

theorem run_ends_in_order:
  assumes "runs sys n (serve cfg ev) p" and "pc p = Finished r"
  shows "main_trace p = main_trace (serve cfg ev) @ [ShutdownSignal]
           @ (if DebugAddr cfg = '''' then [] else [ShutdownDebug])
           @ [ShutdownApi, DatabaseClosed, TracingFlushed] \<and>
           (r = sysShutdownApi sys \<or> r = Some DeadlineExceeded \<and> expired p) \<or>
         main_trace p = main_trace (serve cfg ev) @ [DatabaseClosed, TracingFlushed] \<and> (\<exists>e. r = Some e)"
  using drained_runs [OF assms(1) drained_serve] assms(2) by (auto simp: drained_def)

section \<open>Shutdown ends in time\<close>














text \<open>
  The debug server's \<open>Shutdown\<close> comes first and may use up the deadline that the two share, for
  instance on a profile that takes longer; the API server's requests then have no time to end.
\<close>

lemma debug_uses_up_the_deadline:
  assumes "pc p = WaitDebug" and "expired p" and "0 < apiConns p"
  shows "\<exists>q. runs sys 3 p q \<and> wall q = wall p \<and> apiConns q = apiConns p \<and> pc q = Finished (Some DeadlineExceeded)"
proof -
  let ?a = "p\<lparr>pc := DrainApi\<rparr>"
  let ?b = "?a\<lparr>pc := WaitApi, api := stop (api ?a), trace := trace ?a @ [ShutdownApi]\<rparr>"
  have "runs sys 1 p ?a"
    using runs.main [OF runs.here debug_drained] assms by fastforce
  then have "runs sys 2 p ?b"
    using runs.main [OF _ drain_api, of sys 1 p ?a] by (simp add: numeral_eq_Suc)
  moreover have "expired ?b" "pc ?b = WaitApi" using assms(2) by (simp_all add: expired_def split: option.splits)
  ultimately have "runs sys (Suc 2) p (finish (Some DeadlineExceeded) ?b)"
    by (blast intro: runs.main api_expired)
  then show ?thesis
    by (intro exI [of _ "finish (Some DeadlineExceeded) ?b"]) (simp add: finish_def numeral_eq_Suc)
qed

section \<open>Witnesses\<close>

text \<open>A server without a debug address that is asked to stop, and a listener that fails.\<close>

definition ex_system :: system where
  "ex_system =
     \<lparr>sysOpen = (\<lambda>_. None), sysPing = None, sysIofs = None, sysDriver = None, sysMigrator = None,
      sysUp = Applied, sysExporter = None, sysResource = None, sysShutdownApi = None\<rparr>"

definition ex_config :: Config where
  "ex_config =
     \<lparr>DatabaseURL = ''postgres://wallet'', HTTPAddr = '':8080'', DebugAddr = '''', DBMaxOpenConns = 25,
      DBMaxIdleConns = 5, DBConnMaxLifetime = 5 * Minute, DBConnMaxIdleTime = Minute\<rparr>"

text \<open>The four first steps after a signal, when there is no debug server.\<close>

lemma ex_drain:
  assumes "runs sys 0 x p" and "pc p = Select" and "cancelled p" and "dbg p = NotStarted"
  shows "\<exists>q. runs sys 3 x q \<and> pc q = WaitApi \<and> apiConns q = apiConns p \<and> wall q = wall p \<and>
    deadline q = Some (wall p + 10 * Second)"
proof -
  let ?b = "p\<lparr>pc := DrainDebug, deadline := Some (wall p + 10 * Second), trace := trace p @ [ShutdownSignal]\<rparr>"
  let ?c = "?b\<lparr>pc := DrainApi\<rparr>"
  let ?d = "?c\<lparr>pc := WaitApi, api := stop (api ?c), trace := trace ?c @ [ShutdownApi]\<rparr>"
  have "runs sys 1 x ?b"
    using runs.main [OF assms(1) on_signal] assms(2,3) by simp
  then have "runs sys 2 x ?c"
    using runs.main [OF _ no_debug, of sys 1 x ?b] assms(4) by (simp add: numeral_eq_Suc)
  then have "runs sys 3 x ?d"
    using runs.main [OF _ drain_api, of sys 2 x ?c] by (simp add: numeral_eq_Suc)
  then show ?thesis by (intro exI [of _ ?d]) simp
qed

theorem run_ends_in_order_witness:
  "\<exists>p. runs ex_system 4 (serve ex_config [TracingUp]) p \<and>
     main_trace p = main_trace (serve ex_config [TracingUp]) @
       [ShutdownSignal, ShutdownApi, DatabaseClosed, TracingFlushed]"
proof -
  let ?x = "serve ex_config [TracingUp]"
  obtain q where q: "runs ex_system 3 ?x q" "pc q = WaitApi" "apiConns q = 0"
    using ex_drain [OF runs.env [OF runs.here signalled], of ?x ex_system] by (auto simp: serve_def ex_config_def)
  have "runs ex_system (Suc 3) ?x (finish None q)"
    using runs.main [OF q(1) api_drained] q(2,3) by (simp add: ex_system_def)
  then have "runs ex_system 4 ?x (finish None q)" by (simp add: numeral_eq_Suc)
  then show ?thesis
    using run_ends_in_order [of ex_system 4 ex_config "[TracingUp]" "finish None q" None]
    by (auto simp: finish_def ex_config_def)
qed


end
