(* ===== verification/Testdb.thy ===== *)
theory Testdb
  imports Server Executor
begin

text \<open>
  The shared database of the integration tests, \<open>internal/testdb\<close>. The package variables are a
  record; \<open>Skipf\<close> and \<open>Fatalf\<close> end the calling test; the environment variable and the database
  driver are arguments.
\<close>

record testdb =
  onceDone :: bool
  sharedDB :: bool
  sharedDSN :: string
  sharedErr :: "error option"
  tdEvents :: "event list"

definition untouched :: testdb where
  "untouched = \<lparr>onceDone = False, sharedDB = False, sharedDSN = '''', sharedErr = None, tdEvents = []\<rparr>"

datatype 'a test = Continues 'a | Skipped string | Failed string

definition envDatabaseURL :: string where
  "envDatabaseURL = ''DATABASE_URL''"

definition errNoDSN :: error where
  "errNoDSN = Errorf (envDatabaseURL @ '' is not set'')"

definition test_pool :: PoolConfig where
  "test_pool =
     \<lparr>MaxOpenConns = 25, MaxIdleConns = 5, ConnMaxLifetime = 5 * Minute, ConnMaxIdleTime = 1 * Minute\<rparr>"

text \<open>\<open>start\<close>: what is returned, and the data source name that it leaves in \<open>sharedDSN\<close>, if any.\<close>

definition start_testdb :: "system \<Rightarrow> environ \<Rightarrow> unit effect \<times> string option" where
  "start_testdb sys Getenv =
     (let dsn = Getenv envDatabaseURL in
      if dsn = '''' then ((Inl errNoDSN, []), None)
      else
        (case OpenWithPool sys dsn test_pool of
           (Inl err, ev) \<Rightarrow> (Inl (Wrapf ''open: '' err ''''), ev)
         | (Inr _, ev) \<Rightarrow>
             (case Migrate sys of
                (Inl err, ev2) \<Rightarrow> (Inl (Wrapf ''migrate: '' err ''''), ev @ ev2)
              | (Inr _, ev2) \<Rightarrow> (Inr (), ev @ ev2)), Some dsn))"

definition once_start :: "system \<Rightarrow> environ \<Rightarrow> testdb \<Rightarrow> testdb" where
  "once_start sys Getenv t =
     (if onceDone t then t
      else
        (let ((r, ev), dsn) = start_testdb sys Getenv in
         t\<lparr>onceDone := True,
           sharedDB := (case r of Inr _ \<Rightarrow> True | Inl _ \<Rightarrow> False),
           sharedErr := (case r of Inr _ \<Rightarrow> None | Inl err \<Rightarrow> Some err),
           sharedDSN := (case dsn of None \<Rightarrow> sharedDSN t | Some d \<Rightarrow> d),
           tdEvents := tdEvents t @ ev\<rparr>))"

definition Get_testdb :: "system \<Rightarrow> environ \<Rightarrow> testdb \<Rightarrow> bool test \<times> testdb" where
  "Get_testdb sys Getenv t0 =
     (let t = once_start sys Getenv t0 in
      (case sharedErr t of
         None \<Rightarrow> Continues (sharedDB t)
       | Some err \<Rightarrow>
           if err = errNoDSN
           then Skipped (''integration tests require '' @ envDatabaseURL @ '' (e.g. `make db-up && export '' @
                  envDatabaseURL @ ''=postgres://...`); skipping'')
           else Failed (''open postgres at '' @ envDatabaseURL @ '': '' @ Error err), t))"

definition DSN :: "system \<Rightarrow> environ \<Rightarrow> testdb \<Rightarrow> string test \<times> testdb" where
  "DSN sys Getenv t0 =
     (case Get_testdb sys Getenv t0 of
        (Continues _, t) \<Rightarrow> (Continues (sharedDSN t), t)
      | (Skipped m, t) \<Rightarrow> (Skipped m, t)
      | (Failed m, t) \<Rightarrow> (Failed m, t))"

text \<open>\<open>TRUNCATE ... RESTART IDENTITY CASCADE\<close> of all four tables.\<close>

definition truncate_all :: "unit stmt" where
  "truncate_all now d =
     (Inr (), d\<lparr>wallets := [], transfers := [], ledger_entries := [], idempotency_records := [], ledger_seq := 0\<rparr>)"

definition Reset :: "system \<Rightarrow> environ \<Rightarrow> testdb \<Rightarrow> world \<Rightarrow> unit test \<times> testdb \<times> world" where
  "Reset sys Getenv t0 w =
     (case Get_testdb sys Getenv t0 of
        (Skipped m, t) \<Rightarrow> (Skipped m, t, w)
      | (Failed m, t) \<Rightarrow> (Failed m, t, w)
      | (Continues _, t) \<Rightarrow>
          (case stmt_DB truncate_all w of
             (Ok _, w') \<Rightarrow> (Continues (), t, w')
           | (Err err, w') \<Rightarrow> (Failed (''reset db: '' @ Error err), t, w')
           | (Panic p, w') \<Rightarrow> (Failed p, t, w')))"

section \<open>One start for all tests\<close>

text \<open>The state after the first call; every further call leaves it and gives the same answer.\<close>

lemma once_start_once:
  "once_start sys Getenv (once_start sys2 Getenv2 t) = once_start sys2 Getenv2 t"
  by (simp add: once_start_def Let_def split: prod.splits)

lemma Get_testdb_again:
  assumes "Get_testdb sys Getenv untouched = (r, t)"
  shows "Get_testdb sys2 Getenv2 t = (r, t)"
  using assms by (auto simp: Get_testdb_def Let_def once_start_once split: option.split)

text \<open>A test runs exactly with a usable database, and is skipped exactly without a name for one.\<close>

lemma Get_testdb_outcome:
  assumes "Get_testdb sys Getenv untouched = (r, t)"
  shows "case r of
      Skipped _ \<Rightarrow> Getenv envDatabaseURL = '''' \<and> tdEvents t = []
    | Continues ok \<Rightarrow> ok \<and> Getenv envDatabaseURL \<noteq> '''' \<and> sharedDSN t = Getenv envDatabaseURL \<and>
        (\<exists>ev ev2. OpenWithPool sys (sharedDSN t) test_pool = (Inr (), ev) \<and> Migrate sys = (Inr (), ev2) \<and>
           tdEvents t = ev @ ev2)
    | Failed _ \<Rightarrow> Getenv envDatabaseURL \<noteq> ''''"
  using assms
  by (auto simp: Get_testdb_def once_start_def start_testdb_def untouched_def errNoDSN_def Let_def
      split: prod.splits sum.splits if_splits)

text \<open>After \<open>Reset\<close> the database is the freshly migrated one.\<close>

lemma Reset_empty:
  assumes "Reset sys Getenv t0 w = (Continues (), t, w')"
  shows "disk w' = empty_db"
proof -
  have "snd (truncate_all now d) = empty_db" for now d
    by (simp add: truncate_all_def empty_db_def)
  then show ?thesis
    using assms
    by (auto simp: Reset_def stmt_DB_def truncate_all_def empty_db_def Let_def
        split: test.splits prod.splits res.splits fault.splits)
qed

end
