(* ===== verification/Interfaces.thy ===== *)
theory Interfaces
  imports Service
begin

text \<open>
  The interfaces of \<open>internal/repository\<close> as records of operations over an arbitrary state, and the
  services of \<open>internal/service\<close> as the code has them: structs that hold such interfaces, with every
  method calling through them. Package \<open>postgres\<close> is one implementation; with it the methods are
  the functions of \<open>Service\<close>. The locales say when one set of repositories does what another one
  promises, and that every method of the services then does so too.
\<close>

section \<open>Repository interfaces\<close>

record 's WalletRepository =
  walletsGet :: "Executor \<Rightarrow> string \<Rightarrow> ('s, error, Wallet) op"
  walletsLockForUpdate :: "Executor \<Rightarrow> string \<Rightarrow> ('s, error, Wallet) op"
  walletsUpdateBalance :: "Executor \<Rightarrow> string \<Rightarrow> int64 \<Rightarrow> ('s, error, unit) op"
  walletsInsert :: "Executor \<Rightarrow> Wallet \<Rightarrow> ('s, error, Wallet) op"

record 's TransferRepository =
  transfersGet :: "Executor \<Rightarrow> uuid \<Rightarrow> ('s, error, Transfer) op"
  transfersInsert :: "Executor \<Rightarrow> Transfer \<Rightarrow> ('s, error, Transfer) op"
  transfersUpdateState :: "Executor \<Rightarrow> uuid \<Rightarrow> TransferState \<Rightarrow> string \<Rightarrow> ('s, error, unit) op"
  transfersListByWallet :: "Executor \<Rightarrow> string \<Rightarrow> int \<Rightarrow> time option \<Rightarrow> ('s, error, Transfer list) op"

record 's LedgerRepository =
  ledgerInsert :: "Executor \<Rightarrow> LedgerEntry \<Rightarrow> ('s, error, LedgerEntry) op"
  ledgerListByTransfer :: "Executor \<Rightarrow> uuid \<Rightarrow> ('s, error, LedgerEntry list) op"

record 's IdempotencyRepository =
  idemGet :: "Executor \<Rightarrow> string \<Rightarrow> ('s, error, IdempotencyRecord) op"
  idemInsert :: "Executor \<Rightarrow> string \<Rightarrow> string \<Rightarrow> uuid \<Rightarrow> ('s, error, unit) op"

text \<open>
  The callback of \<open>RunInTx\<close> hands its transfer out through a captured variable; here it returns it.
\<close>

record 's TxManager =
  runInTx :: "(Executor \<Rightarrow> ('s, error, Transfer) op) \<Rightarrow> ('s, error, Transfer) op"

section \<open>Services\<close>

record 's TransferService =
  tsExec :: Executor
  tsTxm :: "'s TxManager"
  tsWallets :: "'s WalletRepository"
  tsTransfers :: "'s TransferRepository"
  tsLedger :: "'s LedgerRepository"
  tsIdem :: "'s IdempotencyRepository"

definition NewTransferService ::
  "Executor \<Rightarrow> 's TxManager \<Rightarrow> 's WalletRepository \<Rightarrow> 's TransferRepository \<Rightarrow> 's LedgerRepository \<Rightarrow>
   's IdempotencyRepository \<Rightarrow> 's TransferService" where
  "NewTransferService exec txm wr tr lr ir =
     \<lparr>tsExec = exec, tsTxm = txm, tsWallets = wr, tsTransfers = tr, tsLedger = lr, tsIdem = ir\<rparr>"

record 's WalletService =
  wsExec :: Executor
  wsWallets :: "'s WalletRepository"

definition NewWalletService :: "Executor \<Rightarrow> 's WalletRepository \<Rightarrow> 's WalletService" where
  "NewWalletService exec wr = \<lparr>wsExec = exec, wsWallets = wr\<rparr>"

definition ts_replayIfExists :: "'s TransferService \<Rightarrow> Executor \<Rightarrow> string \<Rightarrow> string \<Rightarrow> ('s, error, Transfer option) op" where
  "ts_replayIfExists s ex key h w =
     (case idemGet (tsIdem s) ex key w of
        (Panic p, w1) \<Rightarrow> (Panic p, w1)
      | (Err e, w1) \<Rightarrow> if errors_Is e ErrNotFound then (Ok None, w1) else (Err e, w1)
      | (Ok rec, w1) \<Rightarrow>
          if ikRequestHash rec \<noteq> h then (Err ErrIdempotencyConflict, w1)
          else bind_ok (transfersGet (tsTransfers s) ex (ikTransferID rec)) (\<lambda>t. return_ok (Some t)) w1)"

definition ts_fail_insufficient :: "'s TransferService \<Rightarrow> Executor \<Rightarrow> Transfer \<Rightarrow> ('s, error, Transfer) op" where
  "ts_fail_insufficient s ex t =
     bind_ok (transfersUpdateState (tsTransfers s) ex (tID t) StateFailed ''insufficient funds'')
       (\<lambda>_. return_ok (t\<lparr>tState := StateFailed, tFailureReason := ''insufficient funds''\<rparr>))"

definition ts_move_funds ::
  "'s TransferService \<Rightarrow> Executor \<Rightarrow> CreateTransferRequest \<Rightarrow> Wallet \<Rightarrow> Wallet \<Rightarrow> Transfer \<Rightarrow> ('s, error, Transfer) op" where
  "ts_move_funds s ex req src dst t =
     bind_ok (walletsUpdateBalance (tsWallets s) ex (wID src) (wBalance src - qAmount req)) (\<lambda>_.
     bind_ok (walletsUpdateBalance (tsWallets s) ex (wID dst) (wBalance dst + qAmount req)) (\<lambda>_.
     bind_ok (ledgerInsert (tsLedger s) ex (new_entry (tID t) (wID src) EntryDebit (qAmount req))) (\<lambda>_.
     bind_ok (ledgerInsert (tsLedger s) ex (new_entry (tID t) (wID dst) EntryCredit (qAmount req))) (\<lambda>_.
     bind_ok (transfersUpdateState (tsTransfers s) ex (tID t) StateProcessed '''') (\<lambda>_.
     return_ok (t\<lparr>tState := StateProcessed\<rparr>))))))"

definition ts_executeTransfer ::
  "'s TransferService \<Rightarrow> Executor \<Rightarrow> CreateTransferRequest \<Rightarrow> string \<Rightarrow> uuid \<Rightarrow> ('s, error, Transfer) op" where
  "ts_executeTransfer s ex req h u =
     (let (firstID, secondID) = orderedPair (qFromWalletID req) (qToWalletID req) in
      bind_ok (walletsLockForUpdate (tsWallets s) ex firstID) (\<lambda>_.
      bind_ok (walletsLockForUpdate (tsWallets s) ex secondID) (\<lambda>_.
      bind_ok (walletsGet (tsWallets s) ex (qFromWalletID req)) (\<lambda>src.
      bind_ok (walletsGet (tsWallets s) ex (qToWalletID req)) (\<lambda>dst.
      bind_ok (transfersInsert (tsTransfers s) ex (new_transfer u req)) (\<lambda>t.
      bind_ok (idemInsert (tsIdem s) ex (qIdempotencyKey req) h (tID t)) (\<lambda>_.
      if sint (wBalance src) < sint (qAmount req) then ts_fail_insufficient s ex t
      else ts_move_funds s ex req src dst t)))))))"

text \<open>The collectors are package variables of \<open>internal/metrics\<close>; \<open>obs\<close> is what \<open>Create\<close> does to them.\<close>

definition ts_Create ::
  "(string \<Rightarrow> 's \<Rightarrow> 's) \<Rightarrow> 's TransferService \<Rightarrow> CreateTransferRequest \<Rightarrow> uuid \<Rightarrow> ('s, error, Transfer option) op" where
  "ts_Create obs s req u w0 =
     (case Validate req of
        Some err \<Rightarrow> (Err err, w0)
      | None \<Rightarrow>
          let h = hash req in
          (case ts_replayIfExists s (tsExec s) (qIdempotencyKey req) h w0 of
             (Panic p, w1) \<Rightarrow> (Panic p, w1)
           | (Err err, w1) \<Rightarrow> (Err err, w1)
           | (Ok (Some t), w1) \<Rightarrow> (Ok (Some t), obs (tState t) w1)
           | (Ok None, w1) \<Rightarrow>
               (case runInTx (tsTxm s) (\<lambda>ex. ts_executeTransfer s ex req h u) w1 of
                  (Panic p, w2) \<Rightarrow> (Panic p, w2)
                | (Ok t, w2) \<Rightarrow> (Ok (Some t), obs (tState t) w2)
                | (Err txErr, w2) \<Rightarrow>
                    if errors_Is txErr ErrIdempotencyExists then
                      (case ts_replayIfExists s (tsExec s) (qIdempotencyKey req) h w2 of
                         (Ok (Some t), w3) \<Rightarrow> (Ok (Some t), obs (tState t) w3)
                       | r \<Rightarrow> r)
                    else (Err txErr, w2))))"

definition ts_GetTransfer :: "'s TransferService \<Rightarrow> uuid \<Rightarrow> ('s, error, Transfer) op" where
  "ts_GetTransfer s i = transfersGet (tsTransfers s) (tsExec s) i"

definition ts_ListTransfersByWallet ::
  "'s TransferService \<Rightarrow> string \<Rightarrow> int \<Rightarrow> time option \<Rightarrow> ('s, error, Transfer list \<times> time option) op" where
  "ts_ListTransfersByWallet s walletID limit0 before =
     (if walletID = '''' then return_err ErrWalletNotFound
      else
        let limit = clamp_limit limit0 in
        bind_ok (transfersListByWallet (tsTransfers s) (tsExec s) walletID limit before)
          (\<lambda>rows. return_ok
             (rows, if int (length rows) = limit then Some (tCreatedAt (rows ! (length rows - 1))) else None)))"

definition ws_Get :: "'s WalletService \<Rightarrow> string \<Rightarrow> ('s, error, Wallet) op" where
  "ws_Get s i = walletsGet (wsWallets s) (wsExec s) i"

definition ws_Create :: "'s WalletService \<Rightarrow> string \<Rightarrow> int64 \<Rightarrow> ('s, error, Wallet) op" where
  "ws_Create s i initialBalance =
     (if i = '''' then return_err ErrWalletNotFound
      else if sint initialBalance < 0 then return_err ErrInvalidAmount
      else walletsInsert (wsWallets s) (wsExec s)
             \<lparr>wID = i, wBalance = initialBalance, wCreatedAt = 0, wUpdatedAt = 0\<rparr>)"

lemmas ts_defs = ts_replayIfExists_def ts_fail_insufficient_def ts_move_funds_def ts_executeTransfer_def
  ts_Create_def ts_GetTransfer_def ts_ListTransfersByWallet_def ws_Get_def ws_Create_def

section \<open>The wiring of the server\<close>

definition NewWalletRepo :: "world WalletRepository" where
  "NewWalletRepo =
     \<lparr>walletsGet = WalletRepo_Get, walletsLockForUpdate = WalletRepo_LockForUpdate,
      walletsUpdateBalance = WalletRepo_UpdateBalance, walletsInsert = WalletRepo_Insert\<rparr>"

definition NewTransferRepo :: "world TransferRepository" where
  "NewTransferRepo =
     \<lparr>transfersGet = TransferRepo_Get, transfersInsert = TransferRepo_Insert,
      transfersUpdateState = TransferRepo_UpdateState, transfersListByWallet = TransferRepo_ListByWallet\<rparr>"

definition NewLedgerRepo :: "world LedgerRepository" where
  "NewLedgerRepo = \<lparr>ledgerInsert = LedgerRepo_Insert, ledgerListByTransfer = LedgerRepo_ListByTransfer\<rparr>"

definition NewIdempotencyRepo :: "world IdempotencyRepository" where
  "NewIdempotencyRepo = \<lparr>idemGet = IdempotencyRepo_Get, idemInsert = IdempotencyRepo_Insert\<rparr>"

definition NewTxManager :: "world TxManager" where
  "NewTxManager = \<lparr>runInTx = (\<lambda>fn. RunInTx (fn Tx))\<rparr>"

definition transferSvc :: "world TransferService" where
  "transferSvc = NewTransferService DB NewTxManager NewWalletRepo NewTransferRepo NewLedgerRepo NewIdempotencyRepo"

definition walletSvc :: "world WalletService" where
  "walletSvc = NewWalletService DB NewWalletRepo"

lemmas wiring_defs = transferSvc_def walletSvc_def NewTransferService_def NewWalletService_def NewTxManager_def
  NewWalletRepo_def NewTransferRepo_def NewLedgerRepo_def NewIdempotencyRepo_def

text \<open>The methods of the services that \<open>run\<close> builds are the functions of \<open>Service\<close>.\<close>

lemma wired_sel:
  "tsExec transferSvc = DB" "runInTx (tsTxm transferSvc) = (\<lambda>fn. RunInTx (fn Tx))"
  "walletsGet (tsWallets transferSvc) = WalletRepo_Get"
  "walletsLockForUpdate (tsWallets transferSvc) = WalletRepo_LockForUpdate"
  "walletsUpdateBalance (tsWallets transferSvc) = WalletRepo_UpdateBalance"
  "transfersGet (tsTransfers transferSvc) = TransferRepo_Get"
  "transfersInsert (tsTransfers transferSvc) = TransferRepo_Insert"
  "transfersUpdateState (tsTransfers transferSvc) = TransferRepo_UpdateState"
  "transfersListByWallet (tsTransfers transferSvc) = TransferRepo_ListByWallet"
  "ledgerInsert (tsLedger transferSvc) = LedgerRepo_Insert"
  "idemGet (tsIdem transferSvc) = IdempotencyRepo_Get" "idemInsert (tsIdem transferSvc) = IdempotencyRepo_Insert"
  "wsExec walletSvc = DB" "walletsGet (wsWallets walletSvc) = WalletRepo_Get"
  "walletsInsert (wsWallets walletSvc) = WalletRepo_Insert"
  by (simp_all add: wiring_defs)

lemma wired_execute: "ts_executeTransfer transferSvc = executeTransfer"
  unfolding fun_eq_iff ts_executeTransfer_def executeTransfer_def ts_move_funds_def move_funds_def
    ts_fail_insufficient_def fail_insufficient_def wired_sel by simp

theorem wired_services:
  "ts_Create observe transferSvc = TransferService_Create"
  "ts_GetTransfer transferSvc = TransferService_GetTransfer"
  "ts_ListTransfersByWallet transferSvc = TransferService_ListTransfersByWallet"
  "ws_Get walletSvc = WalletService_Get" "ws_Create walletSvc = WalletService_Create"
  unfolding fun_eq_iff ts_Create_def TransferService_Create_def ts_replayIfExists_def replayIfExists_def
    ts_GetTransfer_def TransferService_GetTransfer_def ts_ListTransfersByWallet_def
    TransferService_ListTransfersByWallet_def ws_Get_def WalletService_Get_def ws_Create_def
    WalletService_Create_def wired_sel wired_execute by simp_all

section \<open>One implementation for another\<close>

text \<open>
  Two errors are alike if they are the same, or if neither is one that the program asks for with
  \<open>errors.Is\<close>.
\<close>

definition known_errors :: "error list" where
  "known_errors =
     [ErrNotFound, ErrIdempotencyExists, ErrWalletNotFound, ErrInsufficientFunds, ErrSameWallet, ErrInvalidAmount,
      ErrInvalidIdempotencyKey, ErrIdempotencyConflict, ErrInvalidStateTransition]"

definition internal :: "error \<Rightarrow> bool" where
  "internal e \<longleftrightarrow> list_all (\<lambda>t. \<not> errors_Is e t) known_errors"

definition alike :: "error \<Rightarrow> error \<Rightarrow> bool" where
  "alike e e' \<longleftrightarrow> e = e' \<or> internal e \<and> internal e'"

lemma alike_refl [simp]: "alike e e"
  by (simp add: alike_def)

lemma alike_Is: "alike e e' \<Longrightarrow> t \<in> set known_errors \<Longrightarrow> errors_Is e t = errors_Is e' t"
  by (auto simp: alike_def internal_def list_all_iff)

lemma known_errors_Is [simp]: "ErrNotFound \<in> set known_errors" "ErrIdempotencyExists \<in> set known_errors"
  by (simp_all add: known_errors_def)

text \<open>
  \<open>simulates P Q m n\<close>: from related states both calls have the same outcome, and end in states that
  are related again, by \<open>P\<close> after a success and by \<open>Q\<close> after a failure.
\<close>

definition same_outcome ::
  "('s \<Rightarrow> 't \<Rightarrow> bool) \<Rightarrow> ('s \<Rightarrow> 't \<Rightarrow> bool) \<Rightarrow> (error, 'a) res \<times> 's \<Rightarrow> (error, 'a) res \<times> 't \<Rightarrow> bool" where
  "same_outcome P Q a b \<longleftrightarrow>
     (case (fst a, fst b) of
        (Ok x, Ok y) \<Rightarrow> x = y \<and> P (snd a) (snd b)
      | (Err e, Err f) \<Rightarrow> alike e f \<and> Q (snd a) (snd b)
      | (Panic p, Panic q) \<Rightarrow> p = q \<and> Q (snd a) (snd b)
      | _ \<Rightarrow> False)"

definition simulates ::
  "('s \<Rightarrow> 't \<Rightarrow> bool) \<Rightarrow> ('s \<Rightarrow> 't \<Rightarrow> bool) \<Rightarrow> ('s, error, 'a) op \<Rightarrow> ('t, error, 'a) op \<Rightarrow> bool" where
  "simulates P Q m n \<longleftrightarrow> (\<forall>s t. P s t \<longrightarrow> same_outcome P Q (m s) (n t))"

lemma same_outcome_simps [simp]:
  "same_outcome P Q (Ok x, s) b \<longleftrightarrow> (\<exists>t. b = (Ok x, t) \<and> P s t)"
  "same_outcome P Q (Err e, s) b \<longleftrightarrow> (\<exists>f t. b = (Err f, t) \<and> alike e f \<and> Q s t)"
  "same_outcome P Q (Panic p, s) b \<longleftrightarrow> (\<exists>t. b = (Panic p, t) \<and> Q s t)"
  by (cases b; auto simp: same_outcome_def split: res.splits)+

lemma simulatesD: "simulates P Q m n \<Longrightarrow> P s t \<Longrightarrow> same_outcome P Q (m s) (n t)"
  by (simp add: simulates_def)

lemma simulatesE [consumes 2, case_names ok err panic]:
  assumes "simulates P Q m n" and "P s t"
  obtains (ok) x s' t' where "m s = (Ok x, s')" "n t = (Ok x, t')" "P s' t'"
    | (err) e f s' t' where "m s = (Err e, s')" "n t = (Err f, t')" "alike e f" "Q s' t'"
    | (panic) p s' t' where "m s = (Panic p, s')" "n t = (Panic p, t')" "Q s' t'"
proof -
  obtain r s' where "m s = (r, s')" by (cases "m s")
  with simulatesD [OF assms] that show thesis by (cases r) auto
qed

named_theorems simulates_intros \<open>programs that keep two implementations together\<close>

lemma simulates_return [simulates_intros]: "simulates P Q (return_ok x) (return_ok x)"
  by (simp add: simulates_def)

lemma simulates_bind [simulates_intros]:
  assumes "simulates P Q m n" and "\<And>x. simulates P Q (k x) (l x)"
  shows "simulates P Q (bind_ok m k) (bind_ok n l)"
  unfolding simulates_def
proof (intro allI impI)
  fix s t assume "P s t"
  with assms(1) show "same_outcome P Q (bind_ok m k s) (bind_ok n l t)"
    by (cases rule: simulatesE) (simp_all add: bind_ok_def simulatesD [OF assms(2)])
qed

lemma simulates_if [simulates_intros]:
  "simulates P Q m n \<Longrightarrow> simulates P Q m' n' \<Longrightarrow> simulates P Q (if b then m else m') (if b then n else n')"
  by simp

text \<open>
  One set of repositories does what another promises, on the pool, where an error leaves the next
  call possible, and inside a transaction, where it does not: there \<open>inside s0 t0\<close> relates the
  states of a transaction begun in \<open>s0\<close> and \<open>t0\<close>, and \<open>broken s0 t0\<close> those after a failure.
\<close>

locale repositories_refine =
  fixes pool :: "'s \<Rightarrow> 't \<Rightarrow> bool"
    and inside broken :: "'s \<Rightarrow> 't \<Rightarrow> 's \<Rightarrow> 't \<Rightarrow> bool"
    and W :: "'s WalletRepository" and W' :: "'t WalletRepository"
    and T :: "'s TransferRepository" and T' :: "'t TransferRepository"
    and L :: "'s LedgerRepository" and L' :: "'t LedgerRepository"
    and I :: "'s IdempotencyRepository" and I' :: "'t IdempotencyRepository"
  assumes pool_reads:
      "simulates pool pool (walletsGet W DB i) (walletsGet W' DB i)"
      "simulates pool pool (transfersGet T DB u) (transfersGet T' DB u)"
      "simulates pool pool (idemGet I DB k) (idemGet I' DB k)"
      "simulates pool pool (transfersListByWallet T DB i lim before) (transfersListByWallet T' DB i lim before)"
    and pool_writes: "simulates pool pool (walletsInsert W DB wal) (walletsInsert W' DB wal)"
    and inside_wallets:
      "simulates (inside s0 t0) (broken s0 t0) (walletsGet W Tx i) (walletsGet W' Tx i)"
      "simulates (inside s0 t0) (broken s0 t0) (walletsLockForUpdate W Tx i) (walletsLockForUpdate W' Tx i)"
      "simulates (inside s0 t0) (broken s0 t0) (walletsUpdateBalance W Tx i b) (walletsUpdateBalance W' Tx i b)"
    and inside_transfers:
      "simulates (inside s0 t0) (broken s0 t0) (transfersInsert T Tx tr) (transfersInsert T' Tx tr)"
      "simulates (inside s0 t0) (broken s0 t0) (transfersUpdateState T Tx u st rs) (transfersUpdateState T' Tx u st rs)"
    and inside_ledger: "simulates (inside s0 t0) (broken s0 t0) (ledgerInsert L Tx e) (ledgerInsert L' Tx e)"
    and inside_idem: "simulates (inside s0 t0) (broken s0 t0) (idemInsert I Tx k h u) (idemInsert I' Tx k h u)"

text \<open>Then so do the services, when the transaction managers and the collectors agree as well.\<close>

locale services_refine = repositories_refine +
  fixes M :: "'a TxManager" and M' :: "'b TxManager"
    and obs :: "string \<Rightarrow> 'a \<Rightarrow> 'a" and obs' :: "string \<Rightarrow> 'b \<Rightarrow> 'b"
  assumes run: "(\<And>s0 t0. pool s0 t0 \<Longrightarrow> simulates (inside s0 t0) (broken s0 t0) (fn Tx) (fn' Tx)) \<Longrightarrow>
      simulates pool pool (runInTx M fn) (runInTx M' fn')"
    and observed: "pool s t \<Longrightarrow> pool (obs l s) (obs' l t)"
begin

abbreviation S :: "'a TransferService" where
  "S \<equiv> NewTransferService DB M W T L I"

abbreviation S' :: "'b TransferService" where
  "S' \<equiv> NewTransferService DB M' W' T' L' I'"

lemma services_sel:
  "tsExec S = DB" "tsTxm S = M" "tsWallets S = W" "tsTransfers S = T" "tsLedger S = L" "tsIdem S = I"
  "tsExec S' = DB" "tsTxm S' = M'" "tsWallets S' = W'" "tsTransfers S' = T'" "tsLedger S' = L'" "tsIdem S' = I'"
  by (simp_all add: NewTransferService_def)

lemma refines_execute:
  "simulates (inside s0 t0) (broken s0 t0) (ts_executeTransfer S Tx req h u) (ts_executeTransfer S' Tx req h u)"
  unfolding ts_executeTransfer_def ts_move_funds_def ts_fail_insufficient_def Let_def case_prod_beta services_sel
  by (intro simulates_intros inside_wallets inside_transfers inside_ledger inside_idem)

lemma refines_replay: "simulates pool pool (ts_replayIfExists S DB k h) (ts_replayIfExists S' DB k h)"
  unfolding simulates_def
proof (intro allI impI)
  fix s t assume "pool s t"
  with pool_reads(3) [of k]
  show "same_outcome pool pool (ts_replayIfExists S DB k h s) (ts_replayIfExists S' DB k h t)"
  proof (cases rule: simulatesE)
    case (ok rec s' t')
    have "simulates pool pool (bind_ok (transfersGet T DB (ikTransferID rec)) (\<lambda>t. return_ok (Some t)))
        (bind_ok (transfersGet T' DB (ikTransferID rec)) (\<lambda>t. return_ok (Some t)))"
      by (intro simulates_intros pool_reads)
    from simulatesD [OF this ok(3)] ok show ?thesis
      by (simp add: ts_replayIfExists_def services_sel)
  next
    case (err e f s' t')
    then show ?thesis
      using alike_Is [OF err(3)] by (simp add: ts_replayIfExists_def services_sel)
  next
    case (panic p s' t')
    then show ?thesis by (simp add: ts_replayIfExists_def services_sel)
  qed
qed

lemma refines_Create: "simulates pool pool (ts_Create obs S req u) (ts_Create obs' S' req u)"
  unfolding simulates_def
proof (intro allI impI)
  fix s t assume st: "pool s t"
  have body: "simulates pool pool (runInTx M (\<lambda>ex. ts_executeTransfer S ex req (hash req) u))
      (runInTx M' (\<lambda>ex. ts_executeTransfer S' ex req (hash req) u))"
    by (rule run) (rule refines_execute)
  note replay = refines_replay [of "qIdempotencyKey req" "hash req"]
  show "same_outcome pool pool (ts_Create obs S req u s) (ts_Create obs' S' req u t)"
  proof (cases "Validate req")
    case (Some e)
    then show ?thesis using st by (simp add: ts_Create_def)
  next
    case None
    note [simp] = ts_Create_def None services_sel Let_def
    from replay st show ?thesis
    proof (cases rule: simulatesE)
      case look: (ok x s1 t1)
      show ?thesis
      proof (cases x)
        case (Some tr)
        then show ?thesis using look observed by simp
      next
        case x: None
        from body look(3) show ?thesis
        proof (cases rule: simulatesE)
          case (ok tr s2 t2)
          then show ?thesis using look x observed by simp
        next
          case (err e f s2 t2)
          then have lost: "errors_Is e ErrIdempotencyExists = errors_Is f ErrIdempotencyExists"
            by (simp add: alike_Is)
          from replay err(4) show ?thesis
            by (cases rule: simulatesE) (use err look x lost observed in \<open>auto split: option.split\<close>)
        next
          case (panic p s2 t2)
          then show ?thesis using look x by simp
        qed
      qed
    qed simp_all
  qed
qed

lemma refines_reads:
  "simulates pool pool (ts_GetTransfer S u) (ts_GetTransfer S' u)"
  "simulates pool pool (ts_ListTransfersByWallet S i n before) (ts_ListTransfersByWallet S' i n before)"
  unfolding ts_GetTransfer_def ts_ListTransfersByWallet_def services_sel Let_def return_err_def
  by (intro simulates_intros pool_reads; simp add: simulates_def)+

lemma refines_wallets:
  "simulates pool pool (ws_Get (NewWalletService DB W) i) (ws_Get (NewWalletService DB W') i)"
  "simulates pool pool (ws_Create (NewWalletService DB W) i b) (ws_Create (NewWalletService DB W') i b)"
  unfolding ws_Get_def ws_Create_def NewWalletService_def
  using pool_reads(1) pool_writes by (simp_all add: simulates_def)

end

end
