(* ===== verification/Reference.thy ===== *)
theory Reference
  imports Interfaces Handler Transfer_Props "HOL-Library.Product_Lexorder"
begin

text \<open>
  What the comments on the interfaces of \<open>internal/repository\<close> promise, as an implementation without
  a database: wallets and idempotency records as maps, transfers and ledger entries as lists. The
  repositories of package \<open>postgres\<close> with \<open>RunInTx\<close> keep these promises on a server that meets no
  fault, and so every method of the services does over Postgres what it does over the promises.
\<close>

section \<open>The promised state\<close>

record memory =
  mWallets :: "string \<Rightarrow> Wallet option"
  mTransfers :: "Transfer list"
  mLedger :: "LedgerEntry list"
  mClaims :: "string \<Rightarrow> IdempotencyRecord option"
  mDrawn :: nat

definition memory_of :: "db \<Rightarrow> memory" where
  "memory_of d =
     \<lparr>mWallets = (\<lambda>i. find_wallet i d), mTransfers = map scan_transfer (transfers d), mLedger = ledger_entries d,
      mClaims = (\<lambda>k. map_option scan_idem (find_idem k d)), mDrawn = ledger_seq d\<rparr>"

text \<open>The schema refuses a row, or a text that it cannot hold; the services never ask why.\<close>

definition rejected :: error where
  "rejected = Errorf ''rejected''"

type_synonym 'a promise = "(memory, error, 'a) op"

definition found :: "(memory \<Rightarrow> 'a option) \<Rightarrow> 'a promise" where
  "found f m = (case f m of None \<Rightarrow> (Err ErrNotFound, m) | Some x \<Rightarrow> (Ok x, m))"

definition checked :: "bool \<Rightarrow> 'a promise \<Rightarrow> 'a promise" where
  "checked b p = (if b then p else return_err rejected)"

definition find_mem :: "uuid \<Rightarrow> memory \<Rightarrow> Transfer option" where
  "find_mem u m = List.find (\<lambda>t. tID t = u) (mTransfers m)"

section \<open>The promises\<close>

definition promised_wallets :: "time \<Rightarrow> memory WalletRepository" where
  "promised_wallets now =
     \<lparr>walletsGet = (\<lambda>ex i. checked (text_ok i) (found (\<lambda>m. mWallets m i))),
      walletsLockForUpdate = (\<lambda>ex i. checked (text_ok i) (found (\<lambda>m. mWallets m i))),
      walletsUpdateBalance = (\<lambda>ex i b.
        checked (text_ok i) (bind_ok (found (\<lambda>m. mWallets m i)) (\<lambda>w.
        checked (0 \<le> sint b) (\<lambda>m. (Ok (),
          m\<lparr>mWallets := (mWallets m)(i \<mapsto> w\<lparr>wBalance := b, wUpdatedAt := now\<rparr>)\<rparr>))))),
      walletsInsert = (\<lambda>ex w m.
        checked (text_ok (wID w) \<and> 0 \<le> sint (wBalance w) \<and> mWallets m (wID w) = None)
          (\<lambda>m. let w' = w\<lparr>wCreatedAt := now, wUpdatedAt := now\<rparr>
               in (Ok w', m\<lparr>mWallets := (mWallets m)(wID w \<mapsto> w')\<rparr>)) m)\<rparr>"

definition promised_transfers :: "time \<Rightarrow> memory TransferRepository" where
  "promised_transfers now =
     \<lparr>transfersGet = (\<lambda>ex u. found (find_mem u)),
      transfersInsert = (\<lambda>ex t m.
        checked (0 < sint (tAmount t) \<and> Valid (tState t) \<and> tFromWalletID t \<noteq> tToWalletID t \<and> find_mem (tID t) m = None \<and>
                 text_ok (tFromWalletID t) \<and> text_ok (tToWalletID t) \<and>
                 mWallets m (tFromWalletID t) \<noteq> None \<and> mWallets m (tToWalletID t) \<noteq> None)
          (\<lambda>m. let t' = t\<lparr>tCreatedAt := now, tUpdatedAt := now\<rparr>
               in (Ok t', m\<lparr>mTransfers := mTransfers m @ [t'\<lparr>tFailureReason := ''''\<rparr>]\<rparr>)) m),
      transfersUpdateState = (\<lambda>ex u st rs.
        bind_ok (found (find_mem u)) (\<lambda>_.
        checked (Valid st) (\<lambda>m. (Ok (),
          m\<lparr>mTransfers := map (\<lambda>t. if tID t = u then t\<lparr>tState := st, tFailureReason := rs, tUpdatedAt := now\<rparr> else t)
                                (mTransfers m)\<rparr>)))),
      transfersListByWallet = (\<lambda>ex i lim before m.
        checked (0 \<le> lim \<and> text_ok i)
          (return_ok (take (nat lim)
             (sort_key (\<lambda>t. (- tCreatedAt t, - uint (tID t)))
               (filter (\<lambda>t. (tFromWalletID t = i \<or> tToWalletID t = i) \<and>
                            (case before of None \<Rightarrow> True | Some b \<Rightarrow> tCreatedAt t < b)) (mTransfers m))))) m)\<rparr>"

text \<open>An id that the ledger has drawn is not given back, neither by a rejected row nor by a rollback.\<close>

definition promised_ledger :: "time \<Rightarrow> memory LedgerRepository" where
  "promised_ledger now =
     \<lparr>ledgerInsert = (\<lambda>ex e. checked (text_ok (eWalletID e))
        (bind_ok (\<lambda>m. checked (mDrawn m < 2 ^ 63 - 1) (\<lambda>m. (Ok (word_of_nat (mDrawn m + 1)), m\<lparr>mDrawn := mDrawn m + 1\<rparr>)) m)
          (\<lambda>i m.
            checked (eType e \<in> {EntryDebit, EntryCredit} \<and> 0 < sint (eAmount e) \<and>
                     (\<forall>x\<in>set (mLedger m). eID x \<noteq> i \<and> \<not> (eTransferID x = eTransferID e \<and> eType x = eType e)) \<and>
                     find_mem (eTransferID e) m \<noteq> None \<and> mWallets m (eWalletID e) \<noteq> None)
              (\<lambda>m. let e' = e\<lparr>eID := i, eCreatedAt := now\<rparr> in (Ok e', m\<lparr>mLedger := mLedger m @ [e']\<rparr>)) m))),
      ledgerListByTransfer = (\<lambda>ex u m.
        (Ok (sort_key (\<lambda>e. sint (eID e)) (filter (\<lambda>e. eTransferID e = u) (mLedger m))), m))\<rparr>"

definition promised_idem :: "memory IdempotencyRepository" where
  "promised_idem =
     \<lparr>idemGet = (\<lambda>ex k. checked (text_ok k) (found (\<lambda>m. mClaims m k))),
      idemInsert = (\<lambda>ex k h u m.
        if \<not> text_ok k then (Err rejected, m)
        else if mClaims m k \<noteq> None then (Err ErrIdempotencyExists, m)
        else checked (find_mem u m \<noteq> None)
          (\<lambda>m. (Ok (), m\<lparr>mClaims := (mClaims m)(k \<mapsto> \<lparr>ikKey = k, ikRequestHash = h, ikTransferID = u\<rparr>)\<rparr>)) m)\<rparr>"

definition promised_tx :: "memory TxManager" where
  "promised_tx =
     \<lparr>runInTx = (\<lambda>fn m.
        case fn Tx m of
          (Ok x, m') \<Rightarrow> (Ok x, m')
        | (r, m') \<Rightarrow> (r, m\<lparr>mDrawn := mDrawn m'\<rparr>))\<rparr>"

lemmas promises = promised_wallets_def promised_transfers_def promised_ledger_def promised_idem_def

section \<open>Lookups through the abstraction\<close>

lemma memory_of_sel [simp]:
  "mWallets (memory_of d) i = find_wallet i d" "mLedger (memory_of d) = ledger_entries d"
  "mClaims (memory_of d) k = map_option scan_idem (find_idem k d)" "mDrawn (memory_of d) = ledger_seq d"
  "mTransfers (memory_of d) = map scan_transfer (transfers d)"
  by (simp_all add: memory_of_def)

lemma scan_tID [simp]: "tID (scan_transfer r) = rID r"
  by (simp add: scan_transfer_def)

lemma find_mem_memory_of [simp]: "find_mem u (memory_of d) = map_option scan_transfer (find_transfer u d)"
proof -
  have "List.find (\<lambda>t. tID t = u) (map scan_transfer rs) = map_option scan_transfer (List.find (\<lambda>r. rID r = u) rs)" for rs
    by (induction rs) auto
  then show ?thesis by (simp add: find_mem_def find_transfer_def)
qed

lemma ids_lookup:
  "i \<in> wallet_ids d \<longleftrightarrow> find_wallet i d \<noteq> None" "u \<in> transfer_ids d \<longleftrightarrow> find_transfer u d \<noteq> None"
  "k \<in> idem_keys d \<longleftrightarrow> find_idem k d \<noteq> None"
  by (simp_all add: wallet_tbl.lookup_None transfer_tbl.lookup_None idem_tbl.lookup_None wallet_ids_def
      transfer_ids_def idem_keys_def del: not_None_eq)

lemma find_map_same_key:
  assumes "\<And>x. k (g x) = k x"
  shows "List.find (\<lambda>x. k x = j) (map (\<lambda>x. if k x = i then g x else x) xs) =
    (if j = i then map_option g (List.find (\<lambda>x. k x = i) xs) else List.find (\<lambda>x. k x = j) xs)"
  using assms by (induction xs) auto

lemma find_snoc: "List.find P (xs @ [x]) = (case List.find P xs of None \<Rightarrow> if P x then Some x else None | y \<Rightarrow> y)"
  by (simp add: find_append split: option.split)

text \<open>The rows of a history, oldest last, are the sorted transfers.\<close>

lemma history_memory:
  "map scan_transfer (order_newer (filter (history_match i before) rs)) =
     sort_key (\<lambda>t. (- tCreatedAt t, - uint (tID t)))
       (filter (\<lambda>t. (tFromWalletID t = i \<or> tToWalletID t = i) \<and>
                    (case before of None \<Rightarrow> True | Some b \<Rightarrow> tCreatedAt t < b)) (map scan_transfer rs))"
proof -
  let ?key = "\<lambda>t. (- tCreatedAt t, - uint (tID t))"
  have ins: "map scan_transfer (insert_newer r xs) = insort_key ?key (scan_transfer r) (map scan_transfer xs)" for r xs
    by (induction xs) (auto simp: newer_first_def scan_transfer_def word_le_def)
  have "map scan_transfer (order_newer xs) = sort_key ?key (map scan_transfer xs)" for xs
    by (induction xs) (auto simp: order_newer_def ins)
  then show ?thesis
    by (simp add: filter_map comp_def history_match_def [abs_def] scan_transfer_def cong: option.case_cong)
qed

section \<open>Postgres keeps the promises\<close>

text \<open>
  The states that are related: on the pool, a server that meets no fault and nobody else, and its
  committed rows; in a transaction begun there, its private view.
\<close>

definition alone :: "time \<Rightarrow> world \<Rightarrow> bool" where
  "alone now w \<longleftrightarrow> faults w = [] \<and> others w = [] \<and> clock w = now"

definition pooled :: "time \<Rightarrow> world \<Rightarrow> memory \<Rightarrow> bool" where
  "pooled now w m \<longleftrightarrow> alone now w \<and> tx w = None \<and> m = memory_of (disk w)"

definition in_transaction :: "time \<Rightarrow> world \<Rightarrow> memory \<Rightarrow> world \<Rightarrow> memory \<Rightarrow> bool" where
  "in_transaction now w0 m0 w m \<longleftrightarrow>
     alone now w \<and> disk w = disk w0 \<and>
     (\<exists>t. tx w = Some t \<and> \<not> aborted t \<and> tx_now t = now \<and> m = memory_of (view t))"

definition in_failure :: "time \<Rightarrow> world \<Rightarrow> memory \<Rightarrow> world \<Rightarrow> memory \<Rightarrow> bool" where
  "in_failure now w0 m0 w m \<longleftrightarrow>
     alone now w \<and> disk w = disk w0 \<and> (\<exists>t. tx w = Some t \<and> mDrawn m = ledger_seq (view t))"

lemma alone_step:
  assumes "alone now w"
  shows "interfere w = w" "drop_fault w = w" "next_fault w = NoFault" "clock w = now"
  using assms by (simp_all add: alone_def interfere_def drop_fault_def next_fault_def)

text \<open>
  One statement. \<open>keeps_promise now s f p\<close>: statement \<open>s\<close>, with its result read by \<open>f\<close>, does to the
  rows what \<open>p\<close> does to the promised state.
\<close>

definition keeps_promise :: "time \<Rightarrow> 'a stmt \<Rightarrow> (error + 'a \<Rightarrow> (error, 'b) res) \<Rightarrow> 'b promise \<Rightarrow> bool" where
  "keeps_promise now s f p \<longleftrightarrow>
     (\<forall>d. (case (f (fst (s now d)), p (memory_of d)) of
        (Ok x, (Ok y, m)) \<Rightarrow> x = y \<and> m = memory_of (snd (s now d)) \<and> (\<forall>e. fst (s now d) \<noteq> Inl e)
      | (Err e, (Err e', m)) \<Rightarrow> alike e e' \<and> m = memory_of (snd (s now d))
      | _ \<Rightarrow> False))"

text \<open>A repository method that sends \<open>s\<close> and reads its result by \<open>f\<close>, up to the row lock it takes.\<close>

definition sends :: "time \<Rightarrow> 'b go \<Rightarrow> Executor \<Rightarrow> 'a stmt \<Rightarrow> (error + 'a \<Rightarrow> (error, 'b) res) \<Rightarrow> bool" where
  "sends now g ex s f \<longleftrightarrow>
     (\<forall>w. alone now w \<longrightarrow> (case exec_stmt ex s w of
        (Ok x, v) \<Rightarrow> g w = (f (Inr x), v) \<or> (\<exists>i. g w = (f (Inr x), lock_row ex i v))
      | (Err e, v) \<Rightarrow> g w = (f (Inl e), v)
      | (Panic p, v) \<Rightarrow> False))"

lemma pool_keeps_promise:
  assumes "keeps_promise now s f p" and "sends now g DB s f"
  shows "simulates (pooled now) (pooled now) g p"
  unfolding simulates_def
proof (intro allI impI)
  fix w m assume wm: "pooled now w m"
  then have a: "alone now w" and m: "m = memory_of (disk w)" and tx: "tx w = None"
    by (simp_all add: pooled_def)
  obtain r d where s: "s now (disk w) = (r, d)" by (cases "s now (disk w)")
  then have "exec_stmt DB s w = (case r of Inl e \<Rightarrow> Err e | Inr x \<Rightarrow> Ok x, w\<lparr>disk := d\<rparr>)"
    using alone_step [OF a] by (simp add: stmt_DB_def split: sum.split)
  then have "g w = (f r, w\<lparr>disk := d\<rparr>)"
    using assms(2) [unfolded sends_def, rule_format, OF a] by (auto simp: lock_row_def split: sum.splits)
  moreover have "pooled now (w\<lparr>disk := d\<rparr>) (memory_of d)"
    using a tx by (simp add: pooled_def alone_def)
  ultimately show "same_outcome (pooled now) (pooled now) (g w) (p m)"
    using assms(1) [unfolded keeps_promise_def, rule_format, of "disk w"] s m
    by (auto simp: same_outcome_def split: res.splits prod.splits)
qed

lemma tx_keeps_promise:
  assumes "keeps_promise now s f p" and "sends now g Tx s f"
  shows "simulates (in_transaction now w0 m0) (in_failure now w0 m0) g p"
  unfolding simulates_def
proof (intro allI impI)
  fix w m assume wm: "in_transaction now w0 m0 w m"
  then obtain t where a: "alone now w" and m: "m = memory_of (view t)" and t: "tx w = Some t" "\<not> aborted t" "tx_now t = now"
    and dk: "disk w = disk w0"
    by (auto simp: in_transaction_def)
  obtain r d where s: "s now (view t) = (r, d)" by (cases "s now (view t)")
  have ex: "exec_stmt Tx s w = (case r of Inl e \<Rightarrow> (Err e, w\<lparr>tx := Some (t\<lparr>view := d, aborted := True\<rparr>)\<rparr>)
       | Inr x \<Rightarrow> (Ok x, w\<lparr>tx := Some (t\<lparr>view := d\<rparr>)\<rparr>))"
    using alone_step [OF a] t s by (simp add: stmt_Tx_def split: sum.split)
  obtain t' where g: "g w = (f r, w\<lparr>tx := Some t'\<rparr>)" and t': "view t' = d" "tx_now t' = now"
    and b: "aborted t' \<longrightarrow> (\<exists>e. r = Inl e)"
  proof (cases r)
    case (Inl e)
    then show ?thesis
      using assms(2) [unfolded sends_def, rule_format, OF a] ex that [of "t\<lparr>view := d, aborted := True\<rparr>"] t by simp
  next
    case (Inr x)
    then have "g w = (f r, w\<lparr>tx := Some (t\<lparr>view := d\<rparr>)\<rparr>) \<or> (\<exists>i. g w = (f r, w\<lparr>tx := Some (add_lock i (t\<lparr>view := d\<rparr>))\<rparr>))"
      using assms(2) [unfolded sends_def, rule_format, OF a] ex by (simp add: lock_row_def)
    then show ?thesis
      using that [of "t\<lparr>view := d\<rparr>"] that [of "add_lock i (t\<lparr>view := d\<rparr>)" for i] t by auto
  qed
  let ?w = "w\<lparr>tx := Some t'\<rparr>"
  have fail: "in_failure now w0 m0 ?w n" if "mDrawn n = ledger_seq d" for n
    using a dk t' that by (simp add: in_failure_def alone_def)
  have good: "in_transaction now w0 m0 ?w (memory_of d)" if "\<not> aborted t'"
    using a dk t' that by (simp add: in_transaction_def alone_def)
  show "same_outcome (in_transaction now w0 m0) (in_failure now w0 m0) (g w) (p m)"
    using assms(1) [unfolded keeps_promise_def, rule_format, of "view t"] s m g fail good b
    by (auto simp: same_outcome_def split: res.splits prod.splits)
qed

section \<open>The methods\<close>

lemma exec_alone:
  assumes "alone now w" and "exec_stmt ex s w = (q, v)"
  shows "alone now v" and "q \<noteq> Panic p"
proof -
  have "keeps (\<lambda>w v. alone now w \<longrightarrow> alone now v) (exec_stmt ex s)"
    by (cases ex) (auto simp: keeps_def alone_def stmt_DB_def stmt_Tx_def interfere_def drop_fault_def next_fault_def
        Let_def split: option.splits sum.splits prod.splits)
  with assms show "alone now v" by (auto dest: keepsD)
  show "q \<noteq> Panic p" using assms(2) by (cases ex) auto
qed

lemma sendsI:
  assumes "\<And>w v x. alone now v \<Longrightarrow> exec_stmt ex s w = (Ok x, v) \<Longrightarrow> g w = (f (Inr x), v) \<or> (\<exists>i. g w = (f (Inr x), lock_row ex i v))"
    and "\<And>w v e. exec_stmt ex s w = (Err e, v) \<Longrightarrow> g w = (f (Inl e), v)"
  shows "sends now g ex s f"
  unfolding sends_def
proof (intro allI impI)
  fix w assume a: "alone now w"
  obtain q v where e: "exec_stmt ex s w = (q, v)" by (cases "exec_stmt ex s w")
  from a e show "case exec_stmt ex s w of
        (Ok x, v) \<Rightarrow> g w = (f (Inr x), v) \<or> (\<exists>i. g w = (f (Inr x), lock_row ex i v))
      | (Err e, v) \<Rightarrow> g w = (f (Inl e), v)
      | (Panic p, v) \<Rightarrow> False"
    using exec_alone [OF a e] assms by (cases q) auto
qed

text \<open>How the methods read the result of their statement.\<close>

fun row_result :: "string \<Rightarrow> ('a \<Rightarrow> 'b) \<Rightarrow> error + 'a option \<Rightarrow> (error, 'b) res" where
  "row_result what g (Inl e) = Err (scan_err what e)"
| "row_result what g (Inr None) = Err ErrNotFound"
| "row_result what g (Inr (Some x)) = Ok (g x)"

fun value_result :: "(error \<Rightarrow> error) \<Rightarrow> ('a \<Rightarrow> 'b) \<Rightarrow> error + 'a \<Rightarrow> (error, 'b) res" where
  "value_result h g (Inl e) = Err (h e)"
| "value_result h g (Inr x) = Ok (g x)"

fun count_result :: "string \<Rightarrow> error + nat \<Rightarrow> (error, unit) res" where
  "count_result what (Inl e) = Err (wrap what e)"
| "count_result what (Inr n) = (if n = 0 then Err ErrNotFound else Ok ())"

lemma scan_no_rows [simp]: "scan_err what SqlErrNoRows = ErrNotFound"
  by (simp add: scan_err_def)

lemmas run_method = repo_defs scanWallet_def query_row_def map_err_def bind_ok_def return_ok_def return_err_def

lemma sends_rows:
  "sends now (WalletRepo_Get ex i) ex (select_wallet i) (row_result ''scan wallet'' id)"
  "sends now (WalletRepo_LockForUpdate ex i) ex (select_wallet i) (row_result ''scan wallet'' id)"
  "sends now (TransferRepo_Get ex u) ex (select_transfer u) (row_result ''scan transfer'' scan_transfer)"
  "sends now (IdempotencyRepo_Get ex k) ex (select_idem k) (row_result ''scan idempotency'' scan_idem)"
  by (rule sendsI; auto simp: run_method split: option.split)+

lemma sends_counts:
  "sends now (WalletRepo_UpdateBalance ex i b) ex (update_wallet_balance i b) (count_result ''update wallet balance'')"
  "sends now (TransferRepo_UpdateState ex u st rs) ex (update_transfer_state u st rs) (count_result ''update transfer state'')"
  by (rule sendsI; auto simp: run_method)+

lemma sends_values:
  "sends now (WalletRepo_Insert ex wal) ex (insert_wallet (wID wal) (wBalance wal))
     (value_result (wrap ''insert wallet'') (\<lambda>(c, u). wal\<lparr>wCreatedAt := c, wUpdatedAt := u\<rparr>))"
  "sends now (TransferRepo_Insert ex t) ex (insert_transfer (tID t) (tFromWalletID t) (tToWalletID t) (tAmount t) (tState t))
     (value_result (wrap ''insert transfer'') (\<lambda>(c, u). t\<lparr>tCreatedAt := c, tUpdatedAt := u\<rparr>))"
  "sends now (LedgerRepo_Insert ex e) ex (insert_ledger (eTransferID e) (eWalletID e) (eType e) (eAmount e))
     (value_result (wrap ''insert ledger entry'') (\<lambda>(i, c). e\<lparr>eID := i, eCreatedAt := c\<rparr>))"
  "sends now (IdempotencyRepo_Insert ex k h u) ex (insert_idem k h u) (value_result idem_insert_err id)"
  "sends now (TransferRepo_ListByWallet ex i lim before) ex (select_history i before lim)
     (value_result (wrap ''list transfers by wallet'') (map scan_transfer))"
  by (rule sendsI; auto simp: run_method rows_Err_def alone_step)+

section \<open>The statements keep the promises\<close>

lemma internal_wrap [simp]: "internal (wrap what (PgError c m))" "internal rejected"
  by (simp_all add: internal_def known_errors_def wrap_def rejected_def)

lemma alike_internal: "internal e \<Longrightarrow> internal e' \<Longrightarrow> alike e e'"
  by (simp add: alike_def)

lemma alike_rejected [simp]: "alike (wrap what (PgError c m)) rejected" "alike (scan_err what (PgError c m)) rejected"
  by (simp_all add: alike_internal scan_err_def)

lemmas promise_simps = keeps_promise_def found_def checked_def promises bind_ok_def ids_lookup

lemma keeps_reads:
  "keeps_promise now (select_wallet i) (row_result what id) (checked (text_ok i) (found (\<lambda>m. mWallets m i)))"
  "keeps_promise now (select_transfer u) (row_result what scan_transfer) (found (find_mem u))"
  "keeps_promise now (select_idem k) (row_result what scan_idem) (checked (text_ok k) (found (\<lambda>m. mClaims m k)))"
proof -
  show "keeps_promise now (select_wallet i) (row_result what id) (checked (text_ok i) (found (\<lambda>m. mWallets m i)))"
    by (cases "text_ok i") (auto simp: promise_simps select_wallet_def return_err_def split: option.splits)
  show "keeps_promise now (select_transfer u) (row_result what scan_transfer) (found (find_mem u))"
    by (auto simp: promise_simps select_transfer_def split: option.splits)
  show "keeps_promise now (select_idem k) (row_result what scan_idem) (checked (text_ok k) (found (\<lambda>m. mClaims m k)))"
    by (cases "text_ok k") (auto simp: promise_simps select_idem_def return_err_def split: option.splits)
qed

lemma keeps_history:
  "keeps_promise now (select_history i before lim) (value_result (wrap what) (map scan_transfer))
     (transfersListByWallet (promised_transfers now) ex i lim before)"
  using history_memory [of i before]
  by (auto simp: promise_simps select_history_def take_map [symmetric])

lemma memory_eqI:
  assumes "\<And>i. mWallets m i = find_wallet i d" and "mTransfers m = map scan_transfer (transfers d)"
    and "mLedger m = ledger_entries d" and "\<And>k. mClaims m k = map_option scan_idem (find_idem k d)"
    and "mDrawn m = ledger_seq d"
  shows "m = memory_of d"
  using assms by (cases m) (simp add: memory_of_def fun_eq_iff)

lemma keeps_wallet_insert:
  "keeps_promise now (insert_wallet (wID w) (wBalance w))
     (value_result (wrap what) (\<lambda>(c, u). w\<lparr>wCreatedAt := c, wUpdatedAt := u\<rparr>)) (walletsInsert (promised_wallets now) ex w)"
proof -
  have "memory_of (d\<lparr>wallets := wallets d @ [w']\<rparr>) = (memory_of d)\<lparr>mWallets := (mWallets (memory_of d))(wID w' \<mapsto> w')\<rparr>"
    if "find_wallet (wID w') d = None" for d w'
    using that by (intro memory_eqI [symmetric]) (auto simp: find_wallet_def find_idem_def find_snoc split: option.splits)
  note this [of "w\<lparr>wCreatedAt := now, wUpdatedAt := now\<rparr>"]
  moreover have lit: "\<lparr>wID = wID w, wBalance = wBalance w, wCreatedAt = now, wUpdatedAt = now\<rparr> = w\<lparr>wCreatedAt := now, wUpdatedAt := now\<rparr>"
    by (cases w) simp
  ultimately show ?thesis
    by (auto simp: promise_simps insert_wallet_def Let_def not_less lit)
qed

lemma keeps_balance:
  "keeps_promise now (update_wallet_balance i b) (count_result what) (walletsUpdateBalance (promised_wallets now) ex i b)"
proof -
  have "memory_of (d\<lparr>wallets := map (\<lambda>w. if wID w = i then w\<lparr>wBalance := b, wUpdatedAt := now\<rparr> else w) (wallets d)\<rparr>)
      = (memory_of d)\<lparr>mWallets := (mWallets (memory_of d))(i \<mapsto> w\<lparr>wBalance := b, wUpdatedAt := now\<rparr>)\<rparr>"
    if "find_wallet i d = Some w" for d w
    using that by (intro memory_eqI [symmetric]) (auto simp: find_wallet_def find_idem_def find_map_same_key)
  then show ?thesis
    by (auto simp: promise_simps update_wallet_balance_def not_less split: option.splits)
qed

lemma valid_state: "st \<in> {''PENDING'', ''PROCESSED'', ''FAILED''} \<longleftrightarrow> Valid st"
  by (auto simp: Valid_def state_defs)

lemma keeps_transfer_insert:
  "keeps_promise now (insert_transfer (tID t) (tFromWalletID t) (tToWalletID t) (tAmount t) (tState t))
     (value_result (wrap what) (\<lambda>(c, u). t\<lparr>tCreatedAt := c, tUpdatedAt := u\<rparr>)) (transfersInsert (promised_transfers now) ex t)"
proof -
  have "scan_transfer \<lparr>rID = tID t, rFromWalletID = tFromWalletID t, rToWalletID = tToWalletID t, rAmount = tAmount t,
      rState = tState t, rFailureReason = None, rCreatedAt = now, rUpdatedAt = now\<rparr>
    = t\<lparr>tCreatedAt := now, tUpdatedAt := now, tFailureReason := ''''\<rparr>"
    by (cases t) (simp add: scan_transfer_def coalesce_empty_def)
  then have "memory_of (d\<lparr>transfers := transfers d @ [\<lparr>rID = tID t, rFromWalletID = tFromWalletID t,
      rToWalletID = tToWalletID t, rAmount = tAmount t, rState = tState t, rFailureReason = None, rCreatedAt = now,
      rUpdatedAt = now\<rparr>]\<rparr>)
    = (memory_of d)\<lparr>mTransfers := mTransfers (memory_of d) @ [t\<lparr>tCreatedAt := now, tUpdatedAt := now, tFailureReason := ''''\<rparr>]\<rparr>" for d
    by (intro memory_eqI [symmetric]) (auto simp: find_wallet_def find_idem_def)
  then show ?thesis
    unfolding insert_transfer_def valid_state
    by (auto simp: promise_simps Let_def not_le)
qed

lemma keeps_state:
  "keeps_promise now (update_transfer_state u st rs) (count_result what) (transfersUpdateState (promised_transfers now) ex u st rs)"
proof -
  have "scan_transfer (r\<lparr>rState := st, rFailureReason := nullif_empty rs, rUpdatedAt := now\<rparr>)
      = (scan_transfer r)\<lparr>tState := st, tFailureReason := rs, tUpdatedAt := now\<rparr>" for r
    by (simp add: scan_transfer_def nullif_empty_def coalesce_empty_def)
  then have "memory_of (d\<lparr>transfers := map (\<lambda>r. if rID r = u
        then r\<lparr>rState := st, rFailureReason := nullif_empty rs, rUpdatedAt := now\<rparr> else r) (transfers d)\<rparr>)
      = (memory_of d)\<lparr>mTransfers := map (\<lambda>t. if tID t = u then t\<lparr>tState := st, tFailureReason := rs, tUpdatedAt := now\<rparr> else t)
          (mTransfers (memory_of d))\<rparr>" for d
    by (intro memory_eqI [symmetric]) (auto simp: find_wallet_def find_idem_def)
  then show ?thesis
    unfolding update_transfer_state_def valid_state
    by (auto simp: promise_simps split: option.splits)
qed

lemma keeps_claim:
  "keeps_promise now (insert_idem k h u) (value_result idem_insert_err id) (idemInsert promised_idem ex k h u)"
proof -
  have "memory_of (d\<lparr>idempotency_records := idempotency_records d @ [\<lparr>irKey = k, irRequestHash = h, irTransferID = u, irCreatedAt = now\<rparr>]\<rparr>)
      = (memory_of d)\<lparr>mClaims := (mClaims (memory_of d))(k \<mapsto> \<lparr>ikKey = k, ikRequestHash = h, ikTransferID = u\<rparr>)\<rparr>"
    if "find_idem k d = None" for d
    using that by (intro memory_eqI [symmetric])
      (auto simp: find_wallet_def find_idem_def find_snoc scan_idem_def split: option.splits)
  then show ?thesis
    by (auto simp: promise_simps insert_idem_def idem_insert_err_def pgUniqueViolation_def sqlstate_defs
        split: option.splits)
qed

text \<open>The constraints of \<open>ledger_entries\<close> on a new row with the id \<open>i\<close>.\<close>

definition ledger_fits :: "LedgerEntry \<Rightarrow> int64 \<Rightarrow> db \<Rightarrow> bool" where
  "ledger_fits e i d \<longleftrightarrow>
     eType e \<in> {EntryDebit, EntryCredit} \<and> 0 < sint (eAmount e) \<and>
     (\<forall>x\<in>set (ledger_entries d). eID x \<noteq> i \<and> \<not> (eTransferID x = eTransferID e \<and> eType x = eType e)) \<and>
     find_transfer (eTransferID e) d \<noteq> None \<and> find_wallet (eWalletID e) d \<noteq> None"

lemma insert_ledger_outcome:
  fixes e d now
  assumes utf: "text_ok (eWalletID e)"
  defines "res \<equiv> insert_ledger (eTransferID e) (eWalletID e) (eType e) (eAmount e) now d"
    and "i \<equiv> word_of_nat (Suc (ledger_seq d))"
  shows "\<not> ledger_seq d < 2 ^ 63 - 1 \<Longrightarrow> \<exists>c m. res = (Inl (PgError c m), d)"
    and "ledger_seq d < 2 ^ 63 - 1 \<Longrightarrow> \<not> ledger_fits e i d \<Longrightarrow>
      \<exists>c m. res = (Inl (PgError c m), d\<lparr>ledger_seq := Suc (ledger_seq d)\<rparr>)"
    and "ledger_seq d < 2 ^ 63 - 1 \<Longrightarrow> ledger_fits e i d \<Longrightarrow>
      res = (Inr (i, now), d\<lparr>ledger_seq := Suc (ledger_seq d), ledger_entries := ledger_entries d @ [e\<lparr>eID := i, eCreatedAt := now\<rparr>]\<rparr>)"
proof -
  have clash: "(a, b) \<in> (\<lambda>x. (eTransferID x, eType x)) ` X \<longleftrightarrow> (\<exists>x\<in>X. eTransferID x = a \<and> eType x = b)"
      "j \<in> eID ` X \<longleftrightarrow> (\<exists>x\<in>X. eID x = j)" for a b j and X :: "LedgerEntry set"
    by auto
  have lit: "\<lparr>eID = i, eTransferID = eTransferID e, eWalletID = eWalletID e, eType = eType e, eAmount = eAmount e, eCreatedAt = now\<rparr>
      = e\<lparr>eID := i, eCreatedAt := now\<rparr>" for i
    by (cases e) simp
  have ids: "find_wallet j (d\<lparr>ledger_seq := n\<rparr>) = find_wallet j d" "find_transfer u (d\<lparr>ledger_seq := n\<rparr>) = find_transfer u d" for j u n
    by (simp_all add: find_wallet_def find_transfer_def)
  show "\<exists>c m. res = (Inl (PgError c m), d)" if "\<not> ledger_seq d < 2 ^ 63 - 1"
    using that utf unfolding res_def insert_ledger_def by (simp add: not_less)
  let ?d = "d\<lparr>ledger_seq := Suc (ledger_seq d)\<rparr>"
  have res: "res = (if \<not> (eType e = EntryDebit \<or> eType e = EntryCredit)
        then (Inl (PgError check_violation ''ledger_entries_type_check''), ?d)
      else if sint (eAmount e) \<le> 0
        then (Inl (PgError check_violation ''ledger_entries_amount_check''), ?d)
      else if \<exists>x\<in>set (ledger_entries d). eID x = i
        then (Inl (PgError unique_violation ''ledger_entries_pkey''), ?d)
      else if \<exists>x\<in>set (ledger_entries d). eTransferID x = eTransferID e \<and> eType x = eType e
        then (Inl (PgError unique_violation ''ledger_entries_transfer_id_type_key''), ?d)
      else if find_transfer (eTransferID e) d = None
        then (Inl (PgError foreign_key_violation ''ledger_entries_transfer_id_fkey''), ?d)
      else if find_wallet (eWalletID e) d = None
        then (Inl (PgError foreign_key_violation ''ledger_entries_wallet_id_fkey''), ?d)
      else (Inr (i, now), d\<lparr>ledger_seq := Suc (ledger_seq d), ledger_entries := ledger_entries d @ [e\<lparr>eID := i, eCreatedAt := now\<rparr>]\<rparr>))"
    if "ledger_seq d < 2 ^ 63 - 1"
    using that utf unfolding res_def insert_ledger_def i_def Let_def clash ids_lookup entry_defs
    by (simp add: ids lit del: bex_simps ball_simps)
  show "\<exists>c m. res = (Inl (PgError c m), d\<lparr>ledger_seq := Suc (ledger_seq d)\<rparr>)"
    if "ledger_seq d < 2 ^ 63 - 1" "\<not> ledger_fits e i d"
    using that(2) unfolding res [OF that(1)] ledger_fits_def by (auto simp: not_le)
  show "res = (Inr (i, now), d\<lparr>ledger_seq := Suc (ledger_seq d), ledger_entries := ledger_entries d @ [e\<lparr>eID := i, eCreatedAt := now\<rparr>]\<rparr>)"
    if "ledger_seq d < 2 ^ 63 - 1" "ledger_fits e i d"
    using that(2) unfolding res [OF that(1)] ledger_fits_def by auto
qed

lemma memory_of_drawn:
  "memory_of (d\<lparr>ledger_seq := n\<rparr>) = (memory_of d)\<lparr>mDrawn := n\<rparr>"
  "memory_of (d\<lparr>ledger_seq := n, ledger_entries := es\<rparr>) = (memory_of d)\<lparr>mDrawn := n, mLedger := es\<rparr>"
  by (intro memory_eqI [symmetric]; auto simp: find_wallet_def find_idem_def)+

lemma keeps_ledger:
  "keeps_promise now (insert_ledger (eTransferID e) (eWalletID e) (eType e) (eAmount e))
     (value_result (wrap what) (\<lambda>(i, c). e\<lparr>eID := i, eCreatedAt := c\<rparr>)) (ledgerInsert (promised_ledger now) ex e)"
proof (cases "text_ok (eWalletID e)")
  case False
  then show ?thesis
    by (simp add: promise_simps insert_ledger_def return_err_def)
next
  case utf: True
  show ?thesis
    unfolding keeps_promise_def
  proof
    fix d :: db
    let ?i = "word_of_nat (Suc (ledger_seq d)) :: int64"
    have drawn: "find_mem u ((memory_of d)\<lparr>mDrawn := n\<rparr>) = map_option scan_transfer (find_transfer u d)" for u n
      using find_mem_memory_of [of u d] by (simp add: find_mem_def)
    have ins: "ledgerInsert (promised_ledger now) ex e (memory_of d) =
       (if \<not> ledger_seq d < 2 ^ 63 - 1 then (Err rejected, memory_of d)
        else if ledger_fits e ?i d then (Ok (e\<lparr>eID := ?i, eCreatedAt := now\<rparr>),
          (memory_of d)\<lparr>mDrawn := Suc (ledger_seq d), mLedger := ledger_entries d @ [e\<lparr>eID := ?i, eCreatedAt := now\<rparr>]\<rparr>)
        else (Err rejected, (memory_of d)\<lparr>mDrawn := Suc (ledger_seq d)\<rparr>))"
      by (auto simp: promised_ledger_def bind_ok_def checked_def drawn ledger_fits_def Let_def utf)
    show "case (value_result (wrap what) (\<lambda>(i, c). e\<lparr>eID := i, eCreatedAt := c\<rparr>)
          (fst (insert_ledger (eTransferID e) (eWalletID e) (eType e) (eAmount e) now d)),
        ledgerInsert (promised_ledger now) ex e (memory_of d)) of
      (Ok x, (Ok y, m)) \<Rightarrow> x = y \<and> m = memory_of (snd (insert_ledger (eTransferID e) (eWalletID e) (eType e) (eAmount e) now d)) \<and>
        (\<forall>f. fst (insert_ledger (eTransferID e) (eWalletID e) (eType e) (eAmount e) now d) \<noteq> Inl f)
    | (Err f, (Err f', m)) \<Rightarrow> alike f f' \<and> m = memory_of (snd (insert_ledger (eTransferID e) (eWalletID e) (eType e) (eAmount e) now d))
    | _ \<Rightarrow> False"
      using insert_ledger_outcome [OF utf, where d = d and now = now] unfolding ins
      by (cases "ledger_seq d < 2 ^ 63 - 1"; cases "ledger_fits e ?i d") (auto simp: memory_of_drawn)
  qed
qed

section \<open>The services over Postgres\<close>

text \<open>The collectors do not belong to the rows.\<close>

lemma observed_pool: "pooled now w m \<Longrightarrow> pooled now (observe l w) m"
  by (simp add: pooled_def alone_def observe_def)

lemma run_keeps:
  assumes body: "\<And>w0 m0. pooled now w0 m0 \<Longrightarrow> simulates (in_transaction now w0 m0) (in_failure now w0 m0) (fn Tx) (fn' Tx)"
  shows "simulates (pooled now) (pooled now) (runInTx NewTxManager fn) (runInTx promised_tx fn')"
  unfolding simulates_def
proof (intro allI impI)
  fix w m assume wm: "pooled now w m"
  then have a: "alone now w" and m: "m = memory_of (disk w)" and tx: "tx w = None"
    by (simp_all add: pooled_def)
  define w1 where "w1 = w\<lparr>tx := Some \<lparr>view = disk w, locks = [], tx_now = now, aborted = False\<rparr>\<rparr>"
  have b: "BeginTx w = (Ok (), w1)"
    using alone_step [OF a] by (simp add: BeginTx_def w1_def)
  have "in_transaction now w m w1 m"
    using a m by (simp add: in_transaction_def w1_def alone_def)
  with body [OF wm]
  show "same_outcome (pooled now) (pooled now) (runInTx NewTxManager fn w) (runInTx promised_tx fn' m)"
  proof (cases rule: simulatesE)
    case (ok x v n)
    then have av: "alone now v" and n: "\<exists>t. tx v = Some t \<and> \<not> aborted t \<and> n = memory_of (view t)"
      by (auto simp: in_transaction_def)
    then show ?thesis
      using ok b alone_step [OF av]
      by (auto simp: NewTxManager_def RunInTx_def promised_tx_def Commit_def pooled_def alone_def)
  next
    case (err e f v n)
    then have av: "alone now v" and dv: "disk v = disk w" and n: "\<exists>t. tx v = Some t \<and> mDrawn n = ledger_seq (view t)"
      by (auto simp: in_failure_def)
    then show ?thesis
      using err b m alone_step [OF av] memory_of_drawn
      by (auto simp: NewTxManager_def RunInTx_def promised_tx_def Rollback_def discard_def pooled_def alone_def)
  next
    case (panic p v n)
    then have av: "alone now v" and dv: "disk v = disk w" and n: "\<exists>t. tx v = Some t \<and> mDrawn n = ledger_seq (view t)"
      by (auto simp: in_failure_def)
    then show ?thesis
      using panic b m alone_step [OF av] memory_of_drawn
      by (auto simp: NewTxManager_def RunInTx_def promised_tx_def Rollback_def discard_def pooled_def alone_def)
  qed
qed

lemmas repo_sel = NewWalletRepo_def NewTransferRepo_def NewLedgerRepo_def NewIdempotencyRepo_def

lemma promised_reads:
  "walletsGet (promised_wallets now) ex i = checked (text_ok i) (found (\<lambda>m. mWallets m i))"
  "walletsLockForUpdate (promised_wallets now) ex i = checked (text_ok i) (found (\<lambda>m. mWallets m i))"
  "transfersGet (promised_transfers now) ex u = found (find_mem u)"
  "idemGet promised_idem ex k = checked (text_ok k) (found (\<lambda>m. mClaims m k))"
  by (simp_all add: promises)

interpretation postgres: services_refine "pooled now" "in_transaction now" "in_failure now"
  NewWalletRepo "promised_wallets now" NewTransferRepo "promised_transfers now" NewLedgerRepo "promised_ledger now"
  NewIdempotencyRepo promised_idem NewTxManager promised_tx observe "\<lambda>_ m. m"
proof unfold_locales
  note pool = pool_keeps_promise [OF _ sends_rows(1)] pool_keeps_promise [OF _ sends_rows(3)]
    pool_keeps_promise [OF _ sends_rows(4)] pool_keeps_promise [OF _ sends_values(5)]
    pool_keeps_promise [OF _ sends_values(1)]
  note inside = tx_keeps_promise [OF _ sends_rows(1)] tx_keeps_promise [OF _ sends_rows(2)]
    tx_keeps_promise [OF _ sends_counts(1)] tx_keeps_promise [OF _ sends_counts(2)]
    tx_keeps_promise [OF _ sends_values(2)] tx_keeps_promise [OF _ sends_values(3)] tx_keeps_promise [OF _ sends_values(4)]
  note keeps = keeps_reads keeps_history keeps_wallet_insert keeps_balance keeps_transfer_insert keeps_state keeps_claim keeps_ledger
  fix i u k lim before wal b tr st rs e h s0 t0 s t l and fn :: "Executor \<Rightarrow> Transfer go" and fn'
  show "simulates (pooled now) (pooled now) (walletsGet NewWalletRepo DB i) (walletsGet (promised_wallets now) DB i)"
    "simulates (pooled now) (pooled now) (transfersGet NewTransferRepo DB u) (transfersGet (promised_transfers now) DB u)"
    "simulates (pooled now) (pooled now) (idemGet NewIdempotencyRepo DB k) (idemGet promised_idem DB k)"
    "simulates (pooled now) (pooled now) (transfersListByWallet NewTransferRepo DB i lim before)
       (transfersListByWallet (promised_transfers now) DB i lim before)"
    "simulates (pooled now) (pooled now) (walletsInsert NewWalletRepo DB wal) (walletsInsert (promised_wallets now) DB wal)"
    using pool keeps by (simp_all add: repo_sel promised_reads)
  show "simulates (in_transaction now s0 t0) (in_failure now s0 t0) (walletsGet NewWalletRepo Tx i) (walletsGet (promised_wallets now) Tx i)"
    "simulates (in_transaction now s0 t0) (in_failure now s0 t0) (walletsLockForUpdate NewWalletRepo Tx i)
       (walletsLockForUpdate (promised_wallets now) Tx i)"
    "simulates (in_transaction now s0 t0) (in_failure now s0 t0) (walletsUpdateBalance NewWalletRepo Tx i b)
       (walletsUpdateBalance (promised_wallets now) Tx i b)"
    "simulates (in_transaction now s0 t0) (in_failure now s0 t0) (transfersInsert NewTransferRepo Tx tr)
       (transfersInsert (promised_transfers now) Tx tr)"
    "simulates (in_transaction now s0 t0) (in_failure now s0 t0) (transfersUpdateState NewTransferRepo Tx u st rs)
       (transfersUpdateState (promised_transfers now) Tx u st rs)"
    "simulates (in_transaction now s0 t0) (in_failure now s0 t0) (ledgerInsert NewLedgerRepo Tx e) (ledgerInsert (promised_ledger now) Tx e)"
    "simulates (in_transaction now s0 t0) (in_failure now s0 t0) (idemInsert NewIdempotencyRepo Tx k h u) (idemInsert promised_idem Tx k h u)"
    using inside keeps by (simp_all add: repo_sel promised_reads)
qed (use run_keeps observed_pool in auto)

section \<open>Property\<close>

definition promised_transferSvc :: "time \<Rightarrow> memory TransferService" where
  "promised_transferSvc now =
     NewTransferService DB promised_tx (promised_wallets now) (promised_transfers now) (promised_ledger now) promised_idem"

definition promised_walletSvc :: "time \<Rightarrow> memory WalletService" where
  "promised_walletSvc now = NewWalletService DB (promised_wallets now)"

text \<open>
  \<open>follows f p w\<close>: run in \<open>w\<close>, the call \<open>f\<close> leaves the rows that \<open>p\<close> leaves, and answers what \<open>p\<close>
  answers: the same value, or an error that the handlers turn into the same response.
\<close>

definition follows :: "'a go \<Rightarrow> 'a promise \<Rightarrow> world \<Rightarrow> bool" where
  "follows f p w \<longleftrightarrow>
     (let (r, w') = f w; (r', m') = p (memory_of (disk w))
      in memory_of (disk w') = m' \<and>
         (case (r, r') of
            (Ok x, Ok y) \<Rightarrow> x = y
          | (Err e, Err e') \<Rightarrow> classify e = classify e' \<and> (e \<noteq> e' \<longrightarrow> fst (classify e) = 500)
          | (Panic p, Panic p') \<Rightarrow> p = p'
          | _ \<Rightarrow> False))"

lemma alike_classify:
  assumes "alike e f"
  shows "classify e = classify f \<and> (e \<noteq> f \<longrightarrow> fst (classify e) = 500)"
proof -
  have "classify e = (500, ''internal error'')" if "internal e" for e
    using that by (simp add: internal_def known_errors_def classify_def)
  then show ?thesis using assms by (auto simp: alike_def)
qed

lemma simulates_follows:
  assumes "simulates (pooled now) (pooled now) f p" and "tx w = None" "faults w = []" "others w = []" "clock w = now"
  shows "follows f p w"
proof -
  have "pooled now w (memory_of (disk w))"
    using assms(2-5) by (simp add: pooled_def alone_def)
  with assms(1) show ?thesis
    by (cases rule: simulatesE) (use alike_classify in \<open>fastforce simp: follows_def pooled_def\<close>)+
qed

text \<open>
  C3: the services over Postgres do what the comments on the repository interfaces promise. On a
  server that meets no fault and no other process, every method of both services, called on the
  Postgres repositories and \<open>RunInTx\<close> of package \<open>postgres\<close>, leaves the rows, and gives the answer,
  of the same method over the promised repositories: same value, same status and message.
\<close>

theorem services_keep_the_promises:
  assumes "tx w = None" and "faults w = []" and "others w = []"
  shows "follows (TransferService_Create req u) (ts_Create (\<lambda>_ m. m) (promised_transferSvc (clock w)) req u) w \<and>
    follows (TransferService_GetTransfer u) (ts_GetTransfer (promised_transferSvc (clock w)) u) w \<and>
    follows (TransferService_ListTransfersByWallet i n before)
      (ts_ListTransfersByWallet (promised_transferSvc (clock w)) i n before) w \<and>
    follows (WalletService_Get i) (ws_Get (promised_walletSvc (clock w)) i) w \<and>
    follows (WalletService_Create i b) (ws_Create (promised_walletSvc (clock w)) i b) w"
  unfolding wired_services [symmetric] transferSvc_def walletSvc_def promised_transferSvc_def promised_walletSvc_def
  by (intro conjI simulates_follows [OF _ assms refl] postgres.refines_Create postgres.refines_reads postgres.refines_wallets)

theorem services_keep_the_promises_witness:
  "\<exists>t w. TransferService_Create (ex_req 30) 1 (quiet_world ex_db 8) = (Ok (Some t), w) \<and> tState t = StateProcessed \<and>
     map_option wBalance (find_wallet ''a'' (disk w)) = Some 70 \<and> map_option wBalance (find_wallet ''b'' (disk w)) = Some 80"
proof -
  let ?p = "ts_Create (\<lambda>_ m. m) (promised_transferSvc 8) (ex_req 30) 1 (memory_of ex_db)"
  have run: "\<exists>t m. ?p = (Ok (Some t), m) \<and> tState t = StateProcessed \<and>
      map_option wBalance (mWallets m ''a'') = Some 70 \<and> map_option wBalance (mWallets m ''b'') = Some 80"
    by (simp add: ts_Create_def ts_replayIfExists_def ts_executeTransfer_def ts_move_funds_def promised_transferSvc_def
        NewTransferService_def promises promised_tx_def bind_ok_def found_def checked_def Validate_def ex_req_def
        orderedPair_def new_transfer_def new_entry_def find_mem_def memory_of_def ex_db_def empty_db_def wallet_row_def
        find_wallet_def find_idem_def Let_def)
  have "follows (TransferService_Create (ex_req 30) 1) (ts_Create (\<lambda>_ m. m) (promised_transferSvc 8) (ex_req 30) 1)
      (quiet_world ex_db 8)"
    using services_keep_the_promises [of "quiet_world ex_db 8"] by simp
  then obtain t w where tw: "TransferService_Create (ex_req 30) 1 (quiet_world ex_db 8) = (Ok (Some t), w)"
      "?p = (Ok (Some t), memory_of (disk w))"
    using run by (cases "TransferService_Create (ex_req 30) 1 (quiet_world ex_db 8)"; cases "fst (TransferService_Create (ex_req 30) 1 (quiet_world ex_db 8))")
      (auto simp: follows_def)
  then show ?thesis using run by auto
qed

end
