(* ===== verification/Telemetry.thy ===== *)
theory Telemetry
  imports Middleware
begin

text \<open>
  Packages \<open>internal/metrics\<close> and \<open>internal/tracing\<close> where they meet the program: the collectors
  with their labels and their registration, the tracer, and the span of \<open>Create\<close>. The Prometheus
  client and the OpenTelemetry SDK are parameters. Every use of a collector gives it as many label
  values as it has labels, so that \<open>WithLabelValues\<close>, which panics otherwise, does not end a
  request; and the span of \<open>Create\<close> changes nothing of what it does and is always ended.
\<close>

section \<open>Collectors\<close>

text \<open>A counter has no buckets; \<open>'b\<close> is the client's type of bucket lists.\<close>

record 'b vec =
  vecName :: string
  vecHelp :: string
  vecBuckets :: "'b option"
  vecLabels :: "string list"

datatype 'b collector = Vec "'b vec" | ProcessCollector | GoCollector

text \<open>The Prometheus client: \<open>MustRegister\<close> returns the registry or panics with a message.\<close>

record ('b, 'r) prometheus =
  DefBuckets :: 'b
  NewRegistry :: 'r
  MustRegister :: "'b collector list \<Rightarrow> 'r \<Rightarrow> string + 'r"
  HandlerFor :: "'r \<Rightarrow> bool \<Rightarrow> handler"

definition TransfersTotal_vec :: "'b vec" where
  "TransfersTotal_vec =
     \<lparr>vecName = ''wallet_transfers_total'',
      vecHelp = ''Total number of completed transfer operations by terminal state.'',
      vecBuckets = None, vecLabels = [''state'']\<rparr>"

definition TransferDuration_vec :: "('b, 'r) prometheus \<Rightarrow> 'b vec" where
  "TransferDuration_vec P =
     \<lparr>vecName = ''wallet_transfer_duration_seconds'',
      vecHelp = ''End-to-end transfer processing duration in seconds, labelled by terminal state.'',
      vecBuckets = Some (DefBuckets P), vecLabels = [''state'']\<rparr>"

definition HTTPRequestsTotal_vec :: "'b vec" where
  "HTTPRequestsTotal_vec =
     \<lparr>vecName = ''wallet_http_requests_total'',
      vecHelp = ''Total HTTP requests, labelled by method, route pattern, and status code.'',
      vecBuckets = None, vecLabels = [''method'', ''route'', ''status'']\<rparr>"

definition HTTPRequestDuration_vec :: "('b, 'r) prometheus \<Rightarrow> 'b vec" where
  "HTTPRequestDuration_vec P =
     \<lparr>vecName = ''wallet_http_request_duration_seconds'',
      vecHelp = ''HTTP request duration in seconds, labelled by method and route pattern.'',
      vecBuckets = Some (DefBuckets P), vecLabels = [''method'', ''route'']\<rparr>"

definition metrics_init :: "('b, 'r) prometheus \<Rightarrow> string + 'r" where
  "metrics_init P =
     MustRegister P
       [Vec TransfersTotal_vec, Vec (TransferDuration_vec P), Vec HTTPRequestsTotal_vec,
        Vec (HTTPRequestDuration_vec P), ProcessCollector, GoCollector]
       (NewRegistry P)"

text \<open>\<open>EnableOpenMetrics\<close> is the only option that is set.\<close>

definition metrics_Handler :: "('b, 'r) prometheus \<Rightarrow> 'r \<Rightarrow> handler" where
  "metrics_Handler P registry = HandlerFor P registry True"

lemmas vec_defs = TransfersTotal_vec_def TransferDuration_vec_def HTTPRequestsTotal_vec_def HTTPRequestDuration_vec_def

text \<open>
  What the client documents of \<open>MustRegister\<close> on a new registry: collectors are accepted if the
  fully qualified names of their metrics are pairwise distinct; those of the process collector begin
  with \<open>process_\<close>, those of the Go collector with \<open>go_\<close>.
\<close>

fun vec_names :: "'b collector \<Rightarrow> string list" where
  "vec_names (Vec v) = [vecName v]"
| "vec_names _ = []"

definition registers_distinct :: "('b, 'r) prometheus \<Rightarrow> bool" where
  "registers_distinct P \<longleftrightarrow>
     (\<forall>cs. distinct cs \<and> distinct (concat (map vec_names cs)) \<and>
        list_all (\<lambda>n. take 8 n \<noteq> ''process_'' \<and> take 3 n \<noteq> ''go_'') (concat (map vec_names cs)) \<longrightarrow>
        (\<exists>r. MustRegister P cs (NewRegistry P) = Inr r))"

theorem metrics_init_does_not_panic:
  assumes "registers_distinct P"
  shows "\<exists>r. metrics_init P = Inr r"
  unfolding metrics_init_def
  by (rule assms [unfolded registers_distinct_def, rule_format]) (simp add: vec_defs)

section \<open>Label values\<close>

text \<open>\<open>WithLabelValues\<close> panics unless it is given one value for each label.\<close>

definition WithLabelValues_ok :: "'b vec \<times> string list \<Rightarrow> bool" where
  "WithLabelValues_ok u \<longleftrightarrow> length (snd u) = length (vecLabels (fst u))"

text \<open>The uses in the deferred closure of \<open>Create\<close> and in \<open>HTTPMiddleware\<close>.\<close>

definition observed_labels :: "('b, 'r) prometheus \<Rightarrow> string \<Rightarrow> ('b vec \<times> string list) list" where
  "observed_labels P resultState =
     (if resultState \<noteq> '''' then [(TransfersTotal_vec, [resultState]), (TransferDuration_vec P, [resultState])] else [])"

definition request_labels :: "('b, 'r) prometheus \<Rightarrow> request \<Rightarrow> nat \<Rightarrow> ('b vec \<times> string list) list" where
  "request_labels P r status =
     (let route = (if rqPattern r = '''' then ''_unmatched_'' else rqPattern r)
      in [(HTTPRequestsTotal_vec, [rqMethod r, route, Itoa (int status)]),
          (HTTPRequestDuration_vec P, [rqMethod r, route])])"

theorem labels_match:
  "list_all WithLabelValues_ok (observed_labels P st)" "list_all WithLabelValues_ok (request_labels P r status)"
  by (simp_all add: observed_labels_def request_labels_def WithLabelValues_ok_def vec_defs Let_def)

section \<open>The tracer and the span of Create\<close>

definition ServiceName :: string where
  "ServiceName = ''wallet-transfer-service''"

definition tracerName :: string where
  "tracerName = ''github.com/PratikDhanave/wallet-transfer-assignment''"

text \<open>\<open>otel.Tracer\<close> is the SDK's.\<close>

definition Tracer :: "(string \<Rightarrow> 'tracer) \<Rightarrow> 'tracer" where
  "Tracer otel = otel tracerName"

datatype attr = StringAttr string string | Int64Attr string int64

datatype span_event = Started string | Attributes "attr list" | Recorded error | Ended

text \<open>
  \<open>Create\<close> with its span. Deferred calls run last registered first: the closure that counts and
  names the state, then \<open>span.End\<close>.
\<close>

definition state_attribute :: "string \<Rightarrow> span_event list" where
  "state_attribute resultState =
     (if resultState \<noteq> '''' then [Attributes [StringAttr ''transfer.state'' resultState]] else [])"

definition Create_traced :: "CreateTransferRequest \<Rightarrow> uuid \<Rightarrow> world \<Rightarrow> ((error, Transfer option) res \<times> world) \<times> span_event list" where
  "Create_traced req u w0 =
     (let sp = [Started ''TransferService.Create''] in
      case Validate req of
        Some err \<Rightarrow> ((Err err, w0), sp @ [Recorded err] @ [Ended])
      | None \<Rightarrow>
          let sp1 = sp @ [Attributes [StringAttr ''transfer.from_wallet_id'' (qFromWalletID req),
                                      StringAttr ''transfer.to_wallet_id'' (qToWalletID req),
                                      Int64Attr ''transfer.amount'' (qAmount req)]];
              h = hash req in
          (case replayIfExists DB (qIdempotencyKey req) h w0 of
             (Panic p, w1) \<Rightarrow> ((Panic p, w1), sp1 @ [Ended])
           | (Err err, w1) \<Rightarrow> ((Err err, w1), sp1 @ [Ended])
           | (Ok (Some t), w1) \<Rightarrow> ((Ok (Some t), observe (tState t) w1), sp1 @ state_attribute (tState t) @ [Ended])
           | (Ok None, w1) \<Rightarrow>
               (case RunInTx (executeTransfer Tx req h u) w1 of
                  (Panic p, w2) \<Rightarrow> ((Panic p, w2), sp1 @ [Ended])
                | (Ok t, w2) \<Rightarrow> ((Ok (Some t), observe (tState t) w2), sp1 @ state_attribute (tState t) @ [Ended])
                | (Err txErr, w2) \<Rightarrow>
                    if errors_Is txErr ErrIdempotencyExists then
                      (case replayIfExists DB (qIdempotencyKey req) h w2 of
                         (Ok (Some t), w3) \<Rightarrow> ((Ok (Some t), observe (tState t) w3), sp1 @ state_attribute (tState t) @ [Ended])
                       | r \<Rightarrow> (r, sp1 @ [Ended]))
                    else ((Err txErr, w2), sp1 @ [Recorded txErr] @ [Ended]))))"

text \<open>Tracing does not change what the call does.\<close>

theorem Create_traced_result: "fst (Create_traced req u w) = TransferService_Create req u w"
  by (simp add: Create_traced_def TransferService_Create_def Let_def split: option.split prod.split res.split)

text \<open>
  The span begins with the call and ends once, at its very end; an error recorded on it is the one
  that is returned; and it names a state exactly when a transfer is returned, namely its state.
\<close>

theorem Create_span:
  assumes "Create_traced req u w = ((r, w'), sp)"
  obtains evs where "sp = Started ''TransferService.Create'' # evs @ [Ended]" and "Ended \<notin> set evs"
    and "\<And>e. Recorded e \<in> set evs \<Longrightarrow> r = Err e"
    and "\<And>st. Attributes [StringAttr ''transfer.state'' st] \<in> set evs \<longleftrightarrow>
        (\<exists>t. r = Ok (Some t) \<and> tState t = st \<and> st \<noteq> '''')"
proof -
  have "\<exists>evs. sp = Started ''TransferService.Create'' # evs @ [Ended] \<and> Ended \<notin> set evs \<and>
      (\<forall>e. Recorded e \<in> set evs \<longrightarrow> r = Err e) \<and>
      (\<forall>st. Attributes [StringAttr ''transfer.state'' st] \<in> set evs \<longleftrightarrow> (\<exists>t. r = Ok (Some t) \<and> tState t = st \<and> st \<noteq> ''''))"
    using assms
    by (auto simp: Create_traced_def Let_def state_attribute_def split: option.splits prod.splits res.splits if_splits)
  then show thesis using that by blast
qed

end
