(* ===== verification/Wiring.thy ===== *)
theory Wiring
  imports Interfaces Middleware
begin

text \<open>
  The handlers as the code declares them, structs that hold the services they call, and the whole
  wiring of \<open>run\<close> from the repositories to the handler of the public listener. Which service a
  route reaches is decided there; with the services that \<open>run\<close> builds, the router is \<open>NewRouter\<close> of
  \<open>Middleware\<close>.
\<close>

section \<open>Handler structs\<close>

record TransferHandler =
  thSvc :: "world TransferService"

definition NewTransferHandler :: "world TransferService \<Rightarrow> TransferHandler" where
  "NewTransferHandler svc = \<lparr>thSvc = svc\<rparr>"

record WalletHandler =
  whWsvc :: "world WalletService"
  whTsvc :: "world TransferService"

definition NewWalletHandler :: "world WalletService \<Rightarrow> world TransferService \<Rightarrow> WalletHandler" where
  "NewWalletHandler wsvc tsvc = \<lparr>whWsvc = wsvc, whTsvc = tsvc\<rparr>"

section \<open>Their methods\<close>

definition th_Create :: "uuid_lib \<Rightarrow> TransferHandler \<Rightarrow> handler" where
  "th_Create U th a s =
     (case createTransferRequest (rqBody (req_at a s)) of
        Inl msg \<Rightarrow> bad_request (''invalid json: '' @ msg) s
      | Inr req \<Rightarrow>
          (let (u, s0) = draw_uuid s in
           call_service (ts_Create observe (thSvc th) req u)
             (\<lambda>e s1. (Done, writeError a e s1))
             (\<lambda>x s1. case x of
                None \<Rightarrow> (Panicked nil_dereference, s1)
              | Some t \<Rightarrow> (Done, writeJSON 200 (Some (toTransferResponse U t)) s1)) s0))"

definition th_Get :: "uuid_lib \<Rightarrow> TransferHandler \<Rightarrow> handler" where
  "th_Get U th a s =
     (case uuidParse U (rqPathValue (req_at a s)) of
        None \<Rightarrow> bad_request ''invalid transfer id'' s
      | Some i \<Rightarrow>
          call_service (ts_GetTransfer (thSvc th) i)
            (\<lambda>e s1. (Done, writeError a e s1))
            (\<lambda>t s1. (Done, writeJSON 200 (Some (toTransferResponse U t)) s1)) s)"

definition wh_Get :: "WalletHandler \<Rightarrow> handler" where
  "wh_Get wh a s =
     call_service (ws_Get (whWsvc wh) (rqPathValue (req_at a s)))
       (\<lambda>e s1. (Done, writeError a e s1))
       (\<lambda>w s1. (Done, writeJSON 200 (Some (toWalletResponse w)) s1)) s"

definition wh_ListTransfers :: "uuid_lib \<Rightarrow> WalletHandler \<Rightarrow> handler" where
  "wh_ListTransfers U wh a s =
     (let walletID = rqPathValue (req_at a s) in
      case parseListQuery (req_at a s) of
        Inl msg \<Rightarrow> bad_request msg s
      | Inr (limit, before) \<Rightarrow>
          call_service (ts_ListTransfersByWallet (whTsvc wh) walletID limit before)
            (\<lambda>e s1. if errors_Is e ErrWalletNotFound \<and> walletID = '''' then bad_request ''wallet id is required'' s1
                    else (Done, writeError a e s1))
            (\<lambda>(rows, next_cur) s1. (Done, writeJSON 200 (Some (transferListResponse U rows next_cur)) s1)) s)"

definition wh_Create :: "WalletHandler \<Rightarrow> handler" where
  "wh_Create wh a s =
     (case createWalletRequest (rqBody (req_at a s)) of
        Inl msg \<Rightarrow> bad_request (''invalid json: '' @ msg) s
      | Inr req \<Rightarrow>
          call_service (ws_Create (whWsvc wh) (cwID req) (cwBalance req))
            (\<lambda>e s1. (Done, writeError a e s1))
            (\<lambda>w s1. (Done, writeJSON 201 (Some (toWalletResponse w)) s1)) s)"

lemmas handler_method_defs = th_Create_def th_Get_def wh_Get_def wh_ListTransfers_def wh_Create_def

section \<open>The router over the handlers\<close>

definition router_over :: "uuid_lib \<Rightarrow> TransferHandler \<Rightarrow> WalletHandler \<Rightarrow> handler" where
  "router_over U transfer wallet =
     Chain (mux_ServeHTTP
       [\<lparr>rtPattern = ''POST /transfers'', rtMethod = ''POST'', rtSegs = [Lit ''transfers''],
         rtHandler = th_Create U transfer\<rparr>,
        \<lparr>rtPattern = ''GET /transfers/{id}'', rtMethod = ''GET'', rtSegs = [Lit ''transfers'', Wild],
         rtHandler = th_Get U transfer\<rparr>,
        \<lparr>rtPattern = ''POST /wallets'', rtMethod = ''POST'', rtSegs = [Lit ''wallets''], rtHandler = wh_Create wallet\<rparr>,
        \<lparr>rtPattern = ''GET /wallets/{id}'', rtMethod = ''GET'', rtSegs = [Lit ''wallets'', Wild], rtHandler = wh_Get wallet\<rparr>,
        \<lparr>rtPattern = ''GET /wallets/{id}/transfers'', rtMethod = ''GET'',
         rtSegs = [Lit ''wallets'', Wild, Lit ''transfers''], rtHandler = wh_ListTransfers U wallet\<rparr>,
        \<lparr>rtPattern = ''GET /healthz'', rtMethod = ''GET'', rtSegs = [Lit ''healthz''], rtHandler = healthz\<rparr>])
       [RequestID U, AccessLog, Recover]"

definition apiMux :: "uuid_lib \<Rightarrow> handler" where
  "apiMux U = router_over U (NewTransferHandler transferSvc) (NewWalletHandler walletSvc transferSvc)"

text \<open>The handler that \<open>run\<close> serves is the one the properties of the API are about.\<close>

theorem wired_router: "apiMux U = NewRouter U" "HTTPMiddleware (apiMux U) = apiHandler U"
proof -
  have sel: "thSvc (NewTransferHandler s) = s" "whWsvc (NewWalletHandler v s) = v" "whTsvc (NewWalletHandler v s) = s" for v s
    by (simp_all add: NewTransferHandler_def NewWalletHandler_def)
  have "th_Create U (NewTransferHandler transferSvc) = TransferHandler_Create U"
    "th_Get U (NewTransferHandler transferSvc) = TransferHandler_Get U"
    "wh_Get (NewWalletHandler walletSvc transferSvc) = WalletHandler_Get"
    "wh_ListTransfers U (NewWalletHandler walletSvc transferSvc) = WalletHandler_ListTransfers U"
    "wh_Create (NewWalletHandler walletSvc transferSvc) = WalletHandler_Create"
    unfolding fun_eq_iff handler_method_defs sel wired_services TransferHandler_Create_def TransferHandler_Get_def
      WalletHandler_Get_def WalletHandler_ListTransfers_def WalletHandler_Create_def by simp_all
  then show *: "apiMux U = NewRouter U"
    by (simp add: apiMux_def router_over_def NewRouter_def routes_def)
  show "HTTPMiddleware (apiMux U) = apiHandler U"
    by (simp add: * apiHandler_def)
qed

end
