(* ===== verification/Spec2Isabelle.thy ===== *)
theory Spec2Isabelle
  imports Transfer_Safety Listing Linearizable Race Component_Props Api_Props Debug Testdb Reference Telemetry Wiring
begin

text \<open>
  A verification of the wallet transfer service: Go code that moves money between wallets in one
  Postgres transaction per request, with double-entry ledger rows and durable idempotency keys,
  behind a JSON API. This theory holds no definitions; it imports the whole development.

  \<^bold>\<open>The program.\<close> \<open>cmd/server/main.go\<close> loads the configuration, opens and migrates the database and
  serves two listeners. A request passes the middlewares of \<open>internal/metrics\<close> and
  \<open>internal/handler\<close>, is routed to a handler, decoded, handed to a service of \<open>internal/service\<close>,
  which calls the repositories of \<open>internal/repository/postgres\<close>, on the pool or inside a
  transaction of \<open>RunInTx\<close>; their errors come back as values and are mapped to a status.

  \<^bold>\<open>Where it is modelled,\<close> from the bottom up:

  \<^item> \<open>Prelude\<close>, \<open>Strconv\<close>, \<open>Sha256\<close>, \<open>Gotime\<close>: Go's results, \<open>int64\<close> as a 64-bit word, decimal
    conversions, the digest behind the request hash, and timestamps with their texts.
  \<^item> \<open>Domain\<close> is \<open>internal/domain\<close> (entities, \<open>CanTransitionTo\<close>, the errors of every layer with
    \<open>errors.Is\<close>); \<open>Schema\<close> is the migrations: the tables as lists of rows, each SQL statement as a
    function of the tables and the time, each constraint as the error with its SQLSTATE.
  \<^item> \<open>Executor\<close> is \<open>database/sql\<close>: a \<open>world\<close> with the committed database, the open transaction (its
    private view, its locks, whether it is aborted), the clock, the metrics, the faults the next
    statements meet (\<open>FailBefore\<close> and \<open>FailAfter\<close> the server acted) and the commits of other
    processes. \<open>Repository\<close> is every repository method and \<open>RunInTx\<close>; \<open>Service\<close> is every method of
    both services, on these repositories. \<open>Interfaces\<close> is the same services as the code declares
    them, structs over the interfaces of \<open>internal/repository\<close>, \<open>Wiring\<close> the same handlers and router
    over the services, with the wiring of \<open>run\<close>, which makes the two equal.
  \<^item> \<open>Http\<close>, \<open>Handler\<close>, \<open>Middleware\<close>, \<open>Debug\<close> are \<open>internal/handler\<close> and \<open>metrics/middleware.go\<close>: JSON
    decoding with \<open>DisallowUnknownFields\<close>, \<open>ServeMux\<close>, handlers, \<open>classify\<close>, request ids, access log,
    panic recovery and counters, over a store of requests in which \<open>r.WithContext\<close> is a copy.
  \<^item> \<open>Config\<close> and \<open>Net\<close> are \<open>internal/config\<close> and \<open>isLoopbackAddr\<close>; \<open>Server\<close> is \<open>internal/db\<close>,
    \<open>tracing.Setup\<close>, \<open>main\<close> and \<open>run\<close>, the latter as steps of its goroutines; \<open>Testdb\<close> is
    \<open>internal/testdb\<close>. \<open>Telemetry\<close> is the collectors of \<open>internal/metrics\<close>, \<open>Tracer\<close> and the span of
    \<open>Create\<close>.

  \<^bold>\<open>What is shown.\<close> Each of these theories opens with its own summary.

  \<^item> \<open>Books\<close>, \<open>Double_Entry\<close>: the invariant \<open>books_ok\<close> (the schema's constraints, every transfer
    settled with its two entries or failed without any, every key's record beside its transfer),
    kept by \<open>book\<close>, the effect of one transfer in one equation. \<open>Transfer_Spec\<close>: \<open>executeTransfer\<close>
    in a transaction that meets no fault succeeds exactly where \<open>can_book\<close> holds and writes
    exactly \<open>book\<close>.
  \<^item> \<open>Environment\<close>: the database as a transition system; the locale \<open>environment\<close> states what the
    commits of others preserve. \<open>Create_Refinement\<close>: inside it, every run of \<open>Create\<close> is a run of
    \<open>create_spec\<close>. \<open>Idempotency\<close>: the locale \<open>idempotent_call\<close> derives exactly-once retries from
    four laws, and is interpreted on \<open>Create\<close>. \<open>Transfer_Props\<close>, \<open>Transfer_Safety\<close>, \<open>Race\<close>: the
    properties of \<open>Create\<close> that follow. \<open>Listing\<close>: pagination.
  \<^item> \<open>Concurrency\<close>: many transfers at once, statement by statement. The locks are never waited for in
    a circle, and what is committed is what the same transfers commit one after the other.
    \<open>Serial_Code\<close>: namely by running \<open>RunInTx\<close> and \<open>executeTransfer\<close> themselves. \<open>Requests\<close>,
    \<open>Schedule\<close>: whole calls of \<open>Create\<close> at once, with the look at the key before the transaction and
    the replay after a lost race. \<open>Linearizable\<close>: every such history has an order in which the code
    of \<open>Create\<close>, called for one call after the other, gives the same answers and the same database.
  \<^item> \<open>Reference\<close>: the contracts that the comments on the repository interfaces state, as maps and
    lists without a database. The locales \<open>repositories_refine\<close> and \<open>services_refine\<close> of \<open>Interfaces\<close>
    carry a simulation from the repositories to the services; they are interpreted on package
    \<open>postgres\<close> against the contracts.
  \<^item> \<open>Component_Props\<close>: transactions are atomic for every callback; which bodies decode, and to what.
  \<^item> \<open>Api\<close>, \<open>Api_Props\<close>: the routes end to end, from the request to the response and the database. The
    locales \<open>reply_frame\<close>, \<open>middleware\<close> and \<open>firewall\<close> carry a relation through handlers, mux and
    chain; they are interpreted on the frames and middlewares of the model.
  \<^item> \<open>Server\<close>: the order in which the process ends, and that it ends.

  \<^bold>\<open>What is assumed.\<close> Statements are atomic and the constraints are checked as Postgres documents
  them. Other processes commit only before a statement on the pool and before the begin of a
  transaction: once a transaction holds its locks, what others commit to other rows neither
  changes what it reads nor is changed by it, which \<open>Concurrency\<close> and \<open>Serial_Code\<close> prove for the
  transfers themselves, and \<open>Requests\<close> for the race on the key. The request hash is computed, and collisions are not excluded: the theorems speak of
  equal hashes where the code compares hashes. UUIDs are drawn from an arbitrary sequence; where a
  property needs a fresh one, it says so. \<open>uuid.String\<close> and \<open>uuid.Parse\<close> are parameters with the
  laws of \<open>uuid_laws\<close>, pprof and promhttp handlers, the driver, the migration runner and the
  tracing SDK are parameters without laws.

  \<^bold>\<open>Bounds.\<close> No definition needs fuel: loops recurse on lists, on the length of a text, or on the
  eight groups of an IPv6 address. The retries and pages of \<open>Idempotency\<close> and \<open>Listing\<close> recurse on
  a list of attempts and on the history. \<open>int64\<close> arithmetic wraps; a balance or a ledger id that
  would leave its range is the error of the constraint or of the sequence.

  \<^bold>\<open>Differences from the code.\<close> \<open>ParseDuration\<close> computes fractions exactly, where Go multiplies a
  \<open>float64\<close>. A path is its list of decoded segments; a redirect to the clean path carries no query
  string. A JSON text is its value, a number its literal; a second value after the first is not
  read, as in the code. The access log has the fields that the properties need.

  \<^bold>\<open>Not modelled.\<close> The insides of the libraries: pprof, the Prometheus client, the OpenTelemetry SDK
  with the wrapper \<open>otelhttp.NewHandler\<close>, the driver and the migration runner. Wall-clock time:
  durations in metrics and logs (an observation is counted, not measured), \<open>ReadHeaderTimeout\<close> and
  the deadlines of the shutdowns. The indexes of the second migration, which do not change any
  result. The cancellation of a request's context shows only as a fault of the next statement.
\<close>

end
